(* ===== verification/Go_Prelude.thy ===== *)
theory Go_Prelude
  imports Main "HOL-Library.Word"
begin

unbundle bit_operations_syntax

section \<open>Shared vocabulary of the development\<close>

text \<open>
  The part of Go and its standard library that every component uses: byte strings,
  case folding, decimal rendering, index search, and the generic facts on lists,
  options and phase masks that the component proofs share.

  A Go \<open>string\<close> and a Go \<open>[]byte\<close> are both sequences of octets; a \<^typ>\<open>char\<close> of
  Isabelle/HOL is exactly one octet, so both are \<^typ>\<open>string\<close> here.  A \<open>[]byte\<close> whose
  \<open>nil\<close>-ness matters is a \<open>bytes option\<close>.  Case folding (\<open>strings.ToLower\<close>,
  \<open>strings.EqualFold\<close>) is the ASCII folding, which is what the Go functions compute on
  strings without octets above 127: header names, methods and schemes.
\<close>

named_theorems go_simps \<open>unfolding facts of small Go library functions\<close>
named_theorems record_simps \<open>effect of the recording operations on one stream field\<close>

type_synonym bytes = string

subsection \<open>Byte strings\<close>

definition ascii_lower :: "char \<Rightarrow> char" where
  "ascii_lower c =
     (let n = (of_char c :: nat) in if 65 \<le> n \<and> n \<le> 90 then char_of (n + 32) else c)"

definition ToLower :: "string \<Rightarrow> string" where
  "ToLower s = map ascii_lower s"

definition EqualFold :: "string \<Rightarrow> string \<Rightarrow> bool" where
  "EqualFold a b \<longleftrightarrow> ToLower a = ToLower b"

definition HasPrefix :: "string \<Rightarrow> string \<Rightarrow> bool" where
  "HasPrefix s p \<longleftrightarrow> take (length p) s = p"

definition HasSuffix :: "string \<Rightarrow> string \<Rightarrow> bool" where
  "HasSuffix s p \<longleftrightarrow> length p \<le> length s \<and> drop (length s - length p) s = p"

fun IndexByte :: "string \<Rightarrow> char \<Rightarrow> nat option" where
  "IndexByte [] c = None"
| "IndexByte (x # xs) c = (if x = c then Some 0 else map_option Suc (IndexByte xs c))"

definition LastIndexByte :: "string \<Rightarrow> char \<Rightarrow> nat option" where
  "LastIndexByte s c = map_option (\<lambda>i. length s - 1 - i) (IndexByte (rev s) c)"

text \<open>White space as \<open>strings.TrimSpace\<close> knows it on ASCII text.\<close>

definition is_space :: "char \<Rightarrow> bool" where
  "is_space c \<longleftrightarrow> (of_char c :: nat) \<in> {9, 10, 11, 12, 13, 32}"

definition TrimSpace :: "string \<Rightarrow> string" where
  "TrimSpace s = rev (dropWhile is_space (rev (dropWhile is_space s)))"

text \<open>\<open>strings.Split\<close> on a one-octet separator: always at least one part.\<close>

fun SplitByte :: "string \<Rightarrow> char \<Rightarrow> string list" where
  "SplitByte [] c = [[]]"
| "SplitByte (x # xs) c =
     (if x = c then [] # SplitByte xs c
      else (case SplitByte xs c of [] \<Rightarrow> [[x]] | p # ps \<Rightarrow> (x # p) # ps))"

subsection \<open>Decimal numbers: \<open>strconv.Itoa\<close> and \<open>strconv.Atoi\<close>\<close>

definition digit_char :: "nat \<Rightarrow> char" where
  "digit_char d = char_of (48 + d)"

fun nat_digits :: "nat \<Rightarrow> string" where
  "nat_digits n = (if n < 10 then [digit_char n] else nat_digits (n div 10) @ [digit_char (n mod 10)])"

declare nat_digits.simps [simp del]

definition Itoa :: "int \<Rightarrow> string" where
  "Itoa i = (if i < 0 then CHR ''-'' # nat_digits (nat (- i)) else nat_digits (nat i))"

definition is_digit :: "char \<Rightarrow> bool" where
  "is_digit c \<longleftrightarrow> 48 \<le> (of_char c :: nat) \<and> (of_char c :: nat) \<le> 57"

definition digit_value :: "char \<Rightarrow> nat" where
  "digit_value c = of_char c - 48"

fun digits_value :: "nat \<Rightarrow> string \<Rightarrow> nat" where
  "digits_value acc [] = acc"
| "digits_value acc (c # cs) = digits_value (10 * acc + digit_value c) cs"

text \<open>
  \<open>strconv.Atoi\<close> on a 64-bit platform: an optional sign, at least one decimal digit and
  nothing else, with the value in the range of \<open>int\<close>.
\<close>

definition Atoi :: "string \<Rightarrow> int option" where
  "Atoi s =
     (let neg = (case s of c # _ \<Rightarrow> c = CHR ''-'' | [] \<Rightarrow> False);
          body = (case s of c # cs \<Rightarrow> if c = CHR ''-'' \<or> c = CHR ''+'' then cs else s | [] \<Rightarrow> s);
          v = int (digits_value 0 body);
          i = (if neg then - v else v)
      in if body = [] \<or> \<not> list_all is_digit body \<or> i < - (2 ^ 63) \<or> i \<ge> 2 ^ 63
         then None else Some i)"

lemmas [go_simps] =
  ascii_lower_def ToLower_def EqualFold_def HasPrefix_def HasSuffix_def

subsection \<open>Facts on strings\<close>

lemma ascii_lower_idem [simp]: "ascii_lower (ascii_lower c) = ascii_lower c"
proof -
  have lt: "(of_char c :: nat) < 256"
    by simp
  show ?thesis
  proof (cases "65 \<le> (of_char c :: nat) \<and> (of_char c :: nat) \<le> 90")
    case True
    then have "(of_char (char_of ((of_char c :: nat) + 32) :: char) :: nat) = of_char c + 32"
      by (simp add: of_char_mod_256)
    with True show ?thesis
      by (simp add: ascii_lower_def Let_def)
  next
    case False
    then show ?thesis
      by (auto simp: ascii_lower_def Let_def)
  qed
qed

lemma ToLower_idem [simp]: "ToLower (ToLower s) = ToLower s"
  by (simp add: ToLower_def)

lemma length_ToLower [simp]: "length (ToLower s) = length s"
  by (simp add: ToLower_def)

lemma ToLower_Nil [simp]: "ToLower [] = []"
  by (simp add: ToLower_def)

lemma EqualFold_refl [simp]: "EqualFold s s"
  by (simp add: EqualFold_def)

lemma IndexByte_Some:
  "IndexByte s c = Some i \<Longrightarrow> i < length s \<and> s ! i = c \<and> c \<notin> set (take i s)"
  by (induction s arbitrary: i) (auto split: if_splits)

lemma IndexByte_None: "IndexByte s c = None \<longleftrightarrow> c \<notin> set s"
  by (induction s) auto

lemma IndexByte_append_sep: "c \<notin> set p \<Longrightarrow> IndexByte (p @ c # q) c = Some (length p)"
  by (induction p) auto

subsection \<open>Facts on lists and options\<close>

lemma concat_map_upt_split:
  "a \<le> b \<Longrightarrow> b \<le> c \<Longrightarrow>
   concat (map f [a..<c]) = concat (map f [a..<b]) @ concat (map f [b..<c])"
  by (metis concat_append map_append upt_add_eq_append le_Suc_ex)

lemma find_append: "find P (xs @ ys) = (case find P xs of Some x \<Rightarrow> Some x | None \<Rightarrow> find P ys)"
  by (induction xs) auto

subsection \<open>Bit masks\<close>

text \<open>Go's \<open>a &^ b\<close>.\<close>

definition and_not :: "'a::len word \<Rightarrow> 'a word \<Rightarrow> 'a word" where
  "and_not a b = a AND NOT b"

lemma and_not_zero_subset: "and_not a b = 0 \<Longrightarrow> a AND b = a"
  unfolding and_not_def
  by (metis bit.conj_disj_distrib bit.disj_cancel_right bit.disj_zero_right word_and_max)

end
