(* ===== verification/Netip.thy ===== *)
theory Netip
  imports Go_Prelude
begin

section \<open>IP addresses, address-port pairs and prefixes\<close>

text \<open>
  The part of Go's \<open>net/netip\<close> the program uses.  An address is invalid (the zero
  value), an IPv4 address or an IPv6 address with a zone; equality of the datatype is
  Go's \<open>==\<close>.  A prefix is an address and its length, with \<open>None\<close> for the length of
  the invalid prefix.  The lemmas characterise prefix membership by the leading bits.
\<close>

datatype Addr = AddrZero | Addr4 "32 word" | Addr6 "128 word" string

datatype AddrPort = AddrPort (ap_Addr: Addr) (ap_Port: "16 word")

datatype Prefix = Prefix (pfx_Addr: Addr) (pfx_Bits: "nat option")

abbreviation AddrPortZero :: AddrPort where
  "AddrPortZero \<equiv> AddrPort AddrZero 0"

fun Addr_IsValid :: "Addr \<Rightarrow> bool" where
  "Addr_IsValid AddrZero = False"
| "Addr_IsValid _ = True"

fun Addr_Is4 :: "Addr \<Rightarrow> bool" where
  "Addr_Is4 (Addr4 _) = True"
| "Addr_Is4 _ = False"

fun Addr_Is4In6 :: "Addr \<Rightarrow> bool" where
  "Addr_Is4In6 (Addr6 w z) = (drop_bit 32 w = 0xffff)"
| "Addr_Is4In6 _ = False"

fun Addr_Zone :: "Addr \<Rightarrow> string" where
  "Addr_Zone (Addr6 w z) = z"
| "Addr_Zone _ = []"

fun Addr_BitLen :: "Addr \<Rightarrow> nat" where
  "Addr_BitLen AddrZero = 0"
| "Addr_BitLen (Addr4 _) = 32"
| "Addr_BitLen (Addr6 _ _) = 128"

fun withoutZone :: "Addr \<Rightarrow> Addr" where
  "withoutZone (Addr6 w z) = Addr6 w []"
| "withoutZone a = a"

fun Unmap :: "Addr \<Rightarrow> Addr" where
  "Unmap (Addr6 w z) = (if Addr_Is4In6 (Addr6 w z) then Addr4 (ucast w) else Addr6 w z)"
| "Unmap a = a"

definition AddrPort_IsValid :: "AddrPort \<Rightarrow> bool" where
  "AddrPort_IsValid ap = Addr_IsValid (ap_Addr ap)"

text \<open>\<open>netip.AddrFromSlice\<close>: a 4-octet or 16-octet slice in network order.\<close>

definition be_word :: "bytes \<Rightarrow> 'a::len word" where
  "be_word bs = foldl (\<lambda>acc c. acc * 256 + of_nat (of_char c)) 0 bs"

definition AddrFromSlice :: "bytes \<Rightarrow> Addr option" where
  "AddrFromSlice bs =
     (if length bs = 4 then Some (Addr4 (be_word bs))
      else if length bs = 16 then Some (Addr6 (be_word bs) [])
      else None)"

subsection \<open>Prefixes\<close>

definition PrefixFrom :: "Addr \<Rightarrow> nat \<Rightarrow> Prefix" where
  "PrefixFrom ip bits =
     Prefix (withoutZone ip) (if Addr_IsValid ip \<and> bits \<le> Addr_BitLen ip then Some bits else None)"

definition Prefix_IsValid :: "Prefix \<Rightarrow> bool" where
  "Prefix_IsValid p \<longleftrightarrow> pfx_Bits p \<noteq> None"

fun mask_addr :: "Addr \<Rightarrow> nat \<Rightarrow> Addr" where
  "mask_addr AddrZero bits = AddrZero"
| "mask_addr (Addr4 w) bits = Addr4 (w AND NOT (mask (32 - bits)))"
| "mask_addr (Addr6 w z) bits = Addr6 (w AND NOT (mask (128 - bits))) []"

definition Masked :: "Prefix \<Rightarrow> Prefix" where
  "Masked p =
     (case pfx_Bits p of
        None \<Rightarrow> Prefix AddrZero None
      | Some bits \<Rightarrow> PrefixFrom (mask_addr (pfx_Addr p) bits) bits)"

text \<open>
  \<open>Prefix.Contains\<close>: the families agree, the tested address has no zone, and the leading
  bits are equal.  An IPv4-mapped IPv6 address is not in an IPv4 prefix.
\<close>

fun Contains :: "Prefix \<Rightarrow> Addr \<Rightarrow> bool" where
  "Contains (Prefix (Addr4 n) (Some bits)) (Addr4 a) = (drop_bit (32 - bits) (a XOR n) = 0)"
| "Contains (Prefix (Addr6 n zn) (Some bits)) (Addr6 a z) =
     (z = [] \<and> (a XOR n) AND NOT (mask (128 - bits)) = 0)"
| "Contains _ _ = False"

subsection \<open>Rendering\<close>

definition hex_char :: "nat \<Rightarrow> char" where
  "hex_char d = (if d < 10 then char_of (48 + d) else char_of (87 + d))"

fun hex_digits :: "nat \<Rightarrow> string" where
  "hex_digits n = (if n < 16 then [hex_char n] else hex_digits (n div 16) @ [hex_char (n mod 16)])"

declare hex_digits.simps [simp del]

fun join :: "string \<Rightarrow> string list \<Rightarrow> string" where
  "join sep [] = []"
| "join sep [x] = x"
| "join sep (x # xs) = x @ sep @ join sep xs"

definition octet :: "32 word \<Rightarrow> nat \<Rightarrow> nat" where
  "octet w i = unat (take_bit 8 (drop_bit (8 * (3 - i)) w))"

definition group6 :: "128 word \<Rightarrow> nat \<Rightarrow> nat" where
  "group6 w i = unat (take_bit 16 (drop_bit (16 * (7 - i)) w))"

definition string4 :: "32 word \<Rightarrow> string" where
  "string4 w = join ''.'' (map (\<lambda>i. nat_digits (octet w i)) [0..<4])"

text \<open>The leftmost longest run of at least two zero groups, as \<open>appendTo6\<close> searches it.\<close>

definition zero_run_from :: "nat list \<Rightarrow> nat \<Rightarrow> nat" where
  "zero_run_from gs i = i + length (takeWhile (\<lambda>g. g = 0) (drop i gs))"

definition zero_run :: "nat list \<Rightarrow> nat \<times> nat" where
  "zero_run gs =
     foldl (\<lambda>(s, e) i. let j = zero_run_from gs i in if 2 \<le> j - i \<and> e - s < j - i then (i, j) else (s, e))
       (255, 255) [0..<length gs]"

definition string6 :: "128 word \<Rightarrow> string" where
  "string6 w =
     (let gs = map (group6 w) [0..<8]; (s, e) = zero_run gs
      in if s = 255 then join '':'' (map hex_digits gs)
         else join '':'' (map hex_digits (take s gs)) @ ''::'' @ join '':'' (map hex_digits (drop e gs)))"

definition zone_suffix :: "string \<Rightarrow> string" where
  "zone_suffix z = (if z = [] then [] else CHR ''%'' # z)"

fun Addr_String :: "Addr \<Rightarrow> string" where
  "Addr_String AddrZero = ''invalid IP''"
| "Addr_String (Addr4 w) = string4 w"
| "Addr_String (Addr6 w z) =
     (if Addr_Is4In6 (Addr6 w z) then ''::ffff:'' @ string4 (ucast w) else string6 w) @ zone_suffix z"

fun AddrPort_String :: "AddrPort \<Rightarrow> string" where
  "AddrPort_String (AddrPort AddrZero p) = ''invalid AddrPort''"
| "AddrPort_String (AddrPort (Addr4 w) p) = string4 w @ '':'' @ nat_digits (unat p)"
| "AddrPort_String (AddrPort (Addr6 w z) p) =
     ''['' @ Addr_String (Addr6 w z) @ '']:'' @ nat_digits (unat p)"

subsection \<open>Facts\<close>

lemma Unmap_IsValid [simp]: "Addr_IsValid (Unmap a) = Addr_IsValid a"
  by (cases a) auto

lemma Unmap_not_4In6 [simp]: "\<not> Addr_Is4In6 (Unmap a)"
  by (cases a) auto

lemma Unmap_idem [simp]: "Unmap (Unmap a) = Unmap a"
  by (cases a) auto

lemma xor_mask_zero_iff:
  "((a :: 'a::len word) XOR n) AND NOT (mask k) = 0 \<longleftrightarrow> a AND NOT (mask k) = n AND NOT (mask k)"
  by (auto simp: bit_eq_iff bit_and_iff bit_xor_iff bit_not_iff)

lemma drop_bit_zero_iff: "drop_bit k (x :: 'a::len word) = 0 \<longleftrightarrow> x AND NOT (mask k) = 0"
proof
  assume "drop_bit k x = 0"
  then have "\<not> bit x (k + m)" for m
    by (metis bit_0_eq bit_drop_bit_eq bot_apply bot_bool_def comp_apply)
  then have "\<not> bit x m" if "k \<le> m" for m
    using that by (metis le_Suc_ex)
  then show "x AND NOT (mask k) = 0"
    by (auto simp: bit_eq_iff bit_and_iff bit_not_iff bit_mask_iff not_less)
next
  assume *: "x AND NOT (mask k) = 0"
  have "\<not> bit x (k + m)" for m
  proof
    assume "bit x (k + m)"
    then have "bit (x AND NOT (mask k)) (k + m)"
      using bit_imp_le_length by (fastforce simp: bit_and_iff bit_not_iff bit_mask_iff)
    with * show False by simp
  qed
  then show "drop_bit k x = 0"
    by (auto simp: bit_eq_iff bit_drop_bit_eq)
qed

lemma drop_bit_xor_zero_iff:
  "drop_bit k (a :: 'a::len word) XOR drop_bit k n = 0 \<longleftrightarrow> a AND NOT (mask k) = n AND NOT (mask k)"
  by (metis drop_bit_xor drop_bit_zero_iff xor_mask_zero_iff)

text \<open>Membership compares the addresses with their host bits cleared.\<close>

lemma Contains_iff_mask:
  "Contains (Prefix n (Some bits)) a \<longleftrightarrow>
     Addr_BitLen n = Addr_BitLen a \<and> Addr_IsValid a \<and> Addr_Zone a = [] \<and>
     mask_addr a bits = mask_addr n bits"
  by (cases n; cases a) (auto simp: drop_bit_xor_zero_iff xor_mask_zero_iff)

lemma mask_addr_idem [simp]: "mask_addr (mask_addr a bits) bits = mask_addr a bits"
  by (cases a) (auto simp: bit_eq_iff bit_and_iff)

lemma mask_addr_BitLen [simp]: "Addr_BitLen (mask_addr a bits) = Addr_BitLen a"
  by (cases a) auto

lemma mask_addr_IsValid [simp]: "Addr_IsValid (mask_addr a bits) = Addr_IsValid a"
  by (cases a) auto

lemma mask_addr_withoutZone [simp]: "mask_addr (withoutZone a) bits = mask_addr a bits"
  by (cases a) auto

lemma withoutZone_simps [simp]:
  "Addr_BitLen (withoutZone a) = Addr_BitLen a"
  "Addr_IsValid (withoutZone a) = Addr_IsValid a"
  by (cases a; simp)+

text \<open>Clearing the host bits of a valid prefix does not change its members.\<close>

lemma Masked_Contains:
  assumes "Addr_IsValid n" and "bits \<le> Addr_BitLen n"
  shows "Contains (Masked (PrefixFrom n bits)) a = Contains (PrefixFrom n bits) a"
  using assms by (simp add: Masked_def PrefixFrom_def Contains_iff_mask)

end
