(* ===== verification/Authz_Config.thy ===== *)
theory Authz_Config
  imports Netip
begin

section \<open>Destination policies: \<open>egressauthz.Config\<close> and \<open>trafficpolicy.Compile\<close>\<close>

text \<open>
  The immutable policy snapshot a destination is judged against
  (\<open>extensions/epe/pkg/filters/egressauthz/config.go\<close> and \<open>policy.go\<close>) and its
  compilation from \<open>TrafficPolicy\<close> resources
  (\<open>extensions/epe/pkg/policy/trafficpolicy/convert.go\<close>).  Both are loops over ordered
  lists with early returns; they are written as recursive functions in the same order.
  The lemmas give the declarative meaning of a rule, the precedence of global denies, and
  the refinement of the \<open>TrafficPolicy\<close> semantics (first matching TCP rule in binding
  order) by the compiled configuration.
\<close>

subsection \<open>Data\<close>

abbreviation Allow :: string where "Allow \<equiv> ''Allow''"
abbreviation Deny :: string where "Deny \<equiv> ''Deny''"

record PortRange =
  range_Start :: "16 word"
  range_End :: "16 word"

record Rule =
  rule_SourceIndex :: "int option"
  rule_Action :: string
  rule_CIDRs :: "Prefix list"
  rule_Ports :: "PortRange list"

record Policy =
  policy_Name :: string
  policy_Rules :: "Rule list"

record Config =
  cfg_DeniedCIDRs :: "Prefix list"
  cfg_Policies :: "Policy list"

record Decision =
  dec_Action :: string
  dec_PolicyName :: string
  dec_RuleIndex :: int

datatype RuleError =
    InvalidAction string
  | CIDRsRequired
  | InvalidCIDR Prefix
  | InvalidPortRange "16 word" "16 word"

datatype ConfigError =
    InvalidDeniedCIDR Prefix
  | DuplicatePolicyName string
  | PolicyNameRequired
  | InvalidPolicyRule string nat RuleError

subsection \<open>Rules\<close>

definition range_last :: "PortRange \<Rightarrow> 16 word" where
  "range_last p = (if range_End p = 0 then range_Start p else range_End p)"

definition in_range :: "16 word \<Rightarrow> PortRange \<Rightarrow> bool" where
  "in_range port p \<longleftrightarrow> range_Start p \<le> port \<and> port \<le> range_last p"

fun matches_from :: "Prefix list \<Rightarrow> PortRange list \<Rightarrow> Addr \<Rightarrow> 16 word \<Rightarrow> bool" where
  "matches_from [] ports ip port = False"
| "matches_from (prefix # rest) ports ip port =
     (if \<not> Contains prefix ip then matches_from rest ports ip port
      else if ports = [] then True
      else list_ex (in_range port) ports)"

definition Rule_matches :: "Rule \<Rightarrow> Addr \<Rightarrow> 16 word \<Rightarrow> bool" where
  "Rule_matches r ip port = matches_from (rule_CIDRs r) (rule_Ports r) ip port"

definition cidr_ok :: "Prefix \<Rightarrow> bool" where
  "cidr_ok p \<longleftrightarrow> Prefix_IsValid p \<and> \<not> Addr_Is4In6 (pfx_Addr p)"

fun validate_ports :: "PortRange list \<Rightarrow> RuleError option" where
  "validate_ports [] = None"
| "validate_ports (p # ps) =
     (if range_Start p = 0 \<or> range_last p < range_Start p
      then Some (InvalidPortRange (range_Start p) (range_End p)) else validate_ports ps)"

fun validate_cidrs :: "Prefix list \<Rightarrow> RuleError option" where
  "validate_cidrs [] = None"
| "validate_cidrs (p # ps) = (if \<not> cidr_ok p then Some (InvalidCIDR p) else validate_cidrs ps)"

definition Rule_validate :: "Rule \<Rightarrow> RuleError option" where
  "Rule_validate r =
     (if rule_Action r \<noteq> Allow \<and> rule_Action r \<noteq> Deny then Some (InvalidAction (rule_Action r))
      else if rule_CIDRs r = [] then Some CIDRsRequired
      else case validate_cidrs (rule_CIDRs r) of
             Some e \<Rightarrow> Some e
           | None \<Rightarrow> validate_ports (rule_Ports r))"

subsection \<open>Policies and configurations\<close>

fun validate_rules :: "string \<Rightarrow> nat \<Rightarrow> Rule list \<Rightarrow> ConfigError option" where
  "validate_rules name i [] = None"
| "validate_rules name i (r # rs) =
     (case Rule_validate r of
        Some e \<Rightarrow> Some (InvalidPolicyRule name i e)
      | None \<Rightarrow> validate_rules name (Suc i) rs)"

definition Policy_Validate :: "Policy \<Rightarrow> ConfigError option" where
  "Policy_Validate p =
     (if TrimSpace (policy_Name p) = [] then Some PolicyNameRequired
      else validate_rules (policy_Name p) 0 (policy_Rules p))"

fun validate_denied :: "Prefix list \<Rightarrow> ConfigError option" where
  "validate_denied [] = None"
| "validate_denied (p # ps) =
     (if \<not> cidr_ok p then Some (InvalidDeniedCIDR p) else validate_denied ps)"

fun validate_policies :: "string list \<Rightarrow> Policy list \<Rightarrow> ConfigError option" where
  "validate_policies names [] = None"
| "validate_policies names (p # ps) =
     (if policy_Name p \<in> set names then Some (DuplicatePolicyName (policy_Name p))
      else case Policy_Validate p of
             Some e \<Rightarrow> Some e
           | None \<Rightarrow> validate_policies (policy_Name p # names) ps)"

definition Config_Validate :: "Config \<Rightarrow> ConfigError option" where
  "Config_Validate c =
     (case validate_denied (cfg_DeniedCIDRs c) of
        Some e \<Rightarrow> Some e
      | None \<Rightarrow> validate_policies [] (cfg_Policies c))"

definition unmatched :: Decision where
  "unmatched = \<lparr>dec_Action = Deny, dec_PolicyName = [], dec_RuleIndex = - 1\<rparr>"

definition global_deny_name :: string where
  "global_deny_name = ''EPEConfig/egressAuthorization''"

fun eval_denied :: "int \<Rightarrow> Prefix list \<Rightarrow> Addr \<Rightarrow> Decision option" where
  "eval_denied i [] ip = None"
| "eval_denied i (p # ps) ip =
     (if Contains p ip
      then Some \<lparr>dec_Action = Deny, dec_PolicyName = global_deny_name, dec_RuleIndex = i\<rparr>
      else eval_denied (i + 1) ps ip)"

fun eval_rules :: "string \<Rightarrow> int \<Rightarrow> Rule list \<Rightarrow> Addr \<Rightarrow> 16 word \<Rightarrow> Decision option" where
  "eval_rules name i [] ip port = None"
| "eval_rules name i (r # rs) ip port =
     (if Rule_matches r ip port
      then Some \<lparr>dec_Action = rule_Action r, dec_PolicyName = name,
                 dec_RuleIndex = (case rule_SourceIndex r of None \<Rightarrow> i | Some j \<Rightarrow> j)\<rparr>
      else eval_rules name (i + 1) rs ip port)"

fun eval_policies :: "Policy list \<Rightarrow> Addr \<Rightarrow> 16 word \<Rightarrow> Decision option" where
  "eval_policies [] ip port = None"
| "eval_policies (p # ps) ip port =
     (case eval_rules (policy_Name p) 0 (policy_Rules p) ip port of
        Some d \<Rightarrow> Some d
      | None \<Rightarrow> eval_policies ps ip port)"

definition Evaluate :: "Config \<Rightarrow> AddrPort \<Rightarrow> Decision" where
  "Evaluate c address =
     (if \<not> AddrPort_IsValid address \<or> ap_Port address = 0 \<or> Addr_Zone (ap_Addr address) \<noteq> []
      then unmatched
      else let ip = Unmap (ap_Addr address); port = ap_Port address in
        case eval_denied 0 (cfg_DeniedCIDRs c) ip of
          Some d \<Rightarrow> d
        | None \<Rightarrow>
            if cfg_Policies c = []
            then \<lparr>dec_Action = Allow, dec_PolicyName = [], dec_RuleIndex = - 1\<rparr>
            else case eval_policies (cfg_Policies c) ip port of
                   Some d \<Rightarrow> d
                 | None \<Rightarrow> unmatched)"

subsection \<open>Compilation of \<open>TrafficPolicy\<close> resources\<close>

record TPAddress =
  tpa_Address :: bytes
  tpa_Length :: "32 word"

record TPPortMatch =
  tpp_Protocol :: int
  tpp_Port :: "32 word option"
  tpp_EndPort :: "32 word option"

record TPMatch =
  tpm_DestinationIps :: "TPAddress option list"
  tpm_Ports :: "TPPortMatch option list"

record TPRule =
  tpr_Action :: int
  tpr_Match :: "TPMatch option"

record TrafficPolicy =
  tp_Egress :: "TPRule option list option"

record NamedPolicy =
  np_Name :: string
  np_Policy :: "TrafficPolicy option"

datatype CompileError =
    PolicyMissing string
  | MissingMatch string nat
  | InvalidRuleAction string nat int
  | NilAddress
  | InvalidAddressPrefix
  | NilPortMatch
  | UnknownProtocol int
  | InvalidTPPortRange "32 word" "32 word"
  | IcmpPorts
  | RuleDestinations string nat CompileError
  | RulePorts string nat CompileError
  | CompiledInvalid ConfigError

abbreviation TP_ALLOW :: int where "TP_ALLOW \<equiv> 0"
abbreviation TP_DENY :: int where "TP_DENY \<equiv> 1"
abbreviation TP_ALL :: int where "TP_ALL \<equiv> 0"
abbreviation TP_TCP :: int where "TP_TCP \<equiv> 1"
abbreviation TP_ICMP :: int where "TP_ICMP \<equiv> 3"

definition protocol_known :: "int \<Rightarrow> bool" where
  "protocol_known p \<longleftrightarrow> p \<in> {0, 1, 2, 3, 4}"

definition allIPs :: "Prefix list" where
  "allIPs = [Prefix (Addr4 0) (Some 0), Prefix (Addr6 0 []) (Some 0)]"

fun prefixes :: "TPAddress option list \<Rightarrow> CompileError + Prefix list" where
  "prefixes [] = Inr []"
| "prefixes (None # vs) = Inl NilAddress"
| "prefixes (Some v # vs) =
     (case AddrFromSlice (tpa_Address v) of
        None \<Rightarrow> Inl InvalidAddressPrefix
      | Some ip \<Rightarrow>
          if Addr_Is4In6 ip \<or> unat (tpa_Length v) > Addr_BitLen ip then Inl InvalidAddressPrefix
          else case prefixes vs of
                 Inl e \<Rightarrow> Inl e
               | Inr ps \<Rightarrow> Inr (Masked (PrefixFrom ip (unat (tpa_Length v))) # ps))"

definition port_start :: "TPPortMatch \<Rightarrow> 32 word" where
  "port_start p = (case tpp_Port p of None \<Rightarrow> 1 | Some s \<Rightarrow> s)"

definition port_end :: "TPPortMatch \<Rightarrow> 32 word" where
  "port_end p =
     (case tpp_EndPort p of
        Some e \<Rightarrow> e
      | None \<Rightarrow> (case tpp_Port p of None \<Rightarrow> 65535 | Some s \<Rightarrow> s))"

fun tcpPorts :: "TPPortMatch option list \<Rightarrow> CompileError + PortRange list" where
  "tcpPorts [] = Inr []"
| "tcpPorts (None # vs) = Inl NilPortMatch"
| "tcpPorts (Some p # vs) =
     (let start = port_start p; last = port_end p in
      if \<not> protocol_known (tpp_Protocol p) then Inl (UnknownProtocol (tpp_Protocol p))
      else if start = 0 \<or> last = 0 \<or> start > 65535 \<or> last > 65535 \<or> start > last
      then Inl (InvalidTPPortRange start last)
      else if tpp_Protocol p = TP_ICMP \<and> (tpp_Port p \<noteq> None \<or> tpp_EndPort p \<noteq> None)
      then Inl IcmpPorts
      else case tcpPorts vs of
             Inl e \<Rightarrow> Inl e
           | Inr rs \<Rightarrow>
               if tpp_Protocol p = TP_ALL \<or> tpp_Protocol p = TP_TCP
               then Inr (\<lparr>range_Start = ucast start, range_End = ucast last\<rparr> # rs)
               else Inr rs)"

text \<open>
  One iteration of the rule loop: an error, no rule (only non-TCP ports), or a rule.
\<close>

definition compile_rule :: "string \<Rightarrow> nat \<Rightarrow> TPRule option \<Rightarrow> CompileError + Rule option" where
  "compile_rule name i r =
     (case r of
        None \<Rightarrow> Inl (MissingMatch name i)
      | Some r \<Rightarrow>
        (case tpr_Match r of
           None \<Rightarrow> Inl (MissingMatch name i)
         | Some m \<Rightarrow>
           if tpr_Action r \<noteq> TP_ALLOW \<and> tpr_Action r \<noteq> TP_DENY
           then Inl (InvalidRuleAction name i (tpr_Action r))
           else case prefixes (tpm_DestinationIps m) of
             Inl e \<Rightarrow> Inl (RuleDestinations name i e)
           | Inr destinations \<Rightarrow>
             (case tcpPorts (tpm_Ports m) of
                Inl e \<Rightarrow> Inl (RulePorts name i e)
              | Inr ports \<Rightarrow>
                if tpm_Ports m \<noteq> [] \<and> ports = [] then Inr None
                else Inr (Some
                  \<lparr>rule_SourceIndex = Some (int i),
                   rule_Action = (if tpr_Action r = TP_DENY then Deny else Allow),
                   rule_CIDRs = (if destinations = [] then allIPs else destinations),
                   rule_Ports = ports\<rparr>))))"

fun compile_rules :: "string \<Rightarrow> nat \<Rightarrow> TPRule option list \<Rightarrow> CompileError + Rule list" where
  "compile_rules name i [] = Inr []"
| "compile_rules name i (r # rs) =
     (case compile_rule name i r of
        Inl e \<Rightarrow> Inl e
      | Inr out \<Rightarrow>
        (case compile_rules name (Suc i) rs of
           Inl e \<Rightarrow> Inl e
         | Inr rest \<Rightarrow> Inr (case out of None \<Rightarrow> rest | Some q \<Rightarrow> q # rest)))"

definition egress_rules :: "TrafficPolicy \<Rightarrow> TPRule option list" where
  "egress_rules p = (case tp_Egress p of None \<Rightarrow> [] | Some rs \<Rightarrow> rs)"

fun compile_policies :: "NamedPolicy list \<Rightarrow> CompileError + Policy list" where
  "compile_policies [] = Inr []"
| "compile_policies (p # ps) =
     (case np_Policy p of
        None \<Rightarrow> Inl (PolicyMissing (np_Name p))
      | Some tp \<Rightarrow>
        (case compile_rules (np_Name p) 0 (egress_rules tp) of
           Inl e \<Rightarrow> Inl e
         | Inr rules \<Rightarrow>
           (case compile_policies ps of
              Inl e \<Rightarrow> Inl e
            | Inr rest \<Rightarrow> Inr (\<lparr>policy_Name = np_Name p, policy_Rules = rules\<rparr> # rest))))"

definition Compile :: "NamedPolicy list \<Rightarrow> CompileError + Config" where
  "Compile ps =
     (case compile_policies ps of
        Inl e \<Rightarrow> Inl e
      | Inr policies \<Rightarrow>
          let cfg = \<lparr>cfg_DeniedCIDRs = [], cfg_Policies = policies\<rparr> in
          (case Config_Validate cfg of Some e \<Rightarrow> Inl (CompiledInvalid e) | None \<Rightarrow> Inr cfg))"

subsection \<open>Evaluation order\<close>

text \<open>The rules of a configuration in evaluation order, with the index a decision reports.\<close>

definition indexed_rules :: "Policy \<Rightarrow> (string \<times> int \<times> Rule) list" where
  "indexed_rules p = map (\<lambda>(i, r). (policy_Name p, int i, r)) (enumerate 0 (policy_Rules p))"

fun rule_decision :: "string \<times> int \<times> Rule \<Rightarrow> Decision" where
  "rule_decision (name, i, r) =
     \<lparr>dec_Action = rule_Action r, dec_PolicyName = name,
      dec_RuleIndex = (case rule_SourceIndex r of None \<Rightarrow> i | Some j \<Rightarrow> j)\<rparr>"

subsection \<open>The \<open>TrafficPolicy\<close> semantics\<close>

definition tp_in_network :: "TPAddress \<Rightarrow> Addr \<Rightarrow> bool" where
  "tp_in_network v ip =
     (case AddrFromSlice (tpa_Address v) of
        None \<Rightarrow> False
      | Some n \<Rightarrow> Addr_BitLen n = Addr_BitLen ip \<and>
                  mask_addr ip (unat (tpa_Length v)) = mask_addr n (unat (tpa_Length v)))"

definition tp_port_admits :: "TPPortMatch \<Rightarrow> nat \<Rightarrow> bool" where
  "tp_port_admits p port \<longleftrightarrow>
     tpp_Protocol p \<in> {TP_ALL, TP_TCP} \<and> unat (port_start p) \<le> port \<and> port \<le> unat (port_end p)"

definition tp_applies :: "TPRule \<Rightarrow> Addr \<Rightarrow> 16 word \<Rightarrow> bool" where
  "tp_applies r ip port =
     (case tpr_Match r of
        None \<Rightarrow> False
      | Some m \<Rightarrow>
         (tpm_DestinationIps m = [] \<or> (\<exists>v\<in>set (tpm_DestinationIps m). \<exists>a\<in>set_option v. tp_in_network a ip)) \<and>
         (tpm_Ports m = [] \<or> (\<exists>v\<in>set (tpm_Ports m). \<exists>p\<in>set_option v. tp_port_admits p (unat port))))"

definition tp_rules :: "NamedPolicy \<Rightarrow> (string \<times> int \<times> TPRule) list" where
  "tp_rules p =
     map (\<lambda>(i, r). (np_Name p, int i, the r)) (enumerate 0 (egress_rules (the (np_Policy p))))"

fun tp_decision :: "string \<times> int \<times> TPRule \<Rightarrow> Decision" where
  "tp_decision (name, i, r) =
     \<lparr>dec_Action = (if tpr_Action r = TP_DENY then Deny else Allow), dec_PolicyName = name,
      dec_RuleIndex = i\<rparr>"

text \<open>
  The decision the bound policies make for a TCP destination: none bound allows, otherwise
  the first rule in binding and declaration order that names the address and the port, and
  a denial when there is none.
\<close>

definition tp_decide :: "NamedPolicy list \<Rightarrow> Addr \<Rightarrow> 16 word \<Rightarrow> Decision" where
  "tp_decide ps ip port =
     (if ps = [] then \<lparr>dec_Action = Allow, dec_PolicyName = [], dec_RuleIndex = - 1\<rparr>
      else case find (\<lambda>(_, _, r). tp_applies r ip port) (concat (map tp_rules ps)) of
             None \<Rightarrow> unmatched
           | Some hit \<Rightarrow> tp_decision hit)"

subsection \<open>An example binding\<close>

definition ex_policies :: "NamedPolicy list" where
  "ex_policies =
     [\<lparr>np_Name = ''ns/web'', np_Policy = Some \<lparr>tp_Egress = Some
        [Some \<lparr>tpr_Action = TP_DENY, tpr_Match = Some
            \<lparr>tpm_DestinationIps = [], tpm_Ports = [Some \<lparr>tpp_Protocol = 2, tpp_Port = None, tpp_EndPort = None\<rparr>]\<rparr>\<rparr>,
         Some \<lparr>tpr_Action = TP_ALLOW, tpr_Match = Some
            \<lparr>tpm_DestinationIps = [Some \<lparr>tpa_Address = [CHR 0x0A, CHR 0x01, CHR 0x02, CHR 0x03], tpa_Length = 8\<rparr>],
             tpm_Ports = [Some \<lparr>tpp_Protocol = 1, tpp_Port = Some 443, tpp_EndPort = None\<rparr>]\<rparr>\<rparr>]\<rparr>\<rparr>]"


subsection \<open>Meaning of rules and configurations\<close>

lemma matches_from_iff:
  "matches_from cidrs ports ip port \<longleftrightarrow>
     (\<exists>p\<in>set cidrs. Contains p ip) \<and> (ports = [] \<or> (\<exists>r\<in>set ports. in_range port r))"
  by (induction cidrs) (auto simp: list_ex_iff)

lemma Rule_matches_iff:
  "Rule_matches r ip port \<longleftrightarrow>
     (\<exists>p\<in>set (rule_CIDRs r). Contains p ip) \<and>
     (rule_Ports r = [] \<or> (\<exists>q\<in>set (rule_Ports r). in_range port q))"
  by (simp add: Rule_matches_def matches_from_iff)

lemma eval_denied_None: "eval_denied i ps ip = None \<longleftrightarrow> (\<forall>p\<in>set ps. \<not> Contains p ip)"
  by (induction ps arbitrary: i) auto

lemma eval_denied_Some:
  "eval_denied i ps ip = Some d \<Longrightarrow> dec_Action d = Deny \<and> dec_PolicyName d = global_deny_name"
  by (induction ps arbitrary: i) (auto split: if_splits)

lemma validate_cidrs_None: "validate_cidrs ps = None \<longleftrightarrow> (\<forall>p\<in>set ps. cidr_ok p)"
  by (induction ps) auto

lemma validate_ports_None:
  "validate_ports ps = None \<longleftrightarrow>
     (\<forall>p\<in>set ps. range_Start p \<noteq> 0 \<and> range_Start p \<le> range_last p)"
  by (induction ps) (auto simp: not_less)

lemma Rule_validate_None:
  "Rule_validate r = None \<longleftrightarrow>
     rule_Action r \<in> {Allow, Deny} \<and> rule_CIDRs r \<noteq> [] \<and> (\<forall>p\<in>set (rule_CIDRs r). cidr_ok p) \<and>
     (\<forall>p\<in>set (rule_Ports r). range_Start p \<noteq> 0 \<and> range_Start p \<le> range_last p)"
  by (auto simp: Rule_validate_def validate_cidrs_None validate_ports_None split: option.splits)
     (metis validate_cidrs_None option.distinct(1))+

lemma validate_rules_None:
  "validate_rules name i rs = None \<longleftrightarrow> (\<forall>r\<in>set rs. Rule_validate r = None)"
  by (induction rs arbitrary: i) (auto split: option.splits)

lemma validate_denied_None: "validate_denied ps = None \<longleftrightarrow> (\<forall>p\<in>set ps. cidr_ok p)"
  by (induction ps) auto

lemma Policy_Validate_None:
  "Policy_Validate p = None \<longleftrightarrow>
     TrimSpace (policy_Name p) \<noteq> [] \<and> (\<forall>r\<in>set (policy_Rules p). Rule_validate r = None)"
  by (simp add: Policy_Validate_def validate_rules_None)

lemma validate_policies_None:
  "validate_policies names ps = None \<longleftrightarrow>
     distinct (map policy_Name ps) \<and> set names \<inter> policy_Name ` set ps = {} \<and>
     (\<forall>p\<in>set ps. Policy_Validate p = None)"
  by (induction ps arbitrary: names) (auto split: option.splits)

lemma Config_Validate_None:
  "Config_Validate c = None \<longleftrightarrow>
     (\<forall>p\<in>set (cfg_DeniedCIDRs c). cidr_ok p) \<and>
     distinct (map policy_Name (cfg_Policies c)) \<and>
     (\<forall>p\<in>set (cfg_Policies c). Policy_Validate p = None)"
  by (auto simp: Config_Validate_def validate_denied_None validate_policies_None split: option.splits)
     (metis validate_denied_None option.distinct(1))+

lemma eval_rules_find:
  "eval_rules name (int k) rs ip port =
     map_option rule_decision
       (find (\<lambda>(_, _, r). Rule_matches r ip port) (map (\<lambda>(i, r). (name, int i, r)) (enumerate k rs)))"
proof (induction rs arbitrary: k)
  case (Cons r rs)
  from Cons [of "Suc k"] show ?case
    by (simp add: add.commute)
qed simp

lemma eval_policies_find:
  "eval_policies ps ip port =
     map_option rule_decision
       (find (\<lambda>(_, _, r). Rule_matches r ip port) (concat (map indexed_rules ps)))"
proof (induction ps)
  case (Cons p ps)
  have "eval_rules (policy_Name p) 0 (policy_Rules p) ip port =
      map_option rule_decision (find (\<lambda>(_, _, r). Rule_matches r ip port) (indexed_rules p))"
    using eval_rules_find [of "policy_Name p" 0] by (simp add: indexed_rules_def)
  with Cons show ?case
    by (simp add: find_append split: option.splits)
qed simp

subsection \<open>Refinement\<close>

lemma AddrFromSlice_valid: "AddrFromSlice bs = Some ip \<Longrightarrow> Addr_IsValid ip \<and> Addr_Zone ip = []"
  by (auto simp: AddrFromSlice_def split: if_splits)

lemma prefixes_ConsE:
  assumes "prefixes (v # vs) = Inr ps"
  obtains a n rest where "v = Some a" and "AddrFromSlice (tpa_Address a) = Some n"
    and "\<not> Addr_Is4In6 n" and "unat (tpa_Length a) \<le> Addr_BitLen n"
    and "prefixes vs = Inr rest" and "ps = Masked (PrefixFrom n (unat (tpa_Length a))) # rest"
  using assms by (cases v) (auto simp: not_less split: option.splits if_splits sum.splits)

lemma tcpPorts_ConsE:
  assumes "tcpPorts (v # vs) = Inr rs"
  obtains p rest where "v = Some p" and "tcpPorts vs = Inr rest"
    and "port_start p \<noteq> 0" and "port_end p \<noteq> 0"
    and "port_start p \<le> 65535" and "port_end p \<le> 65535" and "port_start p \<le> port_end p"
    and "rs = (if tpp_Protocol p \<in> {TP_ALL, TP_TCP}
                then \<lparr>range_Start = ucast (port_start p), range_End = ucast (port_end p)\<rparr> # rest
                else rest)"
  using assms by (cases v) (auto simp: Let_def not_less split: if_splits sum.splits)

lemma prefixes_Contains:
  assumes "prefixes vs = Inr ps" and "Addr_IsValid ip" and "Addr_Zone ip = []"
  shows "(\<exists>p\<in>set ps. Contains p ip) \<longleftrightarrow> (\<exists>v\<in>set vs. \<exists>a\<in>set_option v. tp_in_network a ip)"
  using assms
proof (induction vs arbitrary: ps)
  case (Cons v vs)
  from Cons.prems(1) obtain a n rest where v: "v = Some a"
    and n: "AddrFromSlice (tpa_Address a) = Some n" and len: "unat (tpa_Length a) \<le> Addr_BitLen n"
    and rest: "prefixes vs = Inr rest" and ps: "ps = Masked (PrefixFrom n (unat (tpa_Length a))) # rest"
    by (rule prefixes_ConsE)
  have "Addr_IsValid n"
    using AddrFromSlice_valid [OF n] by simp
  then have "Contains (Masked (PrefixFrom n (unat (tpa_Length a)))) ip = tp_in_network a ip"
    using len n Cons.prems
    by (simp add: Masked_Contains) (simp add: PrefixFrom_def Contains_iff_mask tp_in_network_def)
  with Cons.IH [OF rest Cons.prems(2,3)] show ?case
    by (auto simp: v ps)
qed simp

lemma prefixes_Nil: "prefixes vs = Inr ps \<Longrightarrow> ps = [] \<longleftrightarrow> vs = []"
  by (cases vs rule: prefixes.cases) (auto split: option.splits if_splits sum.splits)

lemma unat_ucast16: "w \<le> 65535 \<Longrightarrow> unat (ucast w :: 16 word) = unat (w :: 32 word)"
  by (simp add: unsigned_ucast_eq take_bit_nat_eq_self_iff word_le_nat_alt)

lemma in_range_ucast:
  assumes "start \<noteq> (0 :: 32 word)" "e \<noteq> (0 :: 32 word)" "start \<le> 65535" "e \<le> 65535"
  shows "in_range port \<lparr>range_Start = ucast start, range_End = ucast e\<rparr> \<longleftrightarrow>
     unat start \<le> unat port \<and> unat port \<le> unat e"
proof -
  note * = unat_ucast16
  have "ucast e \<noteq> (0 :: 16 word)"
    using * [of e] assms by (metis unat_0 unat_eq_zero)
  with assms show ?thesis
    by (simp add: in_range_def range_last_def word_le_nat_alt *)
qed

lemma tcpPorts_in_range:
  "tcpPorts vs = Inr rs \<Longrightarrow>
     (\<exists>r\<in>set rs. in_range port r) \<longleftrightarrow> (\<exists>v\<in>set vs. \<exists>p\<in>set_option v. tp_port_admits p (unat port))"
proof (induction vs arbitrary: rs)
  case (Cons v vs)
  from Cons.prems obtain p rest where v: "v = Some p" and rest: "tcpPorts vs = Inr rest"
    and ok: "port_start p \<noteq> 0" "port_end p \<noteq> 0" "port_start p \<le> 65535" "port_end p \<le> 65535"
    and rs: "rs = (if tpp_Protocol p \<in> {TP_ALL, TP_TCP}
                   then \<lparr>range_Start = ucast (port_start p), range_End = ucast (port_end p)\<rparr> # rest
                   else rest)"
    by (rule tcpPorts_ConsE)
  from Cons.IH [OF rest] show ?case
    using in_range_ucast [OF ok, of port]
    by (auto simp: v rs tp_port_admits_def)
qed simp

lemma allIPs_Contains:
  assumes "Addr_IsValid ip" and "Addr_Zone ip = []"
  shows "\<exists>p\<in>set allIPs. Contains p ip"
proof -
  have "NOT (mask 128) = (0 :: 128 word)"
    by (rule bit_word_eqI) (simp add: bit_not_iff bit_mask_iff)
  moreover have "drop_bit 32 w = 0" for w :: "32 word"
    by (rule bit_word_eqI) (auto simp: bit_drop_bit_eq dest: bit_imp_le_length)
  ultimately show ?thesis
    using assms by (cases ip) (simp_all add: allIPs_def)
qed

lemma compile_rule_Some:
  assumes "compile_rule name i r = Inr out" and "Addr_IsValid ip" and "Addr_Zone ip = []"
  obtains tr where "r = Some tr"
    and "\<And>q. out = Some q \<Longrightarrow> Rule_matches q ip port = tp_applies tr ip port"
    and "\<And>q. out = Some q \<Longrightarrow> rule_decision (name, j, q) = tp_decision (name, int i, tr)"
    and "out = None \<Longrightarrow> \<not> tp_applies tr ip port"
proof -
  from assms(1) obtain tr m ds ports where r: "r = Some tr" and m: "tpr_Match tr = Some m"
    and ds: "prefixes (tpm_DestinationIps m) = Inr ds" and ports: "tcpPorts (tpm_Ports m) = Inr ports"
    by (auto simp: compile_rule_def split: option.splits if_splits sum.splits)
  have all: "\<exists>p\<in>set allIPs. Contains p ip"
    using assms(2,3) by (rule allIPs_Contains)
  note * = prefixes_Contains [OF ds assms(2,3)] prefixes_Nil [OF ds] tcpPorts_in_range [OF ports]
  have noports: "tpm_Ports m = [] \<Longrightarrow> ports = []"
    using ports by auto
  show ?thesis
  proof (rule that [OF r])
    fix q assume "out = Some q"
    with assms(1) r m ds ports
    have q: "q = \<lparr>rule_SourceIndex = Some (int i),
        rule_Action = (if tpr_Action tr = TP_DENY then Deny else Allow),
        rule_CIDRs = (if ds = [] then allIPs else ds), rule_Ports = ports\<rparr>"
      and "tpm_Ports m = [] \<or> ports \<noteq> []"
      by (auto simp: compile_rule_def split: if_splits)
    then show "Rule_matches q ip port = tp_applies tr ip port"
      using * all m noports by (auto simp: Rule_matches_iff tp_applies_def)
    show "rule_decision (name, j, q) = tp_decision (name, int i, tr)"
      by (simp add: q)
  next
    assume "out = None"
    with assms(1) r m ds ports have "tpm_Ports m \<noteq> []" "ports = []"
      by (auto simp: compile_rule_def split: if_splits)
    then show "\<not> tp_applies tr ip port"
      using * m by (auto simp: tp_applies_def)
  qed
qed

lemma compile_rules_refines:
  assumes "compile_rules name i rs = Inr qs" and "Addr_IsValid ip" and "Addr_Zone ip = []"
  shows "eval_rules name j qs ip port =
     map_option tp_decision
       (find (\<lambda>(_, _, r). tp_applies r ip port) (map (\<lambda>(i, r). (name, int i, the r)) (enumerate i rs)))"
  using assms(1)
proof (induction rs arbitrary: i j qs)
  case (Cons r rs)
  then obtain out rest where out: "compile_rule name i r = Inr out"
    and rest: "compile_rules name (Suc i) rs = Inr rest"
    and qs: "qs = (case out of None \<Rightarrow> rest | Some q \<Rightarrow> q # rest)"
    by (auto split: sum.splits)
  obtain tr where tr: "r = Some tr"
    "\<And>q. out = Some q \<Longrightarrow> Rule_matches q ip port = tp_applies tr ip port"
    "\<And>q. out = Some q \<Longrightarrow> rule_decision (name, j, q) = tp_decision (name, int i, tr)"
    "out = None \<Longrightarrow> \<not> tp_applies tr ip port"
    using compile_rule_Some [OF out assms(2,3)] by metis
  show ?case
  proof (cases out)
    case None
    with tr qs Cons.IH [OF rest] show ?thesis by simp
  next
    case (Some q)
    with tr(1-3) qs Cons.IH [OF rest] show ?thesis by simp
  qed
qed simp

lemma compile_policies_refines:
  assumes "compile_policies ps = Inr cs" and "Addr_IsValid ip" and "Addr_Zone ip = []"
  shows "eval_policies cs ip port =
     map_option tp_decision (find (\<lambda>(_, _, r). tp_applies r ip port) (concat (map tp_rules ps)))"
  using assms(1)
proof (induction ps arbitrary: cs)
  case (Cons p ps)
  then obtain tp rules rest where tp: "np_Policy p = Some tp"
    and rules: "compile_rules (np_Name p) 0 (egress_rules tp) = Inr rules"
    and rest: "compile_policies ps = Inr rest"
    and cs: "cs = \<lparr>policy_Name = np_Name p, policy_Rules = rules\<rparr> # rest"
    by (auto split: option.splits sum.splits)
  have "eval_rules (np_Name p) 0 rules ip port =
      map_option tp_decision (find (\<lambda>(_, _, r). tp_applies r ip port) (tp_rules p))"
    using compile_rules_refines [OF rules assms(2,3)] tp by (simp add: tp_rules_def)
  with Cons.IH [OF rest] show ?case
    by (simp add: cs find_append split: option.splits)
qed simp

lemma compile_policies_Nil: "compile_policies ps = Inr cs \<Longrightarrow> cs = [] \<longleftrightarrow> ps = []"
  by (cases ps) (auto split: option.splits sum.splits)

text \<open>
  C2: compiling the \<open>TrafficPolicy\<close> resources bound to a workload preserves their meaning.
  For every destination that is a valid address with a port and no zone, the compiled
  configuration decides exactly what the first applicable TCP rule in binding and
  declaration order decides, names that policy, and reports the rule's index in the
  resource although rules for other protocols were dropped; no match denies, no policy allows.
\<close>

theorem Compile_refines:
  assumes "Compile ps = Inr cfg"
    and "AddrPort_IsValid a" and "ap_Port a \<noteq> 0" and "Addr_Zone (ap_Addr a) = []"
  shows "Evaluate cfg a = tp_decide ps (Unmap (ap_Addr a)) (ap_Port a)"
proof -
  from assms(1) obtain cs where cs: "compile_policies ps = Inr cs"
    and cfg: "cfg = \<lparr>cfg_DeniedCIDRs = [], cfg_Policies = cs\<rparr>"
    by (auto simp: Compile_def Let_def split: sum.splits option.splits)
  have ip: "Addr_IsValid (Unmap (ap_Addr a))" "Addr_Zone (Unmap (ap_Addr a)) = []"
    using assms(2,4) by (cases "ap_Addr a"; simp add: AddrPort_IsValid_def)+
  show ?thesis
    using assms(2-4) compile_policies_refines [OF cs ip] compile_policies_Nil [OF cs]
    by (auto simp: Evaluate_def cfg tp_decide_def Let_def split: option.splits)
qed

text \<open>Clearing host bits never produces an IPv4-mapped address.\<close>

lemma mask_addr_not_4In6:
  assumes "\<not> Addr_Is4In6 ip" and "bits \<le> Addr_BitLen ip"
  shows "\<not> Addr_Is4In6 (mask_addr ip bits)"
proof (cases ip)
  case (Addr6 w z)
  have "drop_bit 32 w = 0xffff" if *: "drop_bit 32 (w AND NOT (mask (128 - bits))) = 0xffff"
  proof -
    have "bit (drop_bit 32 (w AND NOT (mask (128 - bits)))) 0"
      unfolding * by simp
    then have "128 - bits \<le> 32"
      by (simp add: bit_drop_bit_eq bit_and_iff bit_not_iff bit_mask_iff)
    then have "drop_bit 32 (w AND NOT (mask (128 - bits))) = drop_bit 32 w"
      by (intro bit_word_eqI)
         (auto simp: bit_drop_bit_eq bit_and_iff bit_not_iff bit_mask_iff dest: bit_imp_le_length)
    with * show ?thesis by simp
  qed
  with Addr6 assms(1) show ?thesis by auto
qed simp_all

lemma prefixes_ok: "prefixes vs = Inr ps \<Longrightarrow> \<forall>p\<in>set ps. cidr_ok p"
proof (induction vs arbitrary: ps)
  case (Cons v vs)
  from Cons.prems obtain a n rest where "v = Some a"
    and n: "AddrFromSlice (tpa_Address a) = Some n"
    and ok: "\<not> Addr_Is4In6 n" "unat (tpa_Length a) \<le> Addr_BitLen n"
    and rest: "prefixes vs = Inr rest" and ps: "ps = Masked (PrefixFrom n (unat (tpa_Length a))) # rest"
    by (rule prefixes_ConsE)
  let ?m = "mask_addr n (unat (tpa_Length a))"
  have "withoutZone ?m = ?m"
    by (cases n) auto
  with ok AddrFromSlice_valid [OF n] have "cidr_ok (Masked (PrefixFrom n (unat (tpa_Length a))))"
    by (simp add: cidr_ok_def Masked_def PrefixFrom_def Prefix_IsValid_def mask_addr_not_4In6)
  with Cons.IH [OF rest] show ?case
    by (simp add: ps)
qed simp

lemma tcpPorts_ok:
  "tcpPorts vs = Inr rs \<Longrightarrow> \<forall>p\<in>set rs. range_Start p \<noteq> 0 \<and> range_Start p \<le> range_last p"
proof (induction vs arbitrary: rs)
  case (Cons v vs)
  from Cons.prems obtain p rest where "v = Some p" and rest: "tcpPorts vs = Inr rest"
    and ok: "port_start p \<noteq> 0" "port_end p \<noteq> 0" "port_start p \<le> 65535" "port_end p \<le> 65535"
      "port_start p \<le> port_end p"
    and rs: "rs = (if tpp_Protocol p \<in> {TP_ALL, TP_TCP}
                   then \<lparr>range_Start = ucast (port_start p), range_End = ucast (port_end p)\<rparr> # rest
                   else rest)"
    by (rule tcpPorts_ConsE)
  have "unat (ucast (port_start p) :: 16 word) = unat (port_start p)"
    "unat (ucast (port_end p) :: 16 word) = unat (port_end p)"
    using ok by (simp_all add: unat_ucast16)
  with ok have "(ucast (port_start p) :: 16 word) \<noteq> 0 \<and> (ucast (port_end p) :: 16 word) \<noteq> 0 \<and>
      (ucast (port_start p) :: 16 word) \<le> ucast (port_end p)"
    by (metis unat_0 unat_eq_zero word_le_nat_alt)
  with Cons.IH [OF rest] rs show ?case
    by (auto simp: range_last_def)
qed simp

lemma compile_rule_ok: "compile_rule name i r = Inr (Some q) \<Longrightarrow> Rule_validate q = None"
  using prefixes_ok tcpPorts_ok
  by (fastforce simp: compile_rule_def Rule_validate_None allIPs_def cidr_ok_def Prefix_IsValid_def
      split: option.splits if_splits sum.splits)

lemma compile_rules_ok: "compile_rules name i rs = Inr qs \<Longrightarrow> \<forall>q\<in>set qs. Rule_validate q = None"
  by (induction rs arbitrary: i qs)
     (fastforce dest: compile_rule_ok split: sum.splits option.splits)+

lemma compile_policies_ok:
  "compile_policies ps = Inr cs \<Longrightarrow>
     map policy_Name cs = map np_Name ps \<and>
     (\<forall>c\<in>set cs. \<forall>q\<in>set (policy_Rules c). Rule_validate q = None)"
  by (induction ps arbitrary: cs) (auto dest!: compile_rules_ok split: option.splits sum.splits)

text \<open>
  C13: writing an IPv4 destination as an IPv4-mapped IPv6 address cannot evade a decision:
  both spellings are evaluated alike under every configuration.
\<close>

theorem Evaluate_mapped:
  "Evaluate c (AddrPort (Addr6 (0xffff00000000 OR ucast w) []) port) = Evaluate c (AddrPort (Addr4 w) port)"
  for w :: "32 word"
proof -
  have pushed: "(0xffff00000000 :: 128 word) = push_bit 32 0xffff"
    by simp
  have "drop_bit 32 (ucast w :: 128 word) = 0"
    by (rule bit_word_eqI) (auto simp: bit_drop_bit_eq bit_ucast_iff dest: bit_imp_le_length)
  then have 1: "drop_bit 32 (0xffff00000000 OR ucast w :: 128 word) = 0xffff"
    by simp
  have 2: "ucast (0xffff00000000 OR ucast w :: 128 word) = w"
    unfolding pushed
    by (rule bit_word_eqI) (simp del: push_bit_numeral add: bit_ucast_iff bit_or_iff bit_push_bit_iff)
  show ?thesis
    using 1 2 by (simp add: Evaluate_def AddrPort_IsValid_def)
qed


text \<open>
  C11: the global denied networks take precedence over every policy and change nothing else:
  a destination inside one of them (after unmapping) is denied, and every other destination
  gets the action the policies alone give it.
\<close>

theorem Evaluate_denied_overlay:
  assumes "AddrPort_IsValid a" and "ap_Port a \<noteq> 0" and "Addr_Zone (ap_Addr a) = []"
  shows "dec_Action (Evaluate c a) =
     (if \<exists>p\<in>set (cfg_DeniedCIDRs c). Contains p (Unmap (ap_Addr a)) then Deny
      else dec_Action (Evaluate (c\<lparr>cfg_DeniedCIDRs := []\<rparr>) a))"
  using assms eval_denied_None [of 0 "cfg_DeniedCIDRs c" "Unmap (ap_Addr a)"]
  by (auto simp: Evaluate_def Let_def dest: eval_denied_Some split: option.splits)

text \<open>
  C12: once every policy was translated, compilation is rejected only for its names: the
  networks and port ranges it produces always pass \<open>Config.Validate\<close>, so a configuration
  is published exactly when the policy names are distinct and not blank.
\<close>

theorem Compile_accepts_iff:
  assumes "compile_policies ps = Inr cs"
  shows "(\<exists>cfg. Compile ps = Inr cfg) \<longleftrightarrow>
     distinct (map np_Name ps) \<and> (\<forall>p\<in>set ps. TrimSpace (np_Name p) \<noteq> [])"
proof -
  note ok = compile_policies_ok [OF assms]
  have names: "set (map policy_Name cs) = set (map np_Name ps)"
    using conjunct1 [OF ok] by (rule arg_cong)
  have "Config_Validate \<lparr>cfg_DeniedCIDRs = [], cfg_Policies = cs\<rparr> = None \<longleftrightarrow>
      distinct (map policy_Name cs) \<and> (\<forall>n\<in>set (map policy_Name cs). TrimSpace n \<noteq> [])"
    using conjunct2 [OF ok] by (auto simp: Config_Validate_None Policy_Validate_None)
  also have "\<dots> \<longleftrightarrow> distinct (map np_Name ps) \<and> (\<forall>p\<in>set ps. TrimSpace (np_Name p) \<noteq> [])"
    unfolding names using conjunct1 [OF ok] by simp
  finally show ?thesis
    using assms by (auto simp: Compile_def Let_def split: option.splits)
qed

theorem Compile_refines_witness:
  "\<exists>cfg. Compile ex_policies = Inr cfg \<and>
     Evaluate cfg (AddrPort (Addr4 0x0A090807) 443) =
       \<lparr>dec_Action = Allow, dec_PolicyName = ''ns/web'', dec_RuleIndex = 1\<rparr>"
proof -
  have "case Compile ex_policies of Inl _ \<Rightarrow> False | Inr _ \<Rightarrow> True"
    by code_simp
  then obtain cfg where cfg: "Compile ex_policies = Inr cfg"
    by (auto split: sum.splits)
  have "AddrPort_IsValid (AddrPort (Addr4 0x0A090807) 443)" "ap_Port (AddrPort (Addr4 0x0A090807) 443) \<noteq> 0"
    "Addr_Zone (ap_Addr (AddrPort (Addr4 0x0A090807) 443)) = []"
    by (simp_all add: AddrPort_IsValid_def)
  note Compile_refines [OF cfg this]
  also have "tp_decide ex_policies (Unmap (ap_Addr (AddrPort (Addr4 0x0A090807) 443)))
      (ap_Port (AddrPort (Addr4 0x0A090807) 443)) =
      \<lparr>dec_Action = Allow, dec_PolicyName = ''ns/web'', dec_RuleIndex = 1\<rparr>"
    by code_simp
  finally show ?thesis
    using cfg by blast
qed

theorem Evaluate_denied_overlay_witness:
  "dec_Action (Evaluate \<lparr>cfg_DeniedCIDRs = [Prefix (Addr4 0x0A000000) (Some 8)], cfg_Policies = []\<rparr>
     (AddrPort (Addr6 0xffff0A010203 []) 443)) = Deny"
proof -
  let ?c = "\<lparr>cfg_DeniedCIDRs = [Prefix (Addr4 0x0A000000) (Some 8)], cfg_Policies = []\<rparr>"
  let ?a = "AddrPort (Addr6 0xffff0A010203 []) 443"
  have "list_ex (\<lambda>p. Contains p (Unmap (ap_Addr ?a))) (cfg_DeniedCIDRs ?c)"
    by code_simp
  then show ?thesis
    using Evaluate_denied_overlay [of ?a ?c] by (simp add: AddrPort_IsValid_def list_ex_iff)
qed

theorem Compile_accepts_iff_witness:
  "\<exists>cfg. Compile ex_policies = Inr cfg"
proof -
  have "case compile_policies ex_policies of Inl _ \<Rightarrow> False | Inr _ \<Rightarrow> True"
    by code_simp
  then obtain cs where cs: "compile_policies ex_policies = Inr cs"
    by (auto split: sum.splits)
  have "distinct (map np_Name ex_policies)"  "list_all (\<lambda>p. TrimSpace (np_Name p) \<noteq> []) ex_policies"
    by code_simp+
  then show ?thesis
    using Compile_accepts_iff [OF cs] by (simp add: list_all_iff)
qed

end
