(* ===== verification/Request_Context.thy ===== *)
theory Request_Context
  imports Netip
begin

section \<open>The request tuple, the caller and the expression scope\<close>

text \<open>
  The neutral request data every other part shares: \<open>httpreq.HTTPRequest\<close> and
  \<open>HTTPResponse\<close>, the caller identity of \<open>pkg/subject\<close>, and the read-only evaluation
  scope of \<open>pkg/inputs\<close> that CEL and template expressions see.  Go maps that are only
  read by key are partial functions; a nil map reads like an empty one.  The memo cell of a
  scope is left out: it holds a value determined by the other fields.
\<close>

subsection \<open>Requests, responses and bodies\<close>

record HTTPRequest =
  req_Host :: string
  req_Port :: "32 word"
  req_OriginalDestination :: AddrPort
  req_Path :: string
  req_Query :: "string \<rightharpoonup> string list"
  req_RawQuery :: string
  req_Method :: string
  req_Scheme :: string
  req_Headers :: "string \<rightharpoonup> string"

record HTTPResponse =
  resp_Status :: int
  resp_Headers :: "string \<rightharpoonup> string"

record Body =
  body_Bytes :: bytes
  body_Complete :: bool

definition HTTPRequestZero :: HTTPRequest where
  "HTTPRequestZero =
     \<lparr>req_Host = [], req_Port = 0, req_OriginalDestination = AddrPortZero, req_Path = [],
      req_Query = Map.empty, req_RawQuery = [], req_Method = [], req_Scheme = [],
      req_Headers = Map.empty\<rparr>"

definition HTTPResponseZero :: HTTPResponse where
  "HTTPResponseZero = \<lparr>resp_Status = 0, resp_Headers = Map.empty\<rparr>"

subsection \<open>Caller identity\<close>

record Workload =
  wl_UID :: string
  wl_Namespace :: string
  wl_Name :: string
  wl_IP :: string
  wl_Labels :: "string \<rightharpoonup> string"
  wl_SecurityProfileReferences :: "string list option"

record Sandbox =
  sandbox_UID :: string

record Subject =
  subj_Workload :: Workload
  subj_Sandbox :: "Sandbox option"

definition WorkloadZero :: Workload where
  "WorkloadZero =
     \<lparr>wl_UID = [], wl_Namespace = [], wl_Name = [], wl_IP = [], wl_Labels = Map.empty,
      wl_SecurityProfileReferences = None\<rparr>"

definition SubjectZero :: Subject where
  "SubjectZero = \<lparr>subj_Workload = WorkloadZero, subj_Sandbox = None\<rparr>"

definition Workload_HasIdentity :: "Workload \<Rightarrow> bool" where
  "Workload_HasIdentity w \<longleftrightarrow> wl_UID w \<noteq> [] \<or> (wl_Namespace w \<noteq> [] \<and> wl_Name w \<noteq> [])"

definition Subject_HasIdentity :: "Subject \<Rightarrow> bool" where
  "Subject_HasIdentity s \<longleftrightarrow>
     Workload_HasIdentity (subj_Workload s) \<or>
     (case subj_Sandbox s of None \<Rightarrow> False | Some b \<Rightarrow> sandbox_UID b \<noteq> [])"

definition Workload_String :: "Workload \<Rightarrow> string" where
  "Workload_String w =
     (if wl_UID w \<noteq> [] then wl_UID w
      else if wl_Namespace w = [] \<and> wl_Name w = [] then []
      else wl_Namespace w @ ''/'' @ wl_Name w)"

definition Sandbox_String :: "Sandbox option \<Rightarrow> string" where
  "Sandbox_String s = (case s of None \<Rightarrow> [] | Some b \<Rightarrow> sandbox_UID b)"

subsection \<open>The evaluation scope\<close>

text \<open>Values of Go's \<open>any\<close> as JSON decoding produces them; a number keeps its literal.\<close>

datatype Any =
    AnyNil
  | AnyBool bool
  | AnyNumber string
  | AnyString string
  | AnyList "Any list"
  | AnyMap "(string \<times> Any) list"

record inputs_Workload =
  iw_Name :: string
  iw_Namespace :: string
  iw_IP :: string
  iw_Labels :: "string \<rightharpoonup> string"

record inputs_Request =
  ir_Host :: string
  ir_Port :: "32 word"
  ir_Path :: string
  ir_Scheme :: string
  ir_Method :: string
  ir_Query :: "string \<rightharpoonup> string list"
  ir_headers :: "string \<rightharpoonup> string"

record inputs_Profile =
  ip_Name :: string
  ip_Namespace :: string

record Scope =
  sc_request :: inputs_Request
  sc_workload :: inputs_Workload
  sc_profile :: inputs_Profile
  sc_rule_Name :: string
  sc_inputs :: "string \<rightharpoonup> Any"
  sc_inputsErr :: string

definition WorkloadFromSubject :: "Subject \<Rightarrow> inputs_Workload" where
  "WorkloadFromSubject s =
     (let w = subj_Workload s in
      \<lparr>iw_Name = wl_Name w, iw_Namespace = wl_Namespace w, iw_IP = wl_IP w, iw_Labels = wl_Labels w\<rparr>)"

definition Label :: "inputs_Workload \<Rightarrow> string \<Rightarrow> string" where
  "Label p key = (case iw_Labels p key of None \<Rightarrow> [] | Some v \<Rightarrow> v)"

definition RequestFrom :: "HTTPRequest \<Rightarrow> inputs_Request" where
  "RequestFrom r =
     \<lparr>ir_Host = req_Host r, ir_Port = req_Port r, ir_Path = req_Path r, ir_Scheme = req_Scheme r,
      ir_Method = req_Method r, ir_Query = req_Query r, ir_headers = req_Headers r\<rparr>"

definition Header :: "inputs_Request \<Rightarrow> string \<Rightarrow> string" where
  "Header r name = (case ir_headers r (ToLower name) of None \<Rightarrow> [] | Some v \<Rightarrow> v)"

definition QueryParam :: "inputs_Request \<Rightarrow> string \<Rightarrow> string" where
  "QueryParam r name = (case ir_Query r name of Some (v # _) \<Rightarrow> v | _ \<Rightarrow> [])"

type_synonym ScopeOption = "Scope \<Rightarrow> Scope"

definition WithInputsError :: "string \<Rightarrow> ScopeOption" where
  "WithInputsError msg s = s\<lparr>sc_inputsErr := msg\<rparr>"

definition NewScope ::
  "inputs_Request \<Rightarrow> inputs_Workload \<Rightarrow> inputs_Profile \<Rightarrow> string \<Rightarrow> (string \<rightharpoonup> Any) \<Rightarrow> ScopeOption list \<Rightarrow> Scope"
where
  "NewScope req workload profile rule_name inps opts =
     fold (\<lambda>opt. opt) opts
       \<lparr>sc_request = req, sc_workload = workload, sc_profile = profile, sc_rule_Name = rule_name,
        sc_inputs = inps, sc_inputsErr = []\<rparr>"

text \<open>Reading the declared inputs: an error when they could not be resolved.\<close>

definition Inputs :: "Scope \<Rightarrow> string + (string \<rightharpoonup> Any)" where
  "Inputs s =
     (if sc_inputsErr s \<noteq> [] then Inl (''profile inputs unavailable: '' @ sc_inputsErr s)
      else Inr (sc_inputs s))"

text \<open>
  The variables of the CEL activation.  The slot of the declared inputs holds an error value
  when they are unavailable, so that no read of them sees an absent key.
\<close>

datatype BagValue =
    BagString string
  | BagInt int
  | BagStrings "string \<rightharpoonup> string"
  | BagInputs "string \<rightharpoonup> Any"
  | BagError string

definition buildBag :: "Scope \<Rightarrow> string \<Rightarrow> string \<Rightarrow> BagValue option" where
  "buildBag s var field =
     (let r = sc_request s; w = sc_workload s; p = sc_profile s in
      if var = ''request'' then
        (if field = ''host'' then Some (BagString (ir_Host r))
         else if field = ''port'' then Some (BagInt (sint (ir_Port r)))
         else if field = ''path'' then Some (BagString (ir_Path r))
         else if field = ''method'' then Some (BagString (ir_Method r))
         else if field = ''scheme'' then Some (BagString (ir_Scheme r))
         else if field = ''headers'' then Some (BagStrings (ir_headers r))
         else if field = ''queryParams'' then
           Some (BagStrings (\<lambda>k. case ir_Query r k of Some (v # _) \<Rightarrow> Some v | _ \<Rightarrow> None))
         else None)
      else if var = ''pod'' then
        (if field = ''name'' then Some (BagString (iw_Name w))
         else if field = ''namespace'' then Some (BagString (iw_Namespace w))
         else if field = ''ip'' then Some (BagString (iw_IP w))
         else if field = ''labels'' then Some (BagStrings (iw_Labels w))
         else None)
      else if var = ''profile'' then
        (if field = ''name'' then Some (BagString (ip_Name p))
         else if field = ''namespace'' then Some (BagString (ip_Namespace p))
         else None)
      else if var = ''rule'' then
        (if field = ''name'' then Some (BagString (sc_rule_Name s)) else None)
      else if var = ''inputs'' \<and> field = [] then
        (if sc_inputsErr s \<noteq> [] then Some (BagError (''profile inputs unavailable: '' @ sc_inputsErr s))
         else Some (BagInputs (sc_inputs s)))
      else None)"

subsection \<open>Facts\<close>

text \<open>Templates and CEL read the same request and the same failure.\<close>

lemma buildBag_agrees_Header:
  "buildBag s ''request'' ''headers'' = Some (BagStrings h) \<Longrightarrow>
     Header (sc_request s) name = (case h (ToLower name) of None \<Rightarrow> [] | Some v \<Rightarrow> v)"
  by (simp add: buildBag_def Header_def)

lemma buildBag_agrees_QueryParam:
  "buildBag s ''request'' ''queryParams'' = Some (BagStrings q) \<Longrightarrow>
     QueryParam (sc_request s) name = (case q name of None \<Rightarrow> [] | Some v \<Rightarrow> v)"
  by (auto simp: buildBag_def QueryParam_def split: option.splits list.splits)

lemma buildBag_agrees_Inputs:
  "Inputs s = (case buildBag s ''inputs'' [] of
     Some (BagError e) \<Rightarrow> Inl e | Some (BagInputs i) \<Rightarrow> Inr i | _ \<Rightarrow> Inr Map.empty)"
  by (simp add: buildBag_def Inputs_def)

end
