(* ===== verification/Filter_Contract.thy ===== *)
theory Filter_Contract
  imports Authz_Config Request_Context
begin

section \<open>The filter contract\<close>

text \<open>
  \<open>extensions/epe/pkg/engine/filter\<close>: what a filter is, what it may answer, and what the
  engine records about it.  A \<open>nil\<close> pointer is \<open>None\<close>; a byte slice that distinguishes nil
  from empty is an option.  A \<open>Filter\<close> value is its receiver together with its four
  methods, each a function from the receiver and what it is shown to an answer and the
  receiver afterwards, so that the state a filter keeps between its header and its body
  callback is explicit.  Contexts, durations and logging are not modelled.
\<close>

subsection \<open>Mutations (\<open>mutation.go\<close>, \<open>route.go\<close>)\<close>

datatype HeaderOpKind = HeaderSet | HeaderAdd | HeaderRemove

record HeaderOp =
  op_Kind :: HeaderOpKind
  op_Name :: string
  op_Value :: string

record UpstreamTarget =
  up_Address :: "AddrPort option"

record RouteMutation =
  rt_Upstream :: "UpstreamTarget option"
  rt_ClearCache :: bool

record Mutation =
  mut_HeaderOps :: "HeaderOp list"
  mut_Body :: "bytes option"
  mut_StatusCode :: "int option"
  mut_Route :: "RouteMutation option"

record Reply =
  reply_Status :: int
  reply_HeaderOps :: "HeaderOp list"
  reply_Body :: bytes
  reply_Details :: string

definition MutationZero :: Mutation where
  "MutationZero = \<lparr>mut_HeaderOps = [], mut_Body = None, mut_StatusCode = None, mut_Route = None\<rparr>"

definition ReplyZero :: Reply where
  "ReplyZero = \<lparr>reply_Status = 0, reply_HeaderOps = [], reply_Body = [], reply_Details = []\<rparr>"

definition SetHeader :: "string \<Rightarrow> string \<Rightarrow> Mutation" where
  "SetHeader name v = MutationZero\<lparr>mut_HeaderOps := [\<lparr>op_Kind = HeaderSet, op_Name = name, op_Value = v\<rparr>]\<rparr>"

definition AddHeader :: "string \<Rightarrow> string \<Rightarrow> Mutation" where
  "AddHeader name v = MutationZero\<lparr>mut_HeaderOps := [\<lparr>op_Kind = HeaderAdd, op_Name = name, op_Value = v\<rparr>]\<rparr>"

definition RemoveHeader :: "string \<Rightarrow> Mutation" where
  "RemoveHeader name = MutationZero\<lparr>mut_HeaderOps := [\<lparr>op_Kind = HeaderRemove, op_Name = name, op_Value = []\<rparr>]\<rparr>"

definition SetPath :: "string \<Rightarrow> bool \<Rightarrow> Mutation" where
  "SetPath path clearCache =
     MutationZero\<lparr>mut_HeaderOps := [\<lparr>op_Kind = HeaderSet, op_Name = '':path'', op_Value = path\<rparr>],
                  mut_Route := Some \<lparr>rt_Upstream = None, rt_ClearCache = clearCache\<rparr>\<rparr>"

datatype RouteError = UpstreamAddressRequired | InvalidUpstreamAddress AddrPort

definition Route_Validate :: "RouteMutation option \<Rightarrow> RouteError option" where
  "Route_Validate r =
     (case r of
        None \<Rightarrow> None
      | Some r \<Rightarrow>
        (case rt_Upstream r of
           None \<Rightarrow> None
         | Some u \<Rightarrow>
           (case up_Address u of
              None \<Rightarrow> Some UpstreamAddressRequired
            | Some address \<Rightarrow>
                if \<not> AddrPort_IsValid address \<or> ap_Port address = 0 \<or> Addr_Zone (ap_Addr address) \<noteq> []
                then Some (InvalidUpstreamAddress address) else None)))"

definition Route_equal :: "RouteMutation option \<Rightarrow> RouteMutation option \<Rightarrow> bool" where
  "Route_equal r other =
     (case (r, other) of
        (Some a, Some b) \<Rightarrow>
          if rt_ClearCache a \<noteq> rt_ClearCache b then False
          else (case (rt_Upstream a, rt_Upstream b) of
                  (Some u, Some v) \<Rightarrow>
                    (case (up_Address u, up_Address v) of
                       (Some x, Some y) \<Rightarrow> x = y
                     | (None, None) \<Rightarrow> True
                     | _ \<Rightarrow> False)
                | (None, None) \<Rightarrow> True
                | _ \<Rightarrow> False)
      | (None, None) \<Rightarrow> True
      | _ \<Rightarrow> False)"

text \<open>\<open>slices.Equal\<close> does not tell a nil slice from an empty one.\<close>

definition slice_bytes :: "bytes option \<Rightarrow> bytes" where
  "slice_bytes b = (case b of None \<Rightarrow> [] | Some bs \<Rightarrow> bs)"

definition Mutation_equal :: "Mutation \<Rightarrow> Mutation \<Rightarrow> bool" where
  "Mutation_equal m other \<longleftrightarrow>
     Route_equal (mut_Route m) (mut_Route other) \<and>
     mut_StatusCode m = mut_StatusCode other \<and>
     slice_bytes (mut_Body m) = slice_bytes (mut_Body other) \<and>
     mut_HeaderOps m = mut_HeaderOps other"

definition Reply_equal :: "Reply \<Rightarrow> Reply \<Rightarrow> bool" where
  "Reply_equal r other \<longleftrightarrow>
     reply_Status r = reply_Status other \<and> reply_Details r = reply_Details other \<and>
     reply_Body r = reply_Body other \<and> reply_HeaderOps r = reply_HeaderOps other"

subsection \<open>Actions (\<open>action.go\<close>)\<close>

datatype ActionKind = KindContinue | KindStop | KindBypass | KindNeedBody

record Action =
  act_kind :: ActionKind
  act_mutations :: "Mutation list"
  act_reply :: Reply

definition Continue :: "Mutation list \<Rightarrow> Action" where
  "Continue ms = \<lparr>act_kind = KindContinue, act_mutations = ms, act_reply = ReplyZero\<rparr>"

definition Stop :: "Reply \<Rightarrow> Action" where
  "Stop r = \<lparr>act_kind = KindStop, act_mutations = [], act_reply = r\<rparr>"

definition Bypass :: Action where
  "Bypass = \<lparr>act_kind = KindBypass, act_mutations = [], act_reply = ReplyZero\<rparr>"

definition NeedBody :: "Mutation list \<Rightarrow> Action" where
  "NeedBody ms = \<lparr>act_kind = KindNeedBody, act_mutations = ms, act_reply = ReplyZero\<rparr>"

definition Action_Equal :: "Action \<Rightarrow> Action \<Rightarrow> bool" where
  "Action_Equal a b =
     (if act_kind a \<noteq> act_kind b then False
      else if act_kind a = KindStop \<and> \<not> Reply_equal (act_reply a) (act_reply b) then False
      else list_all2 Mutation_equal (act_mutations a) (act_mutations b))"

subsection \<open>Units (\<open>rule.go\<close>)\<close>

record UnitID =
  uid_Scope :: string
  uid_Name :: string
  uid_Ordinal :: int

definition UnitID_String :: "UnitID \<Rightarrow> string" where
  "UnitID_String u = uid_Scope u @ ''/'' @ uid_Name u @ ''#'' @ Itoa (uid_Ordinal u)"

record 'c Unit =
  unit_ID :: UnitID
  unit_Scope :: "Scope option"
  unit_Cfgs :: "'c option list"

record 'c RuleConfig =
  rc_ID :: UnitID
  rc_Cfg :: 'c
  rc_Scope :: "Scope option"

subsection \<open>Stream observations (\<open>streaminfo.go\<close>)\<close>

datatype Disposition =
    DispositionPassthrough
  | DispositionMutated
  | DispositionBlocked
  | DispositionBypassed
  | DispositionError

fun Disposition_String :: "Disposition \<Rightarrow> string" where
  "Disposition_String DispositionMutated = ''mutated''"
| "Disposition_String DispositionBlocked = ''blocked''"
| "Disposition_String DispositionBypassed = ''bypassed''"
| "Disposition_String DispositionError = ''error''"
| "Disposition_String DispositionPassthrough = ''passthrough''"

datatype UnitActionKind =
    ActionBlock | ActionBypass | ActionMutate | ActionErrorClosed | ActionNeedBody | ActionErrorOpen

record UnitAction =
  ua_Filter :: string
  ua_Kind :: UnitActionKind

record UnitRecord =
  ur_ID :: UnitID
  ur_FilterActions :: "UnitAction list"

record FilterRecord =
  fr_Filter :: string
  fr_Phase :: string
  fr_Outcome :: string
  fr_Err :: "string option"

record AuthorizationDecision =
  ad_Action :: string
  ad_Reason :: string
  ad_Destination :: string
  ad_Policy :: string
  ad_RuleIndex :: "int option"

definition AuthorizationDecisionZero :: AuthorizationDecision where
  "AuthorizationDecisionZero =
     \<lparr>ad_Action = [], ad_Reason = [], ad_Destination = [], ad_Policy = [], ad_RuleIndex = None\<rparr>"

record StreamInfo =
  si_Matched :: "UnitRecord list"
  si_Filters :: "FilterRecord list"
  si_Authorization :: "AuthorizationDecision option"
  si_authorizationMatches :: "AddrPort \<rightharpoonup> AuthorizationDecision"
  si_Outcome :: Disposition
  si_Error :: string

definition NewStreamInfo :: StreamInfo where
  "NewStreamInfo =
     \<lparr>si_Matched = [], si_Filters = [], si_Authorization = None, si_authorizationMatches = Map.empty,
      si_Outcome = DispositionPassthrough, si_Error = []\<rparr>"

fun record_action :: "UnitID \<Rightarrow> UnitAction \<Rightarrow> UnitRecord list \<Rightarrow> UnitRecord list" where
  "record_action uid action [] = [\<lparr>ur_ID = uid, ur_FilterActions = [action]\<rparr>]"
| "record_action uid action (r # rs) =
     (if ur_ID r = uid then r\<lparr>ur_FilterActions := ur_FilterActions r @ [action]\<rparr> # rs
      else r # record_action uid action rs)"

text \<open>The recording methods accept a nil receiver.\<close>

definition RecordUnitAction ::
  "UnitID \<Rightarrow> string \<Rightarrow> UnitActionKind \<Rightarrow> StreamInfo option \<Rightarrow> StreamInfo option" where
  "RecordUnitAction uid filterName kind info =
     map_option (\<lambda>i. i\<lparr>si_Matched := record_action uid \<lparr>ua_Filter = filterName, ua_Kind = kind\<rparr> (si_Matched i)\<rparr>) info"

definition RecordFilter :: "FilterRecord \<Rightarrow> StreamInfo option \<Rightarrow> StreamInfo option" where
  "RecordFilter rec info = map_option (\<lambda>i. i\<lparr>si_Filters := si_Filters i @ [rec]\<rparr>) info"

definition RecordAuthorization :: "AuthorizationDecision \<Rightarrow> StreamInfo option \<Rightarrow> StreamInfo option" where
  "RecordAuthorization record info =
     map_option (\<lambda>i. i\<lparr>si_Authorization := Some record, si_authorizationMatches := Map.empty\<rparr>) info"

definition RecordAuthorizationMatch ::
  "AddrPort \<Rightarrow> string \<Rightarrow> int \<Rightarrow> StreamInfo option \<Rightarrow> StreamInfo option" where
  "RecordAuthorizationMatch address policy ruleIndex info =
     map_option (\<lambda>i. i\<lparr>si_authorizationMatches := (si_authorizationMatches i)
         (address \<mapsto> AuthorizationDecisionZero\<lparr>ad_Policy := policy, ad_RuleIndex := Some ruleIndex\<rparr>)\<rparr>) info"

definition RecordAuthorizedDestination :: "AddrPort \<Rightarrow> StreamInfo option \<Rightarrow> StreamInfo option" where
  "RecordAuthorizedDestination address info =
     (case info of
        None \<Rightarrow> None
      | Some i \<Rightarrow>
          let record = (case si_authorizationMatches i address of None \<Rightarrow> AuthorizationDecisionZero | Some r \<Rightarrow> r)
          in RecordAuthorization
               (record\<lparr>ad_Action := ''allow'', ad_Destination := AddrPort_String address\<rparr>) info)"

subsection \<open>Streams (\<open>stream.go\<close>, \<open>caller.go\<close>)\<close>

record SandboxToken =
  tok_RequestID :: string
  tok_AccessToken :: string
  tok_SandboxClientID :: string
  tok_raw :: string
  tok_invalid :: bool
  tok_metadata :: bool

definition NewSandboxToken :: "string \<Rightarrow> SandboxToken option" where
  "NewSandboxToken raw =
     (if raw = [] then None
      else Some \<lparr>tok_RequestID = [], tok_AccessToken = [], tok_SandboxClientID = [], tok_raw = raw,
                 tok_invalid = False, tok_metadata = False\<rparr>)"

definition NewSandboxMetadataToken :: "string \<Rightarrow> SandboxToken option" where
  "NewSandboxMetadataToken raw =
     (if raw = [] then None
      else Some \<lparr>tok_RequestID = [], tok_AccessToken = [], tok_SandboxClientID = [], tok_raw = raw,
                 tok_invalid = False, tok_metadata = True\<rparr>)"

record CallerContext =
  cc_Subject :: Subject
  cc_Token :: "SandboxToken option"

text \<open>
  The only \<open>DestinationAuthorizer\<close> the program puts into a snapshot is a compiled
  \<^typ>\<open>Config\<close>.  A stream logger is known by an identifier.
\<close>

type_synonym LoggerId = nat

record 'c PolicySnapshot =
  ps_DestinationAuthorizer :: "Config option"
  ps_FilterRules :: "'c Unit list"
  ps_StreamLogger :: "LoggerId option"

record 'c RequestContext =
  st_Caller :: CallerContext
  st_Request :: HTTPRequest
  st_RequestID :: string
  st_Policies :: "'c PolicySnapshot"

record 'c Stream = "'c RequestContext" +
  st_Upstream :: "UpstreamTarget option"
  st_Response :: HTTPResponse
  st_Info :: "StreamInfo option"

definition CallerContextZero :: CallerContext where
  "CallerContextZero = \<lparr>cc_Subject = SubjectZero, cc_Token = None\<rparr>"

definition PolicySnapshotZero :: "'c PolicySnapshot" where
  "PolicySnapshotZero = \<lparr>ps_DestinationAuthorizer = None, ps_FilterRules = [], ps_StreamLogger = None\<rparr>"

definition StreamZero :: "'c Stream" where
  "StreamZero =
     \<lparr>st_Caller = CallerContextZero, st_Request = HTTPRequestZero, st_RequestID = [],
      st_Policies = PolicySnapshotZero, st_Upstream = None, st_Response = HTTPResponseZero, st_Info = None\<rparr>"

subsection \<open>Filters (\<open>filter.go\<close>)\<close>

type_synonym Phase = "8 word"

abbreviation PhaseRequestHeaders :: Phase where "PhaseRequestHeaders \<equiv> 1"
abbreviation PhaseRequestBody :: Phase where "PhaseRequestBody \<equiv> 2"
abbreviation PhaseResponseHeaders :: Phase where "PhaseResponseHeaders \<equiv> 4"
abbreviation PhaseResponseBody :: Phase where "PhaseResponseBody \<equiv> 8"

definition DispatchedPhases :: Phase where
  "DispatchedPhases = PhaseRequestHeaders OR PhaseRequestBody OR PhaseResponseHeaders OR PhaseResponseBody"

type_synonym 'f Answer = "(string + Action) \<times> 'f"

record ('c, 'f) Filter =
  flt_self :: 'f
  flt_OnRequestHeaders :: "'f \<Rightarrow> 'c Stream \<Rightarrow> 'f Answer"
  flt_OnRequestBody :: "'f \<Rightarrow> 'c Stream \<Rightarrow> Body \<Rightarrow> 'f Answer"
  flt_OnResponseHeaders :: "'f \<Rightarrow> 'c Stream \<Rightarrow> 'f Answer"
  flt_OnResponseBody :: "'f \<Rightarrow> 'c Stream \<Rightarrow> Body \<Rightarrow> 'f Answer"

definition PassThrough :: "'f \<Rightarrow> ('c, 'f) Filter" where
  "PassThrough self =
     \<lparr>flt_self = self,
      flt_OnRequestHeaders = (\<lambda>s st. (Inr (Continue []), s)),
      flt_OnRequestBody = (\<lambda>s st b. (Inr (Continue []), s)),
      flt_OnResponseHeaders = (\<lambda>s st. (Inr (Continue []), s)),
      flt_OnResponseBody = (\<lambda>s st b. (Inr (Continue []), s))\<rparr>"

text \<open>Calling a method: the answer, and the value of the interface afterwards.\<close>

definition call_request_headers :: "('c, 'f) Filter \<Rightarrow> 'c Stream \<Rightarrow> (string + Action) \<times> ('c, 'f) Filter" where
  "call_request_headers f st =
     (case flt_OnRequestHeaders f (flt_self f) st of (r, s) \<Rightarrow> (r, f\<lparr>flt_self := s\<rparr>))"

definition call_request_body ::
  "('c, 'f) Filter \<Rightarrow> 'c Stream \<Rightarrow> Body \<Rightarrow> (string + Action) \<times> ('c, 'f) Filter" where
  "call_request_body f st b =
     (case flt_OnRequestBody f (flt_self f) st b of (r, s) \<Rightarrow> (r, f\<lparr>flt_self := s\<rparr>))"

definition call_response_headers :: "('c, 'f) Filter \<Rightarrow> 'c Stream \<Rightarrow> (string + Action) \<times> ('c, 'f) Filter" where
  "call_response_headers f st =
     (case flt_OnResponseHeaders f (flt_self f) st of (r, s) \<Rightarrow> (r, f\<lparr>flt_self := s\<rparr>))"

definition call_response_body ::
  "('c, 'f) Filter \<Rightarrow> 'c Stream \<Rightarrow> Body \<Rightarrow> (string + Action) \<times> ('c, 'f) Filter" where
  "call_response_body f st b =
     (case flt_OnResponseBody f (flt_self f) st b of (r, s) \<Rightarrow> (r, f\<lparr>flt_self := s\<rparr>))"

end
