(* ===== verification/Filter_Registry.thy ===== *)
theory Filter_Registry
  imports Filter_Contract
begin

section \<open>Registration, projection and header names\<close>

text \<open>
  \<open>registry.go\<close>, \<open>project.go\<close> and \<open>headername.go\<close> of the filter package: how typed
  descriptors become the ordered registrations the engine dispatches on, how one policy
  unit's payload documents become its configurations, and which header names a
  configuration may touch.  Go erases the configuration type of each filter to \<open>any\<close>;
  here all configurations share the type variable \<open>'c\<close>, so the assertions that undo the
  erasure disappear.
\<close>

subsection \<open>Descriptors and registrations\<close>

datatype FailurePolicy = FailClosed | FailOpen

record ('c, 'f) Descriptor =
  d_Name :: string
  d_Phases :: Phase
  d_OnError :: "('c \<Rightarrow> FailurePolicy) option"
  d_SubscribesOf :: "('c \<Rightarrow> Phase) option"
  d_New :: "('c RuleConfig \<Rightarrow> ('c, 'f) Filter) option"

record ('c, 'f) Registration =
  reg_Name :: string
  reg_Phases :: Phase
  reg_OnError :: "('c option \<Rightarrow> FailurePolicy) option"
  reg_Parse :: "bytes \<Rightarrow> string + 'c"
  reg_New :: "'c RuleConfig \<Rightarrow> ('c, 'f) Filter"
  reg_Subscribes :: "('c \<Rightarrow> Phase) option"

datatype BuildError =
    EmptyName
  | NilNew string
  | NilParse string
  | NoPhases string
  | UndispatchedPhases string Phase
  | RequestBodyNeedsHeaders string
  | ResponseBodyNeedsHeaders string
  | ResponseHeadersNeedSubscribes string
  | ZeroDefinition nat
  | DuplicateName string

definition Always :: "FailurePolicy \<Rightarrow> 'c \<Rightarrow> FailurePolicy" where
  "Always p cfg = p"

definition buildRegistration ::
  "('c, 'f) Descriptor \<Rightarrow> (bytes \<Rightarrow> string + 'c) option \<Rightarrow> BuildError + ('c, 'f) Registration" where
  "buildRegistration d parse =
     (if d_Name d = [] then Inl EmptyName
      else case d_New d of
        None \<Rightarrow> Inl (NilNew (d_Name d))
      | Some new \<Rightarrow>
        (case parse of
           None \<Rightarrow> Inl (NilParse (d_Name d))
         | Some parse \<Rightarrow>
           if d_Phases d = 0 then Inl (NoPhases (d_Name d))
           else if and_not (d_Phases d) DispatchedPhases \<noteq> 0
           then Inl (UndispatchedPhases (d_Name d) (and_not (d_Phases d) DispatchedPhases))
           else if d_Phases d AND PhaseRequestBody \<noteq> 0 \<and> d_Phases d AND PhaseRequestHeaders = 0
           then Inl (RequestBodyNeedsHeaders (d_Name d))
           else if d_Phases d AND PhaseResponseBody \<noteq> 0 \<and> d_Phases d AND PhaseResponseHeaders = 0
           then Inl (ResponseBodyNeedsHeaders (d_Name d))
           else if d_Phases d AND PhaseResponseHeaders \<noteq> 0 \<and> d_SubscribesOf d = None
           then Inl (ResponseHeadersNeedSubscribes (d_Name d))
           else Inr
             \<lparr>reg_Name = d_Name d, reg_Phases = d_Phases d,
              reg_OnError = Some (\<lambda>cfg. case (cfg, d_OnError d) of
                  (Some c, Some p) \<Rightarrow> p c
                | _ \<Rightarrow> FailClosed),
              reg_Parse = parse,
              reg_New = new,
              reg_Subscribes = Some (\<lambda>cfg. case d_SubscribesOf d of
                  None \<Rightarrow> 0
                | Some s \<Rightarrow> s cfg AND d_Phases d)\<rparr>))"

text \<open>A \<open>Definition\<close> is the zero value or a suspended call of \<open>buildRegistration\<close>.\<close>

datatype ('c, 'f) Definition =
    ZeroDef
  | Define "('c, 'f) Descriptor" "(bytes \<Rightarrow> string + 'c) option"

fun build_from ::
  "nat \<Rightarrow> string list \<Rightarrow> ('c, 'f) Definition list \<Rightarrow> BuildError + ('c, 'f) Registration list" where
  "build_from i names [] = Inr []"
| "build_from i names (ZeroDef # ds) = Inl (ZeroDefinition i)"
| "build_from i names (Define d parse # ds) =
     (case buildRegistration d parse of
        Inl e \<Rightarrow> Inl e
      | Inr reg \<Rightarrow>
          if reg_Name reg \<in> set names then Inl (DuplicateName (reg_Name reg))
          else case build_from (Suc i) (reg_Name reg # names) ds of
                 Inl e \<Rightarrow> Inl e
               | Inr regs \<Rightarrow> Inr (reg # regs))"

definition Build :: "('c, 'f) Definition list \<Rightarrow> BuildError + ('c, 'f) Registration list" where
  "Build ds = build_from 0 [] ds"

subsection \<open>Projection of a unit's payloads\<close>

definition project_one ::
  "(string \<rightharpoonup> bytes) \<Rightarrow> ('c, 'f) Registration \<Rightarrow> 'c option \<times> string option" where
  "project_one payloads reg =
     (case payloads (reg_Name reg) of
        None \<Rightarrow> (None, None)
      | Some raw \<Rightarrow>
        (case reg_Parse reg raw of
           Inl e \<Rightarrow> (None, Some e)
         | Inr cfg \<Rightarrow> (Some cfg, None)))"

definition Project ::
  "('c, 'f) Registration list \<Rightarrow> (string \<rightharpoonup> bytes) \<Rightarrow> 'c option list \<times> string option list" where
  "Project regs payloads =
     (map (fst \<circ> project_one payloads) regs, map (snd \<circ> project_one payloads) regs)"

subsection \<open>Header names\<close>

definition hopByHopNames :: "string list" where
  "hopByHopNames =
     [''connection'', ''keep-alive'', ''proxy-connection'', ''upgrade'', ''te'', ''trailer'',
      ''proxy-authenticate'', ''content-encoding'']"

definition framingNames :: "string list" where
  "framingNames = [''content-length'', ''transfer-encoding'']"

datatype HeaderNameError =
    InvalidHeaderName string
  | ModifiesHost string
  | ReservedByEnvoy string
  | ConnectionScoped string
  | ControlsFraming string

text \<open>
  The syntax check of a field name is \<open>httpguts.ValidHeaderFieldName\<close> of \<open>golang.org/x/net\<close>,
  a parameter here.
\<close>

definition ValidateHeaderName ::
  "(string \<Rightarrow> bool) \<Rightarrow> HeaderOpKind \<Rightarrow> string \<Rightarrow> HeaderNameError + string" where
  "ValidateHeaderName validHeaderFieldName kind name =
     (if \<not> validHeaderFieldName name then Inl (InvalidHeaderName name)
      else let normalized = ToLower name in
        if normalized = ''host'' then Inl (ModifiesHost name)
        else if HasPrefix normalized ''x-envoy'' then Inl (ReservedByEnvoy name)
        else if normalized \<in> set hopByHopNames then Inl (ConnectionScoped name)
        else if normalized \<in> set framingNames \<and> kind \<noteq> HeaderRemove then Inl (ControlsFraming name)
        else Inr normalized)"

subsection \<open>Well-formed registrations\<close>

text \<open>What the engine relies on of one registration.\<close>

definition reg_ok :: "('c, 'f) Registration \<Rightarrow> bool" where
  "reg_ok reg \<longleftrightarrow>
     reg_Name reg \<noteq> [] \<and> reg_Phases reg \<noteq> 0 \<and> reg_Phases reg AND DispatchedPhases = reg_Phases reg \<and>
     (reg_Phases reg AND PhaseRequestBody \<noteq> 0 \<longrightarrow> reg_Phases reg AND PhaseRequestHeaders \<noteq> 0) \<and>
     (reg_Phases reg AND PhaseResponseBody \<noteq> 0 \<longrightarrow> reg_Phases reg AND PhaseResponseHeaders \<noteq> 0) \<and>
     (\<exists>p. reg_OnError reg = Some p \<and> p None = FailClosed) \<and>
     (\<exists>s. reg_Subscribes reg = Some s \<and> (\<forall>cfg. s cfg AND reg_Phases reg = s cfg))"

fun def_name :: "('c, 'f) Definition \<Rightarrow> string" where
  "def_name ZeroDef = []"
| "def_name (Define d parse) = d_Name d"

lemma buildRegistration_ok:
  "buildRegistration d parse = Inr reg \<Longrightarrow> reg_ok reg \<and> reg_Name reg = d_Name d"
  by (auto simp: buildRegistration_def reg_ok_def and_not_zero_subset and.assoc
      split: if_splits option.splits)

lemma build_from_ok:
  "build_from i names ds = Inr regs \<Longrightarrow>
     list_all reg_ok regs \<and> map reg_Name regs = map def_name ds \<and>
     distinct (map def_name ds) \<and> set names \<inter> def_name ` set ds = {}"
proof (induction i names ds arbitrary: regs rule: build_from.induct)
  case (3 i names d parse ds)
  from "3.prems" obtain reg rest where reg: "buildRegistration d parse = Inr reg"
    and new: "reg_Name reg \<notin> set names"
    and rest: "build_from (Suc i) (reg_Name reg # names) ds = Inr rest" and regs: "regs = reg # rest"
    by (auto split: sum.splits if_splits)
  from "3.IH" [OF reg new rest] buildRegistration_ok [OF reg] show ?case
    using new by (auto simp: regs)
qed auto

text \<open>
  C17: a successful \<open>Build\<close> returns one registration per definition, in the order supplied and
  with the names supplied, all different; each declares only phases the engine dispatches, has
  the header phase of every body phase it declares, fails closed when it has no configuration,
  and subscribes only to phases it declares.
\<close>

theorem Build_ok:
  assumes "Build ds = Inr regs"
  shows "map reg_Name regs = map def_name ds \<and> distinct (map reg_Name regs) \<and> list_all reg_ok regs"
  using build_from_ok [OF assms [unfolded Build_def]] by simp

theorem Build_ok_witness:
  "map reg_Name (case Build
     [Define \<lparr>d_Name = ''block'', d_Phases = 1, d_OnError = None, d_SubscribesOf = None,
              d_New = Some (\<lambda>rc. PassThrough ())\<rparr> (Some (\<lambda>raw. Inr True)),
      Define \<lparr>d_Name = ''hdr'', d_Phases = 5, d_OnError = None, d_SubscribesOf = Some (\<lambda>c. 255),
              d_New = Some (\<lambda>rc. PassThrough ())\<rparr> (Some (\<lambda>raw. Inr False))] of
     Inl e \<Rightarrow> [] | Inr regs \<Rightarrow> regs) = [''block'', ''hdr'']"
proof -
  let ?ds = "[Define \<lparr>d_Name = ''block'', d_Phases = 1, d_OnError = None, d_SubscribesOf = None,
                 d_New = Some (\<lambda>rc. PassThrough ())\<rparr> (Some (\<lambda>raw. Inr True)),
      Define \<lparr>d_Name = ''hdr'', d_Phases = 5, d_OnError = None, d_SubscribesOf = Some (\<lambda>c. 255),
              d_New = Some (\<lambda>rc. PassThrough ())\<rparr> (Some (\<lambda>raw. Inr False))]"
  have "\<not> isl (Build ?ds)"
    by (simp add: Build_def buildRegistration_def and_not_def DispatchedPhases_def)
  then obtain regs where "Build ?ds = Inr regs"
    by (auto simp: isl_def split: sum.splits) (metis sum.exhaust)
  with Build_ok [OF this] show ?thesis
    by simp
qed

lemma ValidateHeaderName_Inr:
  "ValidateHeaderName valid kind name = Inr n \<longleftrightarrow>
     valid name \<and> n = ToLower name \<and> n \<noteq> ''host'' \<and> \<not> HasPrefix n ''x-envoy'' \<and>
     n \<notin> set hopByHopNames \<and> (n \<in> set framingNames \<longrightarrow> kind = HeaderRemove)"
  by (auto simp: ValidateHeaderName_def Let_def)

lemma Project_parallel:
  "Project regs payloads = (cfgs, errs) \<Longrightarrow>
     length cfgs = length regs \<and> length errs = length regs \<and>
     (\<forall>i < length regs. cfgs ! i = None \<or> errs ! i = None)"
  by (auto simp: Project_def project_one_def split: option.splits sum.splits)

end
