(* ===== verification/Mutation_Fold.thy ===== *)
theory Mutation_Fold
  imports Filter_Registry
begin

section \<open>Folding pending mutations\<close>

text \<open>
  \<open>extensions/epe/pkg/engine/fold.go\<close> and the reductions at the end of \<open>eval.go\<close>: the net
  effect of the mutations a walk accumulated.  The header fold is compared with executing
  every operation in order on a header store, given that the proxy executes all removals of
  one message before its sets; the laws of such a store are the locale \<open>header_store\<close>.
\<close>

subsection \<open>Header operations\<close>

record keyState =
  ks_name :: string
  ks_ops :: "HeaderOp list"
  ks_removed :: bool
  ks_removeFirst :: bool

abbreviation op_key :: "HeaderOp \<Rightarrow> string" where
  "op_key p \<equiv> ToLower (op_Name p)"

definition fold_kind :: "HeaderOp \<Rightarrow> keyState \<Rightarrow> keyState" where
  "fold_kind p s =
     (case op_Kind p of
        HeaderSet \<Rightarrow> s\<lparr>ks_ops := [p], ks_removed := False, ks_removeFirst := False\<rparr>
      | HeaderAdd \<Rightarrow>
          s\<lparr>ks_ops := ks_ops s @ [p], ks_removed := False,
            ks_removeFirst := ks_removed s \<or> ks_removeFirst s\<rparr>
      | HeaderRemove \<Rightarrow> s\<lparr>ks_ops := [], ks_removed := True, ks_removeFirst := False\<rparr>)"

type_synonym foldState = "(string \<rightharpoonup> keyState) \<times> string list"

fun fold_op :: "foldState \<Rightarrow> HeaderOp \<Rightarrow> foldState" where
  "fold_op (states, order) p =
     (let key = op_key p in
      case states key of
        Some s \<Rightarrow> (states(key \<mapsto> fold_kind p s), order)
      | None \<Rightarrow>
          (states(key \<mapsto> fold_kind p
             \<lparr>ks_name = op_Name p, ks_ops = [], ks_removed = False, ks_removeFirst = False\<rparr>),
           order @ [key]))"

definition remove_op :: "string \<Rightarrow> HeaderOp" where
  "remove_op name = \<lparr>op_Kind = HeaderRemove, op_Name = name, op_Value = []\<rparr>"

definition emit_key :: "keyState \<Rightarrow> HeaderOp list" where
  "emit_key s =
     (if ks_removed s then [remove_op (ks_name s)]
      else (if ks_removeFirst s then [remove_op (ks_name s)] else []) @ ks_ops s)"

definition fold_states :: "Mutation list \<Rightarrow> foldState" where
  "fold_states muts = foldl (\<lambda>acc m. foldl fold_op acc (mut_HeaderOps m)) (Map.empty, []) muts"

definition fold_ops :: "Mutation list \<Rightarrow> HeaderOp list" where
  "fold_ops muts =
     (case fold_states muts of (states, order) \<Rightarrow>
        concat (map (\<lambda>key. case states key of None \<Rightarrow> [] | Some s \<Rightarrow> emit_key s) order))"

subsection \<open>Routes, bodies and statuses\<close>

datatype FoldError =
    InvalidRoute RouteError
  | ConflictingUpstreams UpstreamTarget UpstreamTarget

fun foldRouteFrom ::
  "RouteMutation option \<Rightarrow> Mutation list \<Rightarrow> FoldError + RouteMutation option" where
  "foldRouteFrom result [] = Inr result"
| "foldRouteFrom result (m # ms) =
     (case mut_Route m of
        None \<Rightarrow> foldRouteFrom result ms
      | Some r \<Rightarrow>
        (case Route_Validate (Some r) of
           Some e \<Rightarrow> Inl (InvalidRoute e)
         | None \<Rightarrow>
           let base = (case result of None \<Rightarrow> \<lparr>rt_Upstream = None, rt_ClearCache = False\<rparr> | Some p \<Rightarrow> p);
               cleared = base\<lparr>rt_ClearCache := rt_ClearCache base \<or> rt_ClearCache r\<rparr>
           in (case rt_Upstream r of
                 None \<Rightarrow> foldRouteFrom (Some cleared) ms
               | Some u \<Rightarrow>
                 (case rt_Upstream cleared of
                    Some v \<Rightarrow>
                      if up_Address v \<noteq> up_Address u then Inl (ConflictingUpstreams v u)
                      else foldRouteFrom (Some (cleared\<lparr>rt_Upstream := Some u\<rparr>)) ms
                  | None \<Rightarrow> foldRouteFrom (Some (cleared\<lparr>rt_Upstream := Some u\<rparr>)) ms))))"

definition foldRoute :: "Mutation list \<Rightarrow> FoldError + RouteMutation option" where
  "foldRoute muts = foldRouteFrom None muts"

definition lastBodyMutation :: "Mutation list \<Rightarrow> bytes option" where
  "lastBodyMutation muts = foldl (\<lambda>body m. if mut_Body m \<noteq> None then mut_Body m else body) None muts"

definition lastStatusMutation :: "Mutation list \<Rightarrow> int option" where
  "lastStatusMutation muts =
     foldl (\<lambda>s m. if mut_StatusCode m \<noteq> None then mut_StatusCode m else s) None muts"

type_synonym Folded = "HeaderOp list \<times> RouteMutation option \<times> bytes option \<times> int option"

definition foldPending :: "Mutation list \<Rightarrow> FoldError + Folded" where
  "foldPending pending =
     (case foldRoute pending of
        Inl e \<Rightarrow> Inl e
      | Inr route \<Rightarrow> Inr (fold_ops pending, route, lastBodyMutation pending, lastStatusMutation pending))"

subsection \<open>Header stores\<close>

definition run_ops :: "(HeaderOp \<Rightarrow> 'h \<Rightarrow> 'h) \<Rightarrow> HeaderOp list \<Rightarrow> 'h \<Rightarrow> 'h" where
  "run_ops exec ps h = foldl (\<lambda>h p. exec p h) h ps"

text \<open>The order in which the proxy executes one message: removals, then sets and additions.\<close>

definition message_order :: "HeaderOp list \<Rightarrow> HeaderOp list" where
  "message_order ps =
     [p \<leftarrow> ps. op_Kind p = HeaderRemove] @ [p \<leftarrow> ps. op_Kind p \<noteq> HeaderRemove]"

lemma message_order_Nil [simp]: "message_order [] = []"
  by (simp add: message_order_def)

lemma filter_message_order:
  "[p \<leftarrow> message_order ps. P p] = message_order ([p \<leftarrow> ps. P p])"
  by (simp add: message_order_def conj_commute)

lemma fold_states_foldl:
  "fold_states muts = foldl fold_op (Map.empty, []) (concat (map mut_HeaderOps muts))"
proof -
  have "foldl (\<lambda>acc m. foldl fold_op acc (mut_HeaderOps m)) st ms =
      foldl fold_op st (concat (map mut_HeaderOps ms))" for st ms
    by (induction ms arbitrary: st) auto
  then show ?thesis
    by (simp add: fold_states_def)
qed

lemma filter_concat_key:
  assumes "\<And>k. \<forall>p\<in>set (g k). op_key p = k"
  shows "distinct ks \<Longrightarrow>
     [p \<leftarrow> concat (map g ks). op_key p = k] = (if k \<in> set ks then g k else [])"
proof (induction ks)
  case (Cons a ks)
  have "[p \<leftarrow> g a. op_key p = k] = (if a = k then g a else [])"
    using assms [of a] by (auto simp: filter_empty_conv intro!: filter_True)
  with Cons show ?case
    by auto
qed simp

text \<open>
  Executing operations on a store.  Operations on different names commute, a set or a
  removal makes earlier operations on its name irrelevant, and a removal is determined by
  the name alone, without regard to case.
\<close>

locale header_store =
  fixes exec :: "HeaderOp \<Rightarrow> 'h \<Rightarrow> 'h"
  assumes exec_commute: "op_key p \<noteq> op_key q \<Longrightarrow> exec p (exec q h) = exec q (exec p h)"
    and exec_absorb:
      "op_key p = op_key q \<Longrightarrow> op_Kind q \<noteq> HeaderAdd \<Longrightarrow> exec q (exec p h) = exec q h"
    and exec_remove:
      "op_key p = op_key q \<Longrightarrow> op_Kind p = HeaderRemove \<Longrightarrow> op_Kind q = HeaderRemove \<Longrightarrow> exec p = exec q"
begin

abbreviation run :: "HeaderOp list \<Rightarrow> 'h \<Rightarrow> 'h" where
  "run \<equiv> run_ops exec"

lemma run_simps [simp]: "run [] h = h" "run (p # ps) h = run ps (exec p h)"
  "run (ps @ qs) h = run qs (run ps h)"
  by (simp_all add: run_ops_def)

lemma run_exec_commute:
  "\<forall>q\<in>set qs. op_key p \<noteq> op_key q \<Longrightarrow> run qs (exec p h) = exec p (run qs h)"
proof (induction qs arbitrary: h)
  case (Cons q qs)
  then show ?case
    using exec_commute [of p q h, symmetric] by simp
qed simp

lemma run_split:
  "run ps h = run ([p \<leftarrow> ps. op_key p \<noteq> k]) (run ([p \<leftarrow> ps. op_key p = k]) h)"
proof (induction ps arbitrary: h)
  case (Cons p ps)
  show ?case
    by (cases "op_key p = k")
       (simp_all add: Cons [of "exec p h"] run_exec_commute)
qed simp

text \<open>Two lists with the same effect name by name have the same effect.\<close>

lemma run_by_key:
  assumes "\<forall>k h. run ([p \<leftarrow> ps. op_key p = k]) h = run ([p \<leftarrow> qs. op_key p = k]) h"
  shows "run ps h = run qs h"
  using assms
proof (induction "card (op_key ` set (ps @ qs))" arbitrary: ps qs h rule: less_induct)
  case less
  show ?case
  proof (cases "ps @ qs = []")
    case False
    then obtain p where p: "p \<in> set (ps @ qs)"
      by (meson list.set_sel(1))
    let ?k = "op_key p"
    let ?ps = "[p \<leftarrow> ps. op_key p \<noteq> ?k]" and ?qs = "[p \<leftarrow> qs. op_key p \<noteq> ?k]"
    have "op_key ` set (?ps @ ?qs) \<subseteq> op_key ` set (ps @ qs)" "?k \<notin> op_key ` set (?ps @ ?qs)"
      "?k \<in> op_key ` set (ps @ qs)"
      using p by auto
    then have "op_key ` set (?ps @ ?qs) \<subset> op_key ` set (ps @ qs)"
      by blast
    then have smaller: "card (op_key ` set (?ps @ ?qs)) < card (op_key ` set (ps @ qs))"
      by (intro psubset_card_mono) auto
    have keys: "\<forall>k h. run ([p \<leftarrow> ?ps. op_key p = k]) h = run ([p \<leftarrow> ?qs. op_key p = k]) h"
    proof (intro allI)
      fix k h
      have "[p \<leftarrow> [p \<leftarrow> xs. op_key p \<noteq> ?k]. op_key p = k] = (if k = ?k then [] else [p \<leftarrow> xs. op_key p = k])" for xs
        by (induction xs) auto
      then show "run ([p \<leftarrow> ?ps. op_key p = k]) h = run ([p \<leftarrow> ?qs. op_key p = k]) h"
        using less.prems by simp
    qed
    from less.hyps [OF smaller keys] show ?thesis
      using less.prems run_split [of ps h ?k] run_split [of qs h ?k] by simp
  qed simp
qed


text \<open>One name: the state of the fold has the effect of the operations folded into it.\<close>

definition key_inv :: "string \<Rightarrow> HeaderOp list \<Rightarrow> keyState \<Rightarrow> bool" where
  "key_inv k ps s \<longleftrightarrow>
     ToLower (ks_name s) = k \<and>
     (\<forall>p\<in>set (ks_ops s). op_key p = k \<and> op_Kind p \<noteq> HeaderRemove) \<and>
     (ks_removed s \<longrightarrow> ks_ops s = [] \<and> \<not> ks_removeFirst s) \<and>
     (\<forall>h. run (emit_key s) h = run ps h)"

lemma key_inv_run: "key_inv k ps s \<Longrightarrow> run (emit_key s) h = run ps h"
  by (simp add: key_inv_def)

lemma run_absorb:
  "\<forall>p\<in>set ps. op_key p = op_key q \<Longrightarrow> op_Kind q \<noteq> HeaderAdd \<Longrightarrow> exec q (run ps h) = exec q h"
  by (induction ps arbitrary: h) (auto simp: exec_absorb)

lemma fold_kind_inv:
  assumes inv: "key_inv k ps s" and ps: "\<forall>p\<in>set ps. op_key p = k" and q: "op_key q = k"
  shows "key_inv k (ps @ [q]) (fold_kind q s)"
proof (cases "op_Kind q")
  case HeaderSet
  then have "exec q (run ps h) = exec q h" for h
    using ps q by (intro run_absorb) auto
  with HeaderSet inv q show ?thesis
    by (simp add: key_inv_def fold_kind_def emit_key_def)
next
  case HeaderAdd
  have "run (emit_key (fold_kind q s)) h = exec q (run (emit_key s) h)" for h
    using inv HeaderAdd
    by (cases "ks_removed s"; cases "ks_removeFirst s") (simp_all add: key_inv_def fold_kind_def emit_key_def)
  then have "run (emit_key (fold_kind q s)) h = run (ps @ [q]) h" for h
    using inv by (simp add: key_inv_def)
  with HeaderAdd inv q show ?thesis
    unfolding key_inv_def by (auto simp: fold_kind_def)
next
  case HeaderRemove
  then have "exec q (run ps h) = exec q h" for h
    using ps q by (intro run_absorb) auto
  moreover have "exec q = exec (remove_op (ks_name s))"
    using inv q HeaderRemove by (intro exec_remove) (auto simp: key_inv_def remove_op_def)
  ultimately show ?thesis
    using HeaderRemove inv by (simp add: key_inv_def fold_kind_def emit_key_def)
qed

definition fold_inv :: "HeaderOp list \<Rightarrow> foldState \<Rightarrow> bool" where
  "fold_inv ps st \<longleftrightarrow>
     distinct (snd st) \<and> (\<forall>k. k \<in> set (snd st) \<longleftrightarrow> fst st k \<noteq> None) \<and>
     (\<forall>k. case fst st k of
            None \<Rightarrow> [p \<leftarrow> ps. op_key p = k] = []
          | Some s \<Rightarrow> key_inv k ([p \<leftarrow> ps. op_key p = k]) s)"

lemma fold_inv_key:
  "fold_inv ps (states, order) \<Longrightarrow>
     (case states k of
        None \<Rightarrow> [p \<leftarrow> ps. op_key p = k] = []
      | Some s \<Rightarrow> key_inv k ([p \<leftarrow> ps. op_key p = k]) s)"
  by (simp add: fold_inv_def)

lemma fold_op_inv:
  assumes "fold_inv ps (states, order)"
  shows "fold_inv (ps @ [q]) (fold_op (states, order) q)"
proof -
  let ?k = "op_key q"
  define s where "s = (case states ?k of
      None \<Rightarrow> \<lparr>ks_name = op_Name q, ks_ops = [], ks_removed = False, ks_removeFirst = False\<rparr>
    | Some s \<Rightarrow> s)"
  have "key_inv ?k ([p \<leftarrow> ps. op_key p = ?k]) s"
  proof (cases "states ?k")
    case None
    with fold_inv_key [OF assms, of ?k] have "[p \<leftarrow> ps. op_key p = ?k] = []"
      by (simp only: option.case)
    then show ?thesis
      unfolding s_def None by (simp only: option.case) (simp add: key_inv_def emit_key_def)
  next
    case (Some t)
    with fold_inv_key [OF assms, of ?k] show ?thesis
      by (simp only: s_def option.case)
  qed
  then have "key_inv ?k ([p \<leftarrow> ps. op_key p = ?k] @ [q]) (fold_kind q s)"
    by (rule fold_kind_inv) auto
  then have new: "key_inv ?k ([p \<leftarrow> ps @ [q]. op_key p = ?k]) (fold_kind q s)"
    by (simp only: filter_append filter.simps simp_thms if_True)
  have step: "fold_op (states, order) q =
      (states(?k \<mapsto> fold_kind q s), if states ?k = None then order @ [?k] else order)"
    by (cases "states ?k") (simp_all add: s_def Let_def)
  have keys: "distinct order" "k \<in> set order \<longleftrightarrow> states k \<noteq> None" for k
    using assms by (simp_all add: fold_inv_def)
  have "case (states(?k \<mapsto> fold_kind q s)) k of
      None \<Rightarrow> [p \<leftarrow> ps @ [q]. op_key p = k] = []
    | Some s \<Rightarrow> key_inv k ([p \<leftarrow> ps @ [q]. op_key p = k]) s" for k
  proof (cases "k = ?k")
    case True
    with new show ?thesis
      by (simp only: fun_upd_same option.case)
  next
    case False
    then have "[p \<leftarrow> ps @ [q]. op_key p = k] = [p \<leftarrow> ps. op_key p = k]"
      by simp
    with False fold_inv_key [OF assms, of k] show ?thesis
      by (simp only: fun_upd_other not_False_eq_True)
  qed
  then show ?thesis
    unfolding fold_inv_def step fst_conv snd_conv
    using keys by (auto simp del: filter_append)
qed

lemma fold_ops_inv: "fold_inv ps st \<Longrightarrow> fold_inv (ps @ qs) (foldl fold_op st qs)"
proof (induction qs arbitrary: ps st)
  case (Cons q qs)
  obtain states order where st: "st = (states, order)"
    by (cases st)
  from Cons.IH [OF fold_op_inv [OF Cons.prems [unfolded st], of q]] show ?case
    by (simp only: st foldl_Cons append_assoc append_Cons append_Nil)
qed simp

lemma emit_key_order:
  assumes "key_inv k ps s"
  shows "message_order (emit_key s) = emit_key s" and "\<forall>p\<in>set (emit_key s). op_key p = k"
  using assms
  by (auto simp: key_inv_def emit_key_def message_order_def remove_op_def filter_empty_conv
      intro!: filter_True)

text \<open>The folded message has the effect of every operation in execution order.\<close>

lemma run_fold_ops: "run (message_order (fold_ops muts)) h = run (concat (map mut_HeaderOps muts)) h"
proof (rule run_by_key, intro allI)
  fix k h
  let ?ops = "concat (map mut_HeaderOps muts)"
  obtain states order where st: "fold_states muts = (states, order)"
    by (cases "fold_states muts")
  have "fold_inv [] (Map.empty, [])"
    by (simp add: fold_inv_def)
  from fold_ops_inv [OF this, of ?ops] have inv: "fold_inv ?ops (states, order)"
    by (simp only: fold_states_foldl st [symmetric] append_Nil)
  let ?emit = "\<lambda>k. case states k of None \<Rightarrow> [] | Some s \<Rightarrow> emit_key s"
  have keys: "\<forall>p\<in>set (?emit k'). op_key p = k'" for k'
    using fold_inv_key [OF inv, of k'] emit_key_order(2) by (cases "states k'") auto
  have emit: "[p \<leftarrow> fold_ops muts. op_key p = k] = ?emit k"
    using inv filter_concat_key [OF keys, of order k]
    by (auto simp: fold_ops_def st fold_inv_def split: option.split)
  show "run ([p \<leftarrow> message_order (fold_ops muts). op_key p = k]) h = run ([p \<leftarrow> ?ops. op_key p = k]) h"
    unfolding filter_message_order emit
    using fold_inv_key [OF inv, of k]
    by (cases "states k") (simp_all add: emit_key_order key_inv_run)
qed

end

text \<open>The proxy's header map: the values of each lower-case name, in order.\<close>

definition envoy_exec :: "HeaderOp \<Rightarrow> (string \<Rightarrow> string list) \<Rightarrow> (string \<Rightarrow> string list)" where
  "envoy_exec p h =
     (case op_Kind p of
        HeaderSet \<Rightarrow> h(op_key p := [op_Value p])
      | HeaderAdd \<Rightarrow> h(op_key p := h (op_key p) @ [op_Value p])
      | HeaderRemove \<Rightarrow> h(op_key p := []))"

interpretation envoy: header_store envoy_exec
  by unfold_locales (auto simp: envoy_exec_def fun_eq_iff split: HeaderOpKind.splits)

subsection \<open>Routes\<close>

definition routes :: "Mutation list \<Rightarrow> RouteMutation list" where
  "routes muts = concat (map (\<lambda>m. case mut_Route m of None \<Rightarrow> [] | Some r \<Rightarrow> [r]) muts)"

definition routes_agree :: "RouteMutation list \<Rightarrow> bool" where
  "routes_agree rs \<longleftrightarrow>
     (\<forall>r\<in>set rs. Route_Validate (Some r) = None) \<and>
     (\<forall>r\<in>set rs. \<forall>q\<in>set rs. rt_Upstream r \<noteq> None \<longrightarrow> rt_Upstream q \<noteq> None \<longrightarrow> rt_Upstream r = rt_Upstream q)"

definition route_union :: "RouteMutation list \<Rightarrow> RouteMutation option" where
  "route_union rs =
     (if rs = [] then None
      else Some \<lparr>rt_Upstream = (case [r \<leftarrow> rs. rt_Upstream r \<noteq> None] of [] \<Rightarrow> None | r # _ \<Rightarrow> rt_Upstream r),
                 rt_ClearCache = (\<exists>r\<in>set rs. rt_ClearCache r)\<rparr>)"

lemma foldRouteFrom_append:
  "foldRouteFrom r (xs @ ys) =
     (case foldRouteFrom r xs of Inl e \<Rightarrow> Inl e | Inr r' \<Rightarrow> foldRouteFrom r' ys)"
  by (induction r xs rule: foldRouteFrom.induct) (auto simp: Let_def split: option.splits)

lemma foldRouteFrom_untouched:
  "\<forall>m\<in>set ms. mut_Route m = None \<Longrightarrow> foldRouteFrom r ms = Inr r"
  by (induction ms) auto

text \<open>Extending a result by one route.\<close>

definition route_step :: "RouteMutation \<Rightarrow> RouteMutation \<Rightarrow> RouteMutation" where
  "route_step p r =
     \<lparr>rt_Upstream = (case rt_Upstream r of None \<Rightarrow> rt_Upstream p | Some u \<Rightarrow> Some u),
      rt_ClearCache = rt_ClearCache p \<or> rt_ClearCache r\<rparr>"

lemma route_eqI: "rt_Upstream a = rt_Upstream b \<Longrightarrow> rt_ClearCache a = rt_ClearCache b \<Longrightarrow> a = (b :: RouteMutation)"
  by (cases a; cases b) simp

lemma upstream_eq_iff: "up_Address u = up_Address v \<longleftrightarrow> u = (v :: UpstreamTarget)"
  by (cases u; cases v) simp

definition route_conflict :: "RouteMutation \<Rightarrow> RouteMutation \<Rightarrow> bool" where
  "route_conflict p r \<longleftrightarrow> rt_Upstream p \<noteq> None \<and> rt_Upstream r \<noteq> None \<and> rt_Upstream p \<noteq> rt_Upstream r"

lemma foldRouteFrom_step:
  assumes "mut_Route m = Some r"
  shows "foldRouteFrom (Some p) (m # ms) = Inr q \<longleftrightarrow>
     Route_Validate (Some r) = None \<and> \<not> route_conflict p r \<and>
     foldRouteFrom (Some (route_step p r)) ms = Inr q"
proof -
  have "route_step p r =
      (let c = p\<lparr>rt_ClearCache := rt_ClearCache p \<or> rt_ClearCache r\<rparr>
       in case rt_Upstream r of None \<Rightarrow> c | Some u \<Rightarrow> c\<lparr>rt_Upstream := Some u\<rparr>)"
    by (cases p) (auto simp: route_step_def split: option.splits)
  then show ?thesis
    using assms
    by (cases "rt_Upstream r"; cases "rt_Upstream p")
       (auto simp: Let_def route_conflict_def upstream_eq_iff split: option.splits)
qed

lemma route_step_agree:
  assumes "Route_Validate (Some p) = None" and "Route_Validate (Some r) = None" and "\<not> route_conflict p r"
  shows "Route_Validate (Some (route_step p r)) = None"
    and "routes_agree (route_step p r # rs) = routes_agree (p # r # rs)"
    and "route_union (route_step p r # rs) = route_union (p # r # rs)"
proof -
  show valid: "Route_Validate (Some (route_step p r)) = None"
    using assms by (auto simp: Route_Validate_def route_step_def split: option.splits)
  have up: "rt_Upstream (route_step p r) = (case rt_Upstream r of None \<Rightarrow> rt_Upstream p | Some u \<Rightarrow> Some u)"
    by (simp add: route_step_def)
  show "routes_agree (route_step p r # rs) = routes_agree (p # r # rs)"
    using assms valid
    by (cases "rt_Upstream r"; cases "rt_Upstream p")
       (simp_all add: routes_agree_def up route_conflict_def)
  show "route_union (route_step p r # rs) = route_union (p # r # rs)"
    using assms(3)
    by (cases "rt_Upstream r"; cases "rt_Upstream p")
       (simp_all add: route_union_def route_step_def route_conflict_def disj_assoc)
qed

lemma routes_agree_ConsD:
  "routes_agree (p # r # rs) \<Longrightarrow> Route_Validate (Some r) = None \<and> \<not> route_conflict p r"
  unfolding routes_agree_def route_conflict_def by (simp only: list.set) blast

lemma foldRouteFrom_iff:
  "Route_Validate (Some p) = None \<Longrightarrow>
   foldRouteFrom (Some p) ms = Inr q \<longleftrightarrow>
     routes_agree (p # routes ms) \<and> q = route_union (p # routes ms)"
proof (induction ms arbitrary: p)
  case Nil
  then show ?case
    by (cases p) (auto simp: routes_def routes_agree_def route_union_def)
next
  case (Cons m ms)
  show ?case
  proof (cases "mut_Route m")
    case None
    with Cons show ?thesis
      by (simp add: routes_def)
  next
    case (Some r)
    have rs: "routes (m # ms) = r # routes ms"
      using Some by (simp add: routes_def)
    show ?thesis
    proof (cases "Route_Validate (Some r) = None \<and> \<not> route_conflict p r")
      case True
      with Cons.IH [of "route_step p r"] Cons.prems Some show ?thesis
        by (simp only: foldRouteFrom_step rs route_step_agree simp_thms)
    next
      case False
      then have "\<not> routes_agree (p # r # routes ms)"
        using routes_agree_ConsD by blast
      with False show ?thesis
        by (simp only: foldRouteFrom_step [OF Some] rs) blast
    qed
  qed
qed

lemma foldRoute_iff:
  "foldRoute muts = Inr q \<longleftrightarrow> routes_agree (routes muts) \<and> q = route_union (routes muts)"
proof -
  let ?zero = "\<lparr>rt_Upstream = None, rt_ClearCache = False\<rparr>"
  have zero: "Route_Validate (Some ?zero) = None" "routes_agree (?zero # rs) = routes_agree rs"
    "rs \<noteq> [] \<Longrightarrow> route_union (?zero # rs) = route_union rs" for rs
    by (simp_all add: Route_Validate_def routes_agree_def route_union_def)
  show ?thesis
    unfolding foldRoute_def
  proof (induction muts)
    case Nil
    then show ?case
      by (auto simp: routes_def routes_agree_def route_union_def)
  next
    case (Cons m ms)
    show ?case
    proof (cases "mut_Route m")
      case None
      with Cons show ?thesis by (simp add: routes_def)
    next
      case (Some r)
      then have "foldRouteFrom None (m # ms) = foldRouteFrom (Some ?zero) (m # ms)"
        by (simp only: foldRouteFrom.simps option.case)
      moreover have "routes (m # ms) \<noteq> []"
        using Some by (simp add: routes_def)
      ultimately show ?thesis
        using foldRouteFrom_iff [OF zero(1), of "m # ms" q] zero(2,3) by simp
    qed
  qed
qed

text \<open>
  C16: folding the routing changes of a walk succeeds exactly when every one of them is valid
  and no two of them select different upstream targets; the result then is that target, if
  any was selected, with the cache-clear requests combined by disjunction, and no change at
  all when no mutation carried one.
\<close>

theorem foldRoute_outcome:
  "foldRoute muts = Inr q \<longleftrightarrow> routes_agree (routes muts) \<and> q = route_union (routes muts)"
  by (rule foldRoute_iff)

text \<open>The last replacement wins.\<close>

lemma foldl_last_Some:
  "foldl (\<lambda>b m. if f m \<noteq> None then f m else b) b ms =
     (case [m \<leftarrow> ms. f m \<noteq> None] of [] \<Rightarrow> b | xs \<Rightarrow> f (last xs))"
  by (induction ms arbitrary: b) (auto split: list.splits)

lemma lastBodyMutation_eq:
  "lastBodyMutation ms = (case [m \<leftarrow> ms. mut_Body m \<noteq> None] of [] \<Rightarrow> None | xs \<Rightarrow> mut_Body (last xs))"
  unfolding lastBodyMutation_def by (rule foldl_last_Some)

lemma lastStatusMutation_eq:
  "lastStatusMutation ms =
     (case [m \<leftarrow> ms. mut_StatusCode m \<noteq> None] of [] \<Rightarrow> None | xs \<Rightarrow> mut_StatusCode (last xs))"
  unfolding lastStatusMutation_def by (rule foldl_last_Some)

end
