(* ===== verification/Engine.thy ===== *)
theory Engine
  imports Mutation_Fold
begin

section \<open>The ordered engine: shared parts and the request direction\<close>

text \<open>
  \<open>extensions/epe/pkg/engine\<close>: \<open>eval.go\<close> up to \<open>EvalRequestBody\<close>, \<open>invoke.go\<close> and the
  observable part of \<open>metrics.go\<close>.  Every function that records into \<open>Stream.Info\<close> returns
  the stream with the updated record; a filter is shown the view the code builds, whose
  \<open>Info\<close> pointer is shared and therefore always current.  A contract violation is an
  \<open>EvalError\<close> returned beside the result, as in the code; a nil dereference of the metrics
  table is the error \<open>NilMetrics\<close>, and is shown not to happen for an engine built by
  \<open>NewEngine\<close>.  The evaluation budget and durations are not modelled.
\<close>

subsection \<open>Engine, cursors and pairs\<close>

record filterMetrics =
  fm_filter :: string
  fm_phase :: string

record regMetrics =
  rm_requestHeaders :: "filterMetrics option"
  rm_requestBody :: "filterMetrics option"
  rm_responseHeaders :: "filterMetrics option"
  rm_responseBody :: "filterMetrics option"

record ('c, 'f) Engine =
  eng_regs :: "('c, 'f) Registration list"
  eng_metrics :: "regMetrics list"

definition reg_metrics :: "('c, 'f) Registration \<Rightarrow> regMetrics" where
  "reg_metrics reg =
     \<lparr>rm_requestHeaders = (if reg_Phases reg AND PhaseRequestHeaders \<noteq> 0
        then Some \<lparr>fm_filter = reg_Name reg, fm_phase = ''request_headers''\<rparr> else None),
      rm_requestBody = (if reg_Phases reg AND PhaseRequestBody \<noteq> 0
        then Some \<lparr>fm_filter = reg_Name reg, fm_phase = ''body_finalize''\<rparr> else None),
      rm_responseHeaders = (if reg_Phases reg AND PhaseResponseHeaders \<noteq> 0
        then Some \<lparr>fm_filter = reg_Name reg, fm_phase = ''response_headers''\<rparr> else None),
      rm_responseBody = (if reg_Phases reg AND PhaseResponseBody \<noteq> 0
        then Some \<lparr>fm_filter = reg_Name reg, fm_phase = ''response_body''\<rparr> else None)\<rparr>"

definition buildMetrics :: "('c, 'f) Registration list \<Rightarrow> regMetrics list" where
  "buildMetrics regs = map reg_metrics regs"

definition NewEngine :: "('c, 'f) Registration list \<Rightarrow> ('c, 'f) Engine" where
  "NewEngine regs = \<lparr>eng_regs = regs, eng_metrics = buildMetrics regs\<rparr>"

record evalCursor =
  cur_unit :: nat
  cur_regIdx :: nat

definition cursor0 :: evalCursor where
  "cursor0 = \<lparr>cur_unit = 0, cur_regIdx = 0\<rparr>"

definition cursor_next :: "evalCursor \<Rightarrow> nat \<Rightarrow> evalCursor" where
  "cursor_next c numRegs =
     (let r = Suc (cur_regIdx c) in
      if r = numRegs then \<lparr>cur_unit = Suc (cur_unit c), cur_regIdx = 0\<rparr>
      else c\<lparr>cur_regIdx := r\<rparr>)"

record ('c, 'f) pair =
  p_at :: evalCursor
  p_reg :: "('c, 'f) Registration"
  p_unit :: "'c Unit"
  p_cfg :: "'c option"

text \<open>
  A configuration by index; \<open>validateUnits\<close> has established that the index is in range.
\<close>

definition cfg_at :: "'c Unit \<Rightarrow> nat \<Rightarrow> 'c option" where
  "cfg_at u i = (if i < length (unit_Cfgs u) then unit_Cfgs u ! i else None)"

definition pairAt :: "('c, 'f) Engine \<Rightarrow> 'c Unit list \<Rightarrow> evalCursor \<Rightarrow> ('c, 'f) pair" where
  "pairAt e units at =
     \<lparr>p_at = at, p_reg = eng_regs e ! cur_regIdx at, p_unit = units ! cur_unit at,
      p_cfg = cfg_at (units ! cur_unit at) (cur_regIdx at)\<rparr>"

text \<open>The pairs one unit contributes from a registration index on, then those of all units.\<close>

definition unit_pairs ::
  "('c, 'f) Engine \<Rightarrow> 'c Unit list \<Rightarrow> Phase \<Rightarrow> nat \<Rightarrow> nat \<Rightarrow> ('c, 'f) pair list" where
  "unit_pairs e units phases u regStart =
     concat (map (\<lambda>regIdx.
         let p = pairAt e units \<lparr>cur_unit = u, cur_regIdx = regIdx\<rparr> in
         if p_cfg p = None \<or> reg_Phases (p_reg p) AND phases = 0 then [] else [p])
       [regStart..<length (eng_regs e)])"

definition pairs ::
  "('c, 'f) Engine \<Rightarrow> 'c Unit list \<Rightarrow> evalCursor \<Rightarrow> Phase \<Rightarrow> ('c, 'f) pair list" where
  "pairs e units start phases =
     concat (map (\<lambda>u. unit_pairs e units phases u (if u = cur_unit start then cur_regIdx start else 0))
       [cur_unit start..<length units])"

record ResponseScope =
  rs_bounded :: bool
  rs_last :: evalCursor

definition ResponseScopeZero :: ResponseScope where
  "ResponseScopeZero = \<lparr>rs_bounded = False, rs_last = cursor0\<rparr>"

definition excludes :: "ResponseScope \<Rightarrow> nat \<Rightarrow> nat \<Rightarrow> bool" where
  "excludes s u regIdx =
     (if \<not> rs_bounded s then False
      else u > cur_unit (rs_last s) \<or> (u = cur_unit (rs_last s) \<and> regIdx > cur_regIdx (rs_last s)))"

subsection \<open>Errors and validation\<close>

datatype EvalError =
    ConfigCount UnitID nat nat
  | CannotOpenPhases string Phase
  | CannotFoldAction string ActionKind
  | NeedBodyWithoutRequestBody string
  | NeedBodyWithoutResponseBody string
  | NeedBodyFromBodyPhase string
  | InvalidRouteMutation string RouteError
  | UpstreamOutsideRequestHeaders string
  | ClearCacheAfterRequestHeaders string
  | ModifiesAfterRequestHeaders string string
  | StatusAsHeader string
  | StatusFromRequestPhase string
  | ClearCacheFromResponsePhase string
  | StatusOutOfRange string int
  | RouteFold FoldError
  | NilMetrics

fun validateUnits_from :: "nat \<Rightarrow> 'c Unit list \<Rightarrow> EvalError option" where
  "validateUnits_from n [] = None"
| "validateUnits_from n (u # us) =
     (if length (unit_Cfgs u) \<noteq> n then Some (ConfigCount (unit_ID u) (length (unit_Cfgs u)) n)
      else validateUnits_from n us)"

definition validateUnits :: "('c, 'f) Engine \<Rightarrow> 'c Unit list \<Rightarrow> EvalError option" where
  "validateUnits e units = validateUnits_from (length (eng_regs e)) units"

definition SubscribablePhases :: Phase where
  "SubscribablePhases = PhaseResponseHeaders"

definition pair_subscribes :: "('c, 'f) pair \<Rightarrow> ('c \<Rightarrow> Phase) \<Rightarrow> Phase" where
  "pair_subscribes p subscribes = subscribes (the (p_cfg p))"

fun subscriptions_of :: "Phase \<Rightarrow> ('c, 'f) pair list \<Rightarrow> EvalError + Phase" where
  "subscriptions_of acc [] = Inr acc"
| "subscriptions_of acc (p # ps) =
     (case reg_Subscribes (p_reg p) of
        None \<Rightarrow> subscriptions_of acc ps
      | Some f \<Rightarrow>
          let subscribes = pair_subscribes p f; surplus = and_not subscribes SubscribablePhases in
          if surplus \<noteq> 0 then Inl (CannotOpenPhases (reg_Name (p_reg p)) surplus)
          else subscriptions_of (acc OR subscribes) ps)"

definition ValidateSubscriptions :: "('c, 'f) Engine \<Rightarrow> 'c Unit list \<Rightarrow> EvalError + Phase" where
  "ValidateSubscriptions e units =
     (case validateUnits e units of
        Some err \<Rightarrow> Inl err
      | None \<Rightarrow> subscriptions_of 0 (pairs e units cursor0 DispatchedPhases))"

definition lateHeaders :: "string list" where
  "lateHeaders = [''host'', '':authority'', '':scheme'', '':method'']"

fun validate_ops :: "string \<Rightarrow> Phase \<Rightarrow> HeaderOp list \<Rightarrow> EvalError option" where
  "validate_ops name phase [] = None"
| "validate_ops name phase (p # ps) =
     (if phase = PhaseRequestBody \<and> ToLower (op_Name p) \<in> set lateHeaders
      then Some (ModifiesAfterRequestHeaders name (op_Name p))
      else if EqualFold (op_Name p) '':status'' then Some (StatusAsHeader name)
      else validate_ops name phase ps)"

definition clears_cache :: "Mutation \<Rightarrow> bool" where
  "clears_cache m = (case mut_Route m of None \<Rightarrow> False | Some r \<Rightarrow> rt_ClearCache r)"

definition selects_upstream :: "Mutation \<Rightarrow> bool" where
  "selects_upstream m = (case mut_Route m of None \<Rightarrow> False | Some r \<Rightarrow> rt_Upstream r \<noteq> None)"

definition validate_status :: "string \<Rightarrow> Phase \<Rightarrow> Mutation \<Rightarrow> EvalError option" where
  "validate_status name phase m =
     (if phase = PhaseRequestHeaders \<or> phase = PhaseRequestBody then
        (if mut_StatusCode m \<noteq> None then Some (StatusFromRequestPhase name) else None)
      else if phase = PhaseResponseHeaders \<or> phase = PhaseResponseBody then
        (if clears_cache m then Some (ClearCacheFromResponsePhase name)
         else case mut_StatusCode m of
                Some c \<Rightarrow> if c < 200 \<or> c > 599 then Some (StatusOutOfRange name c) else None
              | None \<Rightarrow> None)
      else None)"

definition validate_mutation :: "string \<Rightarrow> Phase \<Rightarrow> Mutation \<Rightarrow> EvalError option" where
  "validate_mutation name phase m =
     (case Route_Validate (mut_Route m) of
        Some e \<Rightarrow> Some (InvalidRouteMutation name e)
      | None \<Rightarrow>
          if selects_upstream m \<and> phase \<noteq> PhaseRequestHeaders then Some (UpstreamOutsideRequestHeaders name)
          else if phase = PhaseRequestBody \<and> clears_cache m then Some (ClearCacheAfterRequestHeaders name)
          else case validate_ops name phase (mut_HeaderOps m) of
                 Some e \<Rightarrow> Some e
               | None \<Rightarrow> validate_status name phase m)"

fun validate_mutations :: "string \<Rightarrow> Phase \<Rightarrow> Mutation list \<Rightarrow> EvalError option" where
  "validate_mutations name phase [] = None"
| "validate_mutations name phase (m # ms) =
     (case validate_mutation name phase m of Some e \<Rightarrow> Some e | None \<Rightarrow> validate_mutations name phase ms)"

definition validate_kind :: "('c, 'f) Registration \<Rightarrow> Phase \<Rightarrow> ActionKind \<Rightarrow> EvalError option" where
  "validate_kind reg phase kind =
     (if kind \<noteq> KindNeedBody then None
      else if phase = PhaseRequestHeaders then
        (if reg_Phases reg AND PhaseRequestBody = 0 then Some (NeedBodyWithoutRequestBody (reg_Name reg)) else None)
      else if phase = PhaseResponseHeaders then
        (if reg_Phases reg AND PhaseResponseBody = 0 then Some (NeedBodyWithoutResponseBody (reg_Name reg)) else None)
      else Some (NeedBodyFromBodyPhase (reg_Name reg)))"

definition validateAction :: "('c, 'f) Registration \<Rightarrow> Phase \<Rightarrow> Action \<Rightarrow> EvalError option" where
  "validateAction reg phase act =
     (case validate_kind reg phase (act_kind act) of
        Some e \<Rightarrow> Some e
      | None \<Rightarrow> validate_mutations (reg_Name reg) phase (act_mutations act))"

definition failurePolicy :: "('c, 'f) Registration \<Rightarrow> 'c option \<Rightarrow> FailurePolicy" where
  "failurePolicy reg cfg = (case reg_OnError reg of None \<Rightarrow> FailClosed | Some p \<Rightarrow> p cfg)"

definition failClosedDetails :: "Phase \<Rightarrow> string" where
  "failClosedDetails phase =
     (if phase = PhaseRequestHeaders then ''epe_request_headers_failed_closed''
      else if phase = PhaseRequestBody then ''epe_request_body_failed_closed''
      else if phase = PhaseResponseHeaders then ''epe_response_headers_failed_closed''
      else if phase = PhaseResponseBody then ''epe_response_body_failed_closed''
      else ''epe_filter_failed_closed'')"

subsection \<open>Invocation\<close>

datatype outcome = outcomeContinue | outcomeImmediate | outcomeMutate | outcomeNeedBody | outcomeError

fun outcome_String :: "outcome \<Rightarrow> string" where
  "outcome_String outcomeContinue = ''continue''"
| "outcome_String outcomeImmediate = ''immediate''"
| "outcome_String outcomeMutate = ''mutate''"
| "outcome_String outcomeNeedBody = ''record''"
| "outcome_String outcomeError = ''error''"

definition classifyOutcome :: "string + Action \<Rightarrow> outcome" where
  "classifyOutcome r =
     (case r of
        Inl err \<Rightarrow> outcomeError
      | Inr act \<Rightarrow>
        (case act_kind act of
           KindStop \<Rightarrow> outcomeImmediate
         | KindBypass \<Rightarrow> outcomeImmediate
         | KindNeedBody \<Rightarrow> outcomeNeedBody
         | KindContinue \<Rightarrow> if act_mutations act \<noteq> [] then outcomeMutate else outcomeContinue))"

text \<open>
  The accounting around one call whose answer is \<open>r\<close>: the answer is passed on unchanged.
\<close>

definition invoke ::
  "filterMetrics option \<Rightarrow> string + Action \<Rightarrow> 'c Stream \<Rightarrow> (EvalError + (string + Action)) \<times> 'c Stream" where
  "invoke m r st =
     (case m of
        None \<Rightarrow> (Inl NilMetrics, st)
      | Some fm \<Rightarrow>
          (Inr r, st\<lparr>st_Info := RecordFilter
             \<lparr>fr_Filter = fm_filter fm, fr_Phase = fm_phase fm, fr_Outcome = outcome_String (classifyOutcome r),
              fr_Err = (case r of Inl err \<Rightarrow> Some err | Inr _ \<Rightarrow> None)\<rparr> (st_Info st)\<rparr>))"

subsection \<open>Action walks\<close>

record 'c actionWalk =
  aw_st :: "'c Stream"
  aw_disposition :: Disposition
  aw_reply :: Reply
  aw_pending :: "Mutation list"

record ('c, 'f) requestBodyInvocation =
  rbi_at :: evalCursor
  rbi_f :: "('c, 'f) Filter"

record ('c, 'f) requestWalk = "'c actionWalk" +
  rw_scope :: ResponseScope
  rw_bodyFilters :: "('c, 'f) requestBodyInvocation list"
  rw_view :: "'c Stream option"
  rw_viewed :: nat
  rw_route :: "RouteMutation option"

record actionResult =
  ar_disposition :: Disposition
  ar_reply :: Reply
  ar_headerOps :: "HeaderOp list"
  ar_route :: "RouteMutation option"
  ar_body :: "bytes option"
  ar_statusCode :: "int option"

definition actionResultError :: actionResult where
  "actionResultError =
     \<lparr>ar_disposition = DispositionError, ar_reply = ReplyZero, ar_headerOps = [], ar_route = None,
      ar_body = None, ar_statusCode = None\<rparr>"

definition newActionWalk :: "'c Stream \<Rightarrow> 'c actionWalk" where
  "newActionWalk st =
     \<lparr>aw_st = st, aw_disposition = DispositionPassthrough, aw_reply = ReplyZero, aw_pending = []\<rparr>"

definition newRequestWalk :: "'c Stream \<Rightarrow> ('c, 'f) requestWalk" where
  "newRequestWalk st =
     actionWalk.extend (newActionWalk st)
       (requestWalk.fields ResponseScopeZero [] None 0 None)"

definition walk_record ::
  "('c, 'f) pair \<Rightarrow> UnitActionKind \<Rightarrow> ('c, 'z) actionWalk_scheme \<Rightarrow> ('c, 'z) actionWalk_scheme" where
  "walk_record p kind w =
     w\<lparr>aw_st := (aw_st w)\<lparr>st_Info :=
         RecordUnitAction (unit_ID (p_unit p)) (reg_Name (p_reg p)) kind (st_Info (aw_st w))\<rparr>\<rparr>"

definition resolved :: "('c, 'z) actionWalk_scheme \<Rightarrow> Disposition" where
  "resolved w =
     (if aw_disposition w = DispositionPassthrough \<and> aw_pending w \<noteq> [] then DispositionMutated
      else aw_disposition w)"

definition walk_result :: "('c, 'z) actionWalk_scheme \<Rightarrow> actionResult \<times> EvalError option" where
  "walk_result w =
     (case foldPending (aw_pending w) of
        Inl e \<Rightarrow> (actionResultError, Some (RouteFold e))
      | Inr (headerOps, route, body, statusCode) \<Rightarrow>
          (\<lparr>ar_disposition = resolved w, ar_reply = aw_reply w, ar_headerOps = headerOps, ar_route = route,
            ar_body = body, ar_statusCode = statusCode\<rparr>, None))"

definition halted :: "('c, 'z) actionWalk_scheme \<Rightarrow> bool" where
  "halted w \<longleftrightarrow> aw_disposition w \<in> {DispositionBlocked, DispositionBypassed, DispositionError}"

definition adopt ::
  "('c, 'z) actionWalk_scheme \<Rightarrow> ('c, 'y) actionWalk_scheme \<Rightarrow> ('c, 'z) actionWalk_scheme" where
  "adopt w remaining =
     w\<lparr>aw_st := aw_st remaining,
       aw_pending := (if aw_disposition remaining = DispositionBlocked then []
                      else aw_pending w @ aw_pending remaining),
       aw_disposition := aw_disposition remaining, aw_reply := aw_reply remaining\<rparr>"

definition filterFailed ::
  "('c, 'f) pair \<Rightarrow> Phase \<Rightarrow> string \<Rightarrow> ('c, 'z) actionWalk_scheme \<Rightarrow> ('c, 'z) actionWalk_scheme" where
  "filterFailed p phase err w =
     (if failurePolicy (p_reg p) (p_cfg p) = FailOpen then walk_record p ActionErrorOpen w
      else walk_record p ActionErrorClosed
        (w\<lparr>aw_pending := [], aw_disposition := DispositionBlocked,
           aw_reply := ReplyZero\<lparr>reply_Status := 500, reply_Details := failClosedDetails phase\<rparr>,
           aw_st := (aw_st w)\<lparr>st_Info := map_option (\<lambda>i. i\<lparr>si_Error := err\<rparr>) (st_Info (aw_st w))\<rparr>\<rparr>))"

definition apply_action ::
  "('c, 'f) pair \<Rightarrow> Action \<Rightarrow> ('c, 'z) actionWalk_scheme \<Rightarrow> EvalError option \<times> ('c, 'z) actionWalk_scheme" where
  "apply_action p act w =
     (case act_kind act of
        KindStop \<Rightarrow>
          (None, walk_record p ActionBlock
             (w\<lparr>aw_reply := act_reply act, aw_disposition := DispositionBlocked, aw_pending := []\<rparr>))
      | KindBypass \<Rightarrow> (None, walk_record p ActionBypass (w\<lparr>aw_disposition := DispositionBypassed\<rparr>))
      | KindContinue \<Rightarrow>
          (None, if act_mutations act \<noteq> []
                 then walk_record p ActionMutate (w\<lparr>aw_pending := aw_pending w @ act_mutations act\<rparr>)
                 else w)
      | KindNeedBody \<Rightarrow> (Some (CannotFoldAction (reg_Name (p_reg p)) KindNeedBody), w))"

definition apply_request ::
  "('c, 'f) pair \<Rightarrow> Action \<Rightarrow> ('c, 'f) requestWalk \<Rightarrow> EvalError option \<times> ('c, 'f) requestWalk" where
  "apply_request p act w =
     (case apply_action p act w of
        (Some e, w') \<Rightarrow> (Some e, w')
      | (None, w') \<Rightarrow>
          (None, if act_kind act = KindBypass
                 then w'\<lparr>rw_scope := \<lparr>rs_bounded = True, rs_last = p_at p\<rparr>\<rparr> else w'))"

text \<open>What a loop does after one iteration.\<close>

datatype Control = Abort EvalError | Return | Next

definition control :: "('c, 'z) actionWalk_scheme \<Rightarrow> Control" where
  "control w = (if halted w then Return else Next)"

text \<open>
  What every loop does with the answer \<open>r\<close> of a callback: account for it, resolve a failure
  through the registration's policy, validate an action, and fold it with the walk's own
  \<open>apply\<close>, as the \<open>applier\<close> interface does.  The header loops intercept \<open>NeedBody\<close> with
  \<open>need\<close> before folding; the body ladder has nothing to intercept.
\<close>

type_synonym ('c, 'f, 'w) applier = "('c, 'f) pair \<Rightarrow> Action \<Rightarrow> 'w \<Rightarrow> EvalError option \<times> 'w"

definition fold_answer ::
  "('c, 'f, 'w) applier \<Rightarrow> ('w \<Rightarrow> Control) \<Rightarrow> ('c, 'f) pair \<Rightarrow> Action \<Rightarrow> 'w \<Rightarrow> Control \<times> 'w" where
  "fold_answer app ctl p act w =
     (case app p act w of
        (Some e, w') \<Rightarrow> (Abort e, w')
      | (None, w') \<Rightarrow> (ctl w', w'))"

definition settle ::
  "('c, 'f, ('c, 'z) actionWalk_scheme) applier \<Rightarrow>
   (Action \<Rightarrow> ('c, 'z) actionWalk_scheme \<Rightarrow> Control \<times> ('c, 'z) actionWalk_scheme) \<Rightarrow>
   ('c, 'f) pair \<Rightarrow> Phase \<Rightarrow> filterMetrics option \<Rightarrow> string + Action \<Rightarrow>
   ('c, 'z) actionWalk_scheme \<Rightarrow> Control \<times> ('c, 'z) actionWalk_scheme" where
  "settle app need p phase m r w =
     (case invoke m r (aw_st w) of
        (Inl panic, st) \<Rightarrow> (Abort panic, w)
      | (Inr (Inl err), st) \<Rightarrow>
          let w' = filterFailed p phase err (w\<lparr>aw_st := st\<rparr>) in (control w', w')
      | (Inr (Inr act), st) \<Rightarrow>
          (case validateAction (p_reg p) phase act of
             Some e \<Rightarrow> (Abort e, w\<lparr>aw_st := st\<rparr>)
           | None \<Rightarrow>
               if act_kind act = KindNeedBody then need act (w\<lparr>aw_st := st\<rparr>)
               else fold_answer app control p act (w\<lparr>aw_st := st\<rparr>)))"

definition invokeBody ::
  "('c, 'f, ('c, 'z) actionWalk_scheme) applier \<Rightarrow> ('c, 'f) pair \<Rightarrow> Phase \<Rightarrow> filterMetrics option \<Rightarrow>
   string + Action \<Rightarrow> ('c, 'z) actionWalk_scheme \<Rightarrow> Control \<times> ('c, 'z) actionWalk_scheme" where
  "invokeBody app p phase m r w = settle app (fold_answer app control p) p phase m r w"

subsection \<open>The request-header walk\<close>

definition pair_new :: "('c, 'f) pair \<Rightarrow> ('c, 'f) Filter" where
  "pair_new p =
     reg_New (p_reg p) \<lparr>rc_ID = unit_ID (p_unit p), rc_Cfg = the (p_cfg p), rc_Scope = unit_Scope (p_unit p)\<rparr>"

definition routed :: "RouteMutation option \<Rightarrow> 'c Stream \<Rightarrow> 'c Stream" where
  "routed route st =
     (case route of
        Some r \<Rightarrow> (case rt_Upstream r of Some u \<Rightarrow> st\<lparr>st_Upstream := Some u\<rparr> | None \<Rightarrow> st)
      | None \<Rightarrow> st)"

text \<open>
  The cached view is rebuilt when there is none or when a mutation appended since the last
  call carries a route, which is when \<open>foldRouteFrom\<close> returns a fresh pointer.
\<close>

definition streamView ::
  "('c, 'f) requestWalk \<Rightarrow> FoldError + ('c Stream \<times> ('c, 'f) requestWalk)" where
  "streamView w =
     (let fresh = drop (rw_viewed w) (aw_pending w) in
      case foldRouteFrom (rw_route w) fresh of
        Inl e \<Rightarrow> Inl e
      | Inr route \<Rightarrow>
          let w1 = w\<lparr>rw_viewed := length (aw_pending w)\<rparr>;
              w2 = (if rw_view w = None \<or> list_ex (\<lambda>m. mut_Route m \<noteq> None) fresh
                    then w1\<lparr>rw_view := Some (routed route (aw_st w)), rw_route := route\<rparr> else w1)
          in Inr (the (rw_view w2), w2))"

definition need_request_body ::
  "('c, 'f) pair \<Rightarrow> ('c, 'f) Filter \<Rightarrow> Action \<Rightarrow> ('c, 'f) requestWalk \<Rightarrow> Control \<times> ('c, 'f) requestWalk" where
  "need_request_body p f act w =
     (Next, walk_record p ActionNeedBody
        (w\<lparr>aw_pending := aw_pending w @ act_mutations act,
           rw_bodyFilters := rw_bodyFilters w @ [\<lparr>rbi_at = p_at p, rbi_f = f\<rparr>]\<rparr>))"

definition request_pair ::
  "('c, 'f) Engine \<Rightarrow> ('c, 'f) pair \<Rightarrow> ('c, 'f) requestWalk \<Rightarrow> Control \<times> ('c, 'f) requestWalk" where
  "request_pair e p w =
     (case streamView w of
        Inl err \<Rightarrow> (Abort (RouteFold err), w)
      | Inr (view, w1) \<Rightarrow>
        (case call_request_headers (pair_new p) (view\<lparr>st_Info := st_Info (aw_st w1)\<rparr>) of (r, f) \<Rightarrow>
           settle apply_request (need_request_body p f) p PhaseRequestHeaders
             (rm_requestHeaders (eng_metrics e ! cur_regIdx (p_at p))) r w1))"

fun walk_loop :: "('p \<Rightarrow> 'w \<Rightarrow> Control \<times> 'w) \<Rightarrow> 'p list \<Rightarrow> 'w \<Rightarrow> EvalError option \<times> 'w" where
  "walk_loop step [] w = (None, w)"
| "walk_loop step (p # ps) w =
     (case step p w of
        (Abort e, w') \<Rightarrow> (Some e, w')
      | (Return, w') \<Rightarrow> (None, w')
      | (Next, w') \<Rightarrow> walk_loop step ps w')"

definition walkRequest ::
  "('c, 'f) Engine \<Rightarrow> 'c Stream \<Rightarrow> 'c Unit list \<Rightarrow> EvalError option \<times> ('c, 'f) requestWalk" where
  "walkRequest e st units =
     walk_loop (request_pair e) (pairs e units cursor0 PhaseRequestHeaders) (newRequestWalk st)"

subsection \<open>Request evaluation\<close>

record ('c, 'f) RequestHeadersResult =
  rhr_Disposition :: Disposition
  rhr_Reply :: Reply
  rhr_HeaderOps :: "HeaderOp list"
  rhr_Route :: "RouteMutation option"
  rhr_Body :: "bytes option"
  rhr_ResponseScope :: ResponseScope
  rhr_bodyFilters :: "('c, 'f) requestBodyInvocation list"
  rhr_units :: "'c Unit list"
  rhr_pending :: "Mutation list"

record RequestBodyResult =
  rbr_Disposition :: Disposition
  rbr_Reply :: Reply
  rbr_HeaderOps :: "HeaderOp list"
  rbr_Route :: "RouteMutation option"
  rbr_Body :: "bytes option"
  rbr_ResponseScope :: ResponseScope

definition RequestHeadersResultZero :: "('c, 'f) RequestHeadersResult" where
  "RequestHeadersResultZero =
     \<lparr>rhr_Disposition = DispositionPassthrough, rhr_Reply = ReplyZero, rhr_HeaderOps = [], rhr_Route = None,
      rhr_Body = None, rhr_ResponseScope = ResponseScopeZero, rhr_bodyFilters = [], rhr_units = [],
      rhr_pending = []\<rparr>"

definition RequestBodyResultZero :: RequestBodyResult where
  "RequestBodyResultZero =
     \<lparr>rbr_Disposition = DispositionPassthrough, rbr_Reply = ReplyZero, rbr_HeaderOps = [], rbr_Route = None,
      rbr_Body = None, rbr_ResponseScope = ResponseScopeZero\<rparr>"

definition request_NeedsBody :: "('c, 'f) RequestHeadersResult \<Rightarrow> bool" where
  "request_NeedsBody r \<longleftrightarrow> rhr_Disposition r \<noteq> DispositionBlocked \<and> rhr_bodyFilters r \<noteq> []"

definition HeadersResult :: "RequestBodyResult \<Rightarrow> ('c, 'f) RequestHeadersResult" where
  "HeadersResult r =
     RequestHeadersResultZero\<lparr>rhr_Disposition := rbr_Disposition r, rhr_Reply := rbr_Reply r,
       rhr_HeaderOps := rbr_HeaderOps r, rhr_Route := rbr_Route r, rhr_Body := rbr_Body r,
       rhr_ResponseScope := rbr_ResponseScope r\<rparr>"

text \<open>One registered body callback; the callback is shown the view taken when the phase began.\<close>

definition request_body_invocation ::
  "('c, 'f) Engine \<Rightarrow> 'c Unit list \<Rightarrow> 'c Stream \<Rightarrow> Body \<Rightarrow> ('c, 'f) requestBodyInvocation \<Rightarrow>
   ('c, 'f) requestWalk \<Rightarrow> Control \<times> ('c, 'f) requestWalk" where
  "request_body_invocation e units view body invocation w =
     (let p = pairAt e units (rbi_at invocation) in
      invokeBody apply_request p PhaseRequestBody
        (rm_requestBody (eng_metrics e ! cur_regIdx (p_at p)))
        (fst (call_request_body (rbi_f invocation) (view\<lparr>st_Info := st_Info (aw_st w)\<rparr>) body)) w)"

definition EvalRequestBody ::
  "('c, 'f) Engine \<Rightarrow> 'c Stream \<Rightarrow> ('c, 'f) RequestHeadersResult option \<Rightarrow> Body \<Rightarrow>
   RequestBodyResult \<times> EvalError option \<times> 'c Stream" where
  "EvalRequestBody e st prior body =
     (case prior of
        None \<Rightarrow> (RequestBodyResultZero, None, st)
      | Some prior \<Rightarrow>
          if \<not> request_NeedsBody prior then (RequestBodyResultZero, None, st)
          else
            let walk = (newRequestWalk st)\<lparr>rw_scope := rhr_ResponseScope prior, aw_pending := rhr_pending prior\<rparr>;
                view = routed (rhr_Route prior) st
            in case walk_loop (request_body_invocation e (rhr_units prior) view body) (rhr_bodyFilters prior) walk of
                 (err, w) \<Rightarrow>
                   let w' = (if \<not> halted w \<and> rhr_Disposition prior = DispositionBypassed
                             then w\<lparr>aw_disposition := DispositionBypassed\<rparr> else w)
                   in case walk_result w' of (reduced, routeErr) \<Rightarrow>
                     (\<lparr>rbr_Disposition = ar_disposition reduced, rbr_Reply = ar_reply reduced,
                       rbr_HeaderOps = ar_headerOps reduced,
                       rbr_Route = (if ar_disposition reduced \<noteq> DispositionBlocked \<and> rhr_Route prior \<noteq> None
                                    then rhr_Route prior else ar_route reduced),
                       rbr_Body = ar_body reduced, rbr_ResponseScope = rw_scope w'\<rparr>,
                      (case err of None \<Rightarrow> routeErr | Some e \<Rightarrow> Some e), aw_st w'))"

definition EvalRequestHeaders ::
  "('c, 'f) Engine \<Rightarrow> 'c Stream \<Rightarrow> 'c Unit list \<Rightarrow> Body option \<Rightarrow>
   ('c, 'f) RequestHeadersResult \<times> EvalError option \<times> 'c Stream" where
  "EvalRequestHeaders e st units body =
     (case validateUnits e units of
        Some err \<Rightarrow> (RequestHeadersResultZero, Some err, st)
      | None \<Rightarrow>
        (case walkRequest e st units of (walkErr, walk) \<Rightarrow>
         (case walk_result walk of (reduced, routeErr) \<Rightarrow>
            let err = (case walkErr of None \<Rightarrow> routeErr | Some e \<Rightarrow> Some e);
                res = \<lparr>rhr_Disposition = ar_disposition reduced, rhr_Reply = ar_reply reduced,
                       rhr_HeaderOps = ar_headerOps reduced, rhr_Route = ar_route reduced,
                       rhr_Body = ar_body reduced, rhr_ResponseScope = rw_scope walk,
                       rhr_bodyFilters = rw_bodyFilters walk, rhr_units = units,
                       rhr_pending = aw_pending walk\<rparr>
            in case body of
                 Some b \<Rightarrow>
                   if err = None \<and> request_NeedsBody res
                   then (case EvalRequestBody e (aw_st walk) (Some res) b of
                           (br, bodyErr, st') \<Rightarrow> (HeadersResult br, bodyErr, st'))
                   else (res, err, aw_st walk)
               | None \<Rightarrow> (res, err, aw_st walk))))"

end
