(* ===== verification/Engine_Response.thy ===== *)
theory Engine_Response
  imports Engine
begin

section \<open>The ordered engine: the response direction\<close>

text \<open>
  The response half of \<open>eval.go\<close>: subscribed response-header callbacks in policy order,
  within the scope a request-phase bypass left, pausing on \<open>NeedBody\<close> when the body has not
  arrived and resuming after the paused pair when it has.
\<close>

subsection \<open>Walks\<close>

record ('c, 'f) pausedInvocation =
  pi_f :: "('c, 'f) Filter"
  pi_at :: evalCursor

record ('c, 'f) responseContinuation =
  cont_units :: "'c Unit list"
  cont_paused :: "('c, 'f) pausedInvocation"
  cont_pending :: "Mutation list"
  cont_scope :: ResponseScope

record ('c, 'f) responseWalk = "'c actionWalk" +
  vw_needsBody :: bool
  vw_continuation :: "('c, 'f) responseContinuation option"

definition newResponseWalk :: "'c Stream \<Rightarrow> ('c, 'f) responseWalk" where
  "newResponseWalk st = actionWalk.extend (newActionWalk st) (responseWalk.fields False None)"

definition dispatched_response :: "ResponseScope \<Rightarrow> ('c, 'f) pair \<Rightarrow> bool" where
  "dispatched_response scope p \<longleftrightarrow>
     \<not> (excludes scope (cur_unit (p_at p)) (cur_regIdx (p_at p)) \<or>
        (case reg_Subscribes (p_reg p) of
           None \<Rightarrow> True
         | Some f \<Rightarrow> pair_subscribes p f AND PhaseResponseHeaders = 0))"

text \<open>\<open>NeedBody\<close> from response headers: pause, or run the body callback at once.\<close>

definition need_response_body ::
  "('c, 'f) Engine \<Rightarrow> 'c Unit list \<Rightarrow> ResponseScope \<Rightarrow> Body option \<Rightarrow> ('c, 'f) pair \<Rightarrow> ('c, 'f) Filter \<Rightarrow>
   Action \<Rightarrow> ('c, 'f) responseWalk \<Rightarrow> Control \<times> ('c, 'f) responseWalk" where
  "need_response_body e units scope body p f act w =
     (let w1 = walk_record p ActionNeedBody (w\<lparr>aw_pending := aw_pending w @ act_mutations act\<rparr>) in
      case body of
        None \<Rightarrow>
          (Return, w1\<lparr>vw_needsBody := True,
             vw_continuation := Some
               \<lparr>cont_units = units, cont_paused = \<lparr>pi_f = f, pi_at = p_at p\<rparr>,
                cont_pending = aw_pending w1, cont_scope = scope\<rparr>,
             aw_pending := []\<rparr>)
      | Some b \<Rightarrow>
          invokeBody apply_action p PhaseResponseBody
            (rm_responseBody (eng_metrics e ! cur_regIdx (p_at p)))
            (fst (call_response_body f (aw_st w1) b)) w1)"

definition response_pair ::
  "('c, 'f) Engine \<Rightarrow> 'c Unit list \<Rightarrow> ResponseScope \<Rightarrow> Body option \<Rightarrow> ('c, 'f) pair \<Rightarrow>
   ('c, 'f) responseWalk \<Rightarrow> Control \<times> ('c, 'f) responseWalk" where
  "response_pair e units scope body p w =
     (if \<not> dispatched_response scope p then (Next, w)
      else
       (case call_response_headers (pair_new p) (aw_st w) of (r, f) \<Rightarrow>
          settle apply_action (need_response_body e units scope body p f) p PhaseResponseHeaders
            (rm_responseHeaders (eng_metrics e ! cur_regIdx (p_at p))) r w))"

definition walkResponse ::
  "('c, 'f) Engine \<Rightarrow> 'c Stream \<Rightarrow> 'c Unit list \<Rightarrow> evalCursor \<Rightarrow> ResponseScope \<Rightarrow> Body option \<Rightarrow>
   EvalError option \<times> ('c, 'f) responseWalk" where
  "walkResponse e st units start scope body =
     walk_loop (response_pair e units scope body) (pairs e units start PhaseResponseHeaders) (newResponseWalk st)"

subsection \<open>Evaluation\<close>

record ('c, 'f) ResponseHeadersResult =
  phr_Disposition :: Disposition
  phr_Reply :: Reply
  phr_HeaderOps :: "HeaderOp list"
  phr_Body :: "bytes option"
  phr_StatusCode :: "int option"
  phr_needsBody :: bool
  phr_continuation :: "('c, 'f) responseContinuation option"

record ResponseBodyResult =
  pbr_Disposition :: Disposition
  pbr_Reply :: Reply
  pbr_HeaderOps :: "HeaderOp list"
  pbr_Body :: "bytes option"
  pbr_StatusCode :: "int option"

definition ResponseHeadersResultZero :: "('c, 'f) ResponseHeadersResult" where
  "ResponseHeadersResultZero =
     \<lparr>phr_Disposition = DispositionPassthrough, phr_Reply = ReplyZero, phr_HeaderOps = [], phr_Body = None,
      phr_StatusCode = None, phr_needsBody = False, phr_continuation = None\<rparr>"

definition ResponseBodyResultZero :: ResponseBodyResult where
  "ResponseBodyResultZero =
     \<lparr>pbr_Disposition = DispositionPassthrough, pbr_Reply = ReplyZero, pbr_HeaderOps = [], pbr_Body = None,
      pbr_StatusCode = None\<rparr>"

definition EvalResponseHeaders ::
  "('c, 'f) Engine \<Rightarrow> 'c Stream \<Rightarrow> 'c Unit list \<Rightarrow> ResponseScope \<Rightarrow> Body option \<Rightarrow>
   ('c, 'f) ResponseHeadersResult \<times> EvalError option \<times> 'c Stream" where
  "EvalResponseHeaders e st units scope body =
     (case ValidateSubscriptions e units of
        Inl err \<Rightarrow> (ResponseHeadersResultZero, Some err, st)
      | Inr subscriptions \<Rightarrow>
          if subscriptions AND PhaseResponseHeaders = 0 then (ResponseHeadersResultZero, None, st)
          else
            (case walkResponse e st units cursor0 scope body of (walkErr, walk) \<Rightarrow>
             (case walk_result walk of (reduced, routeErr) \<Rightarrow>
                (\<lparr>phr_Disposition = ar_disposition reduced, phr_Reply = ar_reply reduced,
                  phr_HeaderOps = ar_headerOps reduced, phr_Body = ar_body reduced,
                  phr_StatusCode = ar_statusCode reduced, phr_needsBody = vw_needsBody walk,
                  phr_continuation = vw_continuation walk\<rparr>,
                 (case walkErr of None \<Rightarrow> routeErr | Some e \<Rightarrow> Some e), aw_st walk))))"

definition resume_response ::
  "('c, 'f) Engine \<Rightarrow> 'c Stream \<Rightarrow> ('c, 'f) responseContinuation \<Rightarrow> Body \<Rightarrow>
   EvalError option \<times> ('c, 'f) responseWalk" where
  "resume_response e st cont body =
     (let paused = cont_paused cont; p = pairAt e (cont_units cont) (pi_at paused);
          walk = (newResponseWalk st)\<lparr>aw_pending := cont_pending cont\<rparr>
      in case invokeBody apply_action p PhaseResponseBody
                (rm_responseBody (eng_metrics e ! cur_regIdx (p_at p)))
                (fst (call_response_body (pi_f paused) st body)) walk of
           (Abort e, w) \<Rightarrow> (Some e, w)
         | (Return, w) \<Rightarrow> (None, w)
         | (Next, w) \<Rightarrow>
             (case walkResponse e (aw_st w) (cont_units cont)
                     (cursor_next (pi_at paused) (length (eng_regs e))) (cont_scope cont) (Some body) of
                (walkErr, remaining) \<Rightarrow> (walkErr, adopt w remaining)))"

definition EvalResponseBody ::
  "('c, 'f) Engine \<Rightarrow> 'c Stream \<Rightarrow> ('c, 'f) ResponseHeadersResult option \<Rightarrow> Body \<Rightarrow>
   ResponseBodyResult \<times> EvalError option \<times> 'c Stream" where
  "EvalResponseBody e st prior body =
     (case prior of
        None \<Rightarrow> (ResponseBodyResultZero, None, st)
      | Some prior \<Rightarrow>
        (case phr_continuation prior of
           None \<Rightarrow> (ResponseBodyResultZero, None, st)
         | Some cont \<Rightarrow>
           (case resume_response e st cont body of (walkErr, walk) \<Rightarrow>
            (case walk_result walk of (reduced, routeErr) \<Rightarrow>
               (\<lparr>pbr_Disposition = ar_disposition reduced, pbr_Reply = ar_reply reduced,
                 pbr_HeaderOps = ar_headerOps reduced, pbr_Body = ar_body reduced,
                 pbr_StatusCode = ar_statusCode reduced\<rparr>,
                (case walkErr of None \<Rightarrow> routeErr | Some e \<Rightarrow> Some e), aw_st walk)))))"

end
