(* ===== verification/Engine_Invariants.thy ===== *)
theory Engine_Invariants
  imports Engine_Response "HOL-Library.Sublist"
begin

section \<open>What every evaluation keeps\<close>

text \<open>
  Invariants of the walks of both directions: a blocked walk carries no mutation, the audit
  record only grows, only accepted mutations become pending, and the metrics table is never
  dereferenced at a phase a filter did not declare.  The laws of the \<open>applier\<close> interface of
  the code are a locale, interpreted for the two \<open>apply\<close> methods, so that the body ladder is
  treated once for both directions.
\<close>

subsection \<open>Loops\<close>

text \<open>
  \<open>I\<close> holds while a loop runs, \<open>J\<close> also when an iteration ends it.
\<close>

definition step_keeps ::
  "('p \<Rightarrow> 'w \<Rightarrow> Control \<times> 'w) \<Rightarrow> 'p list \<Rightarrow> ('w \<Rightarrow> bool) \<Rightarrow> ('w \<Rightarrow> bool) \<Rightarrow> bool" where
  "step_keeps step ps I J \<longleftrightarrow>
     (\<forall>p\<in>set ps. \<forall>w c w'. I w \<longrightarrow> step p w = (c, w') \<longrightarrow> J w' \<and> (c = Next \<longrightarrow> I w'))"

lemma step_keepsI:
  "(\<And>p w c w'. p \<in> set ps \<Longrightarrow> I w \<Longrightarrow> step p w = (c, w') \<Longrightarrow> J w' \<and> (c = Next \<longrightarrow> I w')) \<Longrightarrow>
   step_keeps step ps I J"
  by (auto simp: step_keeps_def)

lemma step_keeps_Cons: "step_keeps step (p # ps) I J \<Longrightarrow> step_keeps step ps I J"
  unfolding step_keeps_def list.set by blast

lemma step_keepsD:
  "step_keeps step ps I J \<Longrightarrow> p \<in> set ps \<Longrightarrow> I w \<Longrightarrow> step p w = (c, w') \<Longrightarrow> J w' \<and> (c = Next \<longrightarrow> I w')"
  unfolding step_keeps_def by blast

lemma walk_loop_inv:
  assumes "walk_loop step ps w = (err, w')" and "step_keeps step ps I J" and "I w" and "J w"
  shows "J w'"
  using assms
proof (induction ps arbitrary: w)
  case (Cons p ps)
  obtain c w1 where step: "step p w = (c, w1)"
    by (cases "step p w")
  note kept = step_keepsD [OF Cons.prems(2) list.set_intros(1) Cons.prems(3) step]
    and rest = step_keeps_Cons [OF Cons.prems(2)]
  from kept rest Cons.prems(1,3) Cons.IH [of w1] step show ?case
    by (cases c) auto
qed simp

lemma walk_loop_error:
  assumes "walk_loop step ps w = (Some e, w')" and "step_keeps step ps I J" and "I w"
  shows "\<exists>p\<in>set ps. \<exists>w1. I w1 \<and> step p w1 = (Abort e, w')"
  using assms
proof (induction ps arbitrary: w)
  case (Cons p ps)
  obtain c w1 where step: "step p w = (c, w1)"
    by (cases "step p w")
  note kept = step_keepsD [OF Cons.prems(2) list.set_intros(1) Cons.prems(3) step]
    and rest = step_keeps_Cons [OF Cons.prems(2)]
  from kept rest Cons.prems(1,3) Cons.IH [of w1] step show ?case
    by (cases c) auto
qed simp

subsection \<open>Record lemmas\<close>

lemma walk_record_simps [simp]:
  "aw_disposition (walk_record p k w) = aw_disposition w"
  "aw_pending (walk_record p k w) = aw_pending w"
  "aw_reply (walk_record p k w) = aw_reply w"
  "actionWalk.more (walk_record p k w) = actionWalk.more w"
  "st_Info (aw_st (walk_record p k w)) = RecordUnitAction (unit_ID (p_unit p)) (reg_Name (p_reg p)) k (st_Info (aw_st w))"
  by (simp_all add: walk_record_def)

text \<open>The part of a stream no evaluation changes.\<close>

definition same_but_info :: "'c Stream \<Rightarrow> 'c Stream \<Rightarrow> bool" where
  "same_but_info st st' \<longleftrightarrow> st\<lparr>st_Info := None\<rparr> = st'\<lparr>st_Info := None\<rparr>"

lemma same_but_info_refl [simp]: "same_but_info st st"
  by (simp add: same_but_info_def)

lemma same_but_info_trans: "same_but_info a b \<Longrightarrow> same_but_info b c \<Longrightarrow> same_but_info a c"
  by (simp add: same_but_info_def)

lemma same_but_info_update [simp]:
  "same_but_info (a\<lparr>st_Info := i\<rparr>) b = same_but_info a b"
  "same_but_info a (b\<lparr>st_Info := i\<rparr>) = same_but_info a b"
  by (simp_all add: same_but_info_def)

text \<open>The audit record grows: earlier filter records stay, and there is one entry per unit.\<close>

definition info_ok :: "StreamInfo option \<Rightarrow> bool" where
  "info_ok i = (case i of None \<Rightarrow> True | Some i \<Rightarrow> distinct (map ur_ID (si_Matched i)))"

definition unit_le :: "UnitRecord list \<Rightarrow> UnitRecord list \<Rightarrow> bool" where
  "unit_le xs ys \<longleftrightarrow>
     length xs \<le> length ys \<and>
     (\<forall>i < length xs. ur_ID (ys ! i) = ur_ID (xs ! i) \<and> prefix (ur_FilterActions (xs ! i)) (ur_FilterActions (ys ! i)))"

definition info_le :: "StreamInfo option \<Rightarrow> StreamInfo option \<Rightarrow> bool" where
  "info_le i j =
     (case (i, j) of
        (None, None) \<Rightarrow> True
      | (Some a, Some b) \<Rightarrow> prefix (si_Filters a) (si_Filters b) \<and> unit_le (si_Matched a) (si_Matched b) \<and>
          si_Authorization b = si_Authorization a \<and> si_Outcome b = si_Outcome a
      | _ \<Rightarrow> False)"

lemma unit_le_refl [simp]: "unit_le xs xs"
  by (simp add: unit_le_def)

lemma unit_le_trans: "unit_le xs ys \<Longrightarrow> unit_le ys zs \<Longrightarrow> unit_le xs zs"
  by (auto simp: unit_le_def) (meson order_less_le_trans prefix_order.trans)

lemma info_le_refl [simp]: "info_le i i"
  by (simp add: info_le_def split: option.splits)

lemma info_le_trans: "info_le i j \<Longrightarrow> info_le j k \<Longrightarrow> info_le i k"
  by (auto simp: info_le_def split: option.splits intro: unit_le_trans prefix_order.trans)

lemma record_action_unit_le: "unit_le xs (record_action uid a xs)"
proof (induction xs)
  case (Cons x xs)
  then show ?case
    by (auto simp: unit_le_def nth_Cons split: nat.splits)
qed (simp add: unit_le_def)

lemma record_action_ids:
  "map ur_ID (record_action uid a xs) =
     (if uid \<in> ur_ID ` set xs then map ur_ID xs else map ur_ID xs @ [uid])"
  by (induction xs) auto

lemma RecordUnitAction_info [intro, simp]:
  "info_ok i \<Longrightarrow> info_ok (RecordUnitAction uid name k i)"
  "info_le i (RecordUnitAction uid name k i)"
  by (auto simp: info_ok_def info_le_def RecordUnitAction_def record_action_ids record_action_unit_le
      split: option.splits)

lemma RecordFilter_info [intro, simp]:
  "info_ok i \<Longrightarrow> info_ok (RecordFilter r i)" "info_le i (RecordFilter r i)"
  by (auto simp: info_ok_def info_le_def RecordFilter_def split: option.splits)

lemma error_info [simp]:
  "info_ok (map_option (\<lambda>i. i\<lparr>si_Error := e\<rparr>) i) = info_ok i"
  "info_le i (map_option (\<lambda>i. i\<lparr>si_Error := e\<rparr>) i)"
  by (auto simp: info_ok_def info_le_def split: option.splits)

subsection \<open>Accepted mutations\<close>

definition mut_ok :: "Phase \<Rightarrow> Mutation \<Rightarrow> bool" where
  "mut_ok phase m \<longleftrightarrow>
     Route_Validate (mut_Route m) = None \<and>
     (phase \<noteq> PhaseRequestHeaders \<longrightarrow> \<not> selects_upstream m) \<and>
     (phase = PhaseRequestBody \<longrightarrow> \<not> clears_cache m) \<and>
     (\<forall>p\<in>set (mut_HeaderOps m).
        (phase = PhaseRequestBody \<longrightarrow> op_key p \<notin> set lateHeaders) \<and> \<not> EqualFold (op_Name p) '':status'') \<and>
     validate_status [] phase m = None"

lemma validate_ops_None:
  "validate_ops name phase ps = None \<longleftrightarrow>
     (\<forall>p\<in>set ps. (phase = PhaseRequestBody \<longrightarrow> op_key p \<notin> set lateHeaders) \<and> \<not> EqualFold (op_Name p) '':status'')"
  by (induction ps) auto

lemma validate_status_name: "validate_status name phase m = None \<longleftrightarrow> validate_status name' phase m = None"
  by (cases "mut_StatusCode m") (simp_all add: validate_status_def)

lemma validate_mutation_None: "validate_mutation name phase m = None \<longleftrightarrow> mut_ok phase m"
proof -
  have "validate_mutation name phase m = None \<longleftrightarrow>
      Route_Validate (mut_Route m) = None \<and> (phase \<noteq> PhaseRequestHeaders \<longrightarrow> \<not> selects_upstream m) \<and>
      (phase = PhaseRequestBody \<longrightarrow> \<not> clears_cache m) \<and>
      validate_ops name phase (mut_HeaderOps m) = None \<and> validate_status name phase m = None"
    unfolding validate_mutation_def
    by (cases "Route_Validate (mut_Route m)"; cases "validate_ops name phase (mut_HeaderOps m)") auto
  then show ?thesis
    by (simp only: mut_ok_def validate_ops_None validate_status_name [of name phase m "[]"])
qed

lemma validate_mutations_None:
  "validate_mutations name phase ms = None \<longleftrightarrow> list_all (mut_ok phase) ms"
proof (induction ms)
  case (Cons m ms)
  with validate_mutation_None [of name phase m] show ?case
    by (cases "validate_mutation name phase m") simp_all
qed simp

lemma validateAction_None:
  "validateAction reg phase act = None \<longleftrightarrow>
     validate_kind reg phase (act_kind act) = None \<and> list_all (mut_ok phase) (act_mutations act)"
  by (auto simp: validateAction_def validate_mutations_None split: option.splits)

lemma validate_ops_no_panic: "validate_ops name phase ps \<noteq> Some NilMetrics"
  by (induction ps) auto

lemma validate_mutations_no_panic: "validate_mutations name phase ms \<noteq> Some NilMetrics"
proof (induction ms)
  case (Cons m ms)
  have "validate_mutation name phase m \<noteq> Some NilMetrics"
    using validate_ops_no_panic
    by (auto simp: validate_mutation_def validate_status_def split: option.splits)
  with Cons show ?case
    by (auto split: option.splits)
qed simp

lemma validateAction_no_panic: "validateAction reg phase act \<noteq> Some NilMetrics"
  using validate_mutations_no_panic by (auto simp: validateAction_def validate_kind_def split: option.splits)

subsection \<open>The invariant of a walk\<close>

definition stream_grows :: "'c Stream \<Rightarrow> 'c Stream \<Rightarrow> bool" where
  "stream_grows st st' \<longleftrightarrow>
     same_but_info st st' \<and> info_le (st_Info st) (st_Info st') \<and> (info_ok (st_Info st) \<longrightarrow> info_ok (st_Info st'))"

lemma stream_grows_refl [simp]: "stream_grows st st"
  by (simp add: stream_grows_def)

lemma stream_grows_trans: "stream_grows a b \<Longrightarrow> stream_grows b c \<Longrightarrow> stream_grows a c"
  by (auto simp: stream_grows_def intro: same_but_info_trans info_le_trans)

lemma stream_grows_info:
  "info_le (st_Info a) i \<Longrightarrow> (info_ok (st_Info a) \<Longrightarrow> info_ok i) \<Longrightarrow> stream_grows a (a\<lparr>st_Info := i\<rparr>)"
  by (simp add: stream_grows_def)

text \<open>
  A walk over a stream: only the record of the stream has grown, a block carries its reply
  and no mutation, and anything else carries no reply.
\<close>

definition walk_ok :: "'c Stream \<Rightarrow> ('c, 'z) actionWalk_scheme \<Rightarrow> bool" where
  "walk_ok st w \<longleftrightarrow>
     stream_grows st (aw_st w) \<and>
     aw_disposition w \<in> {DispositionPassthrough, DispositionBlocked, DispositionBypassed} \<and>
     (if aw_disposition w = DispositionBlocked then aw_pending w = [] else aw_reply w = ReplyZero)"

text \<open>
  The mutations pending at the end extend those pending at the start by mutations with a
  given property, unless the walk blocked.
\<close>

definition extends_by :: "(Mutation \<Rightarrow> bool) \<Rightarrow> Mutation list \<Rightarrow> ('c, 'z) actionWalk_scheme \<Rightarrow> bool" where
  "extends_by Q old w \<longleftrightarrow>
     aw_disposition w = DispositionBlocked \<or> (\<exists>ms. aw_pending w = old @ ms \<and> list_all Q ms)"

lemma walk_ok_st: "walk_ok st w \<Longrightarrow> stream_grows (aw_st w) st' \<Longrightarrow> walk_ok st (w\<lparr>aw_st := st'\<rparr>)"
  by (auto simp: walk_ok_def intro: stream_grows_trans)

lemma walk_record_grows [simp]:
  "stream_grows st (aw_st w) \<Longrightarrow> stream_grows st (aw_st (walk_record p k w))"
  unfolding walk_record_def by (auto intro!: stream_grows_info intro: stream_grows_trans)

lemma error_grows [simp]:
  "stream_grows st s \<Longrightarrow> stream_grows st (s\<lparr>st_Info := map_option (\<lambda>i. i\<lparr>si_Error := e\<rparr>) (st_Info s)\<rparr>)"
  by (rule stream_grows_trans [OF _ stream_grows_info]) simp_all

lemma walk_record_ok [simp]: "walk_ok st w \<Longrightarrow> walk_ok st (walk_record p k w)"
  by (auto simp: walk_ok_def)

lemma invoke_st: "invoke m r st = (x, st') \<Longrightarrow> stream_grows st st'"
  by (auto simp: invoke_def intro!: stream_grows_info split: option.splits)

lemma filterFailed_ok: "walk_ok st w \<Longrightarrow> walk_ok st (filterFailed p phase err w)"
  by (auto simp: filterFailed_def walk_ok_def)

lemma filterFailed_extends:
  "extends_by Q old w \<Longrightarrow> extends_by Q old (filterFailed p phase err w)"
  by (auto simp: extends_by_def filterFailed_def)

lemma filterFailed_more [simp]: "actionWalk.more (filterFailed p phase err w) = actionWalk.more w"
  by (simp add: filterFailed_def)

lemma control_simps [simp]: "control w = Next \<longleftrightarrow> \<not> halted w" "control w \<noteq> Abort e"
  by (simp_all add: control_def)

text \<open>
  The promise of an \<open>apply\<close> method to the body ladder: it keeps the invariant, adds only
  mutations of the action it is given, and reports only that it cannot fold the action.
\<close>

locale applier =
  fixes app ::
    "('c, 'f) pair \<Rightarrow> Action \<Rightarrow> ('c, 'z) actionWalk_scheme \<Rightarrow> EvalError option \<times> ('c, 'z) actionWalk_scheme"
  assumes app_ok: "app p act w = (err, w') \<Longrightarrow> walk_ok st w \<Longrightarrow> \<not> halted w \<Longrightarrow> walk_ok st w'"
    and app_extends:
      "app p act w = (err, w') \<Longrightarrow> extends_by Q old w \<Longrightarrow> list_all Q (act_mutations act) \<Longrightarrow>
       \<not> halted w \<Longrightarrow> extends_by Q old w'"
    and app_error: "app p act w = (Some e, w') \<Longrightarrow> \<exists>name kind. e = CannotFoldAction name kind"
begin

lemma fold_answer_ok:
  assumes "fold_answer app control p act w = (c, w')" and "\<not> halted w"
  shows "walk_ok st w \<Longrightarrow> walk_ok st w'"
    and "extends_by Q old w \<Longrightarrow> list_all Q (act_mutations act) \<Longrightarrow> extends_by Q old w'"
    and "c = Next \<Longrightarrow> \<not> halted w'" and "c \<noteq> Abort NilMetrics"
proof -
  obtain err w1 where app: "app p act w = (err, w1)"
    by (cases "app p act w")
  then have w1: "w1 = w'" and c: "c = (case err of None \<Rightarrow> control w' | Some e \<Rightarrow> Abort e)"
    using assms(1) by (auto simp: fold_answer_def split: option.splits)
  show "walk_ok st w \<Longrightarrow> walk_ok st w'"
    using app_ok [OF app _ assms(2)] w1 by simp
  show "extends_by Q old w \<Longrightarrow> list_all Q (act_mutations act) \<Longrightarrow> extends_by Q old w'"
    using app_extends [OF app _ _ assms(2)] w1 by simp
  show "c = Next \<Longrightarrow> \<not> halted w'"
    using c by (auto split: option.splits)
  show "c \<noteq> Abort NilMetrics"
    using c app_error [of p act w _ w1] app by (auto split: option.splits)
qed

text \<open>One rule for every invariant of the ladder.\<close>

lemma settle_rule:
  assumes "settle app need p phase m r w = (c, w')"
    and "m = None \<Longrightarrow> J (Abort NilMetrics) w"
    and "\<And>st err. stream_grows (aw_st w) st \<Longrightarrow> m \<noteq> None \<Longrightarrow>
           J (control (filterFailed p phase err (w\<lparr>aw_st := st\<rparr>))) (filterFailed p phase err (w\<lparr>aw_st := st\<rparr>))"
    and "\<And>st act e. stream_grows (aw_st w) st \<Longrightarrow> r = Inr act \<Longrightarrow>
           validateAction (p_reg p) phase act = Some e \<Longrightarrow> J (Abort e) (w\<lparr>aw_st := st\<rparr>)"
    and "\<And>st act c w'. stream_grows (aw_st w) st \<Longrightarrow> r = Inr act \<Longrightarrow>
           validateAction (p_reg p) phase act = None \<Longrightarrow> act_kind act = KindNeedBody \<Longrightarrow>
           need act (w\<lparr>aw_st := st\<rparr>) = (c, w') \<Longrightarrow> J c w'"
    and "\<And>st act c w'. stream_grows (aw_st w) st \<Longrightarrow> r = Inr act \<Longrightarrow>
           validateAction (p_reg p) phase act = None \<Longrightarrow> act_kind act \<noteq> KindNeedBody \<Longrightarrow>
           fold_answer app control p act (w\<lparr>aw_st := st\<rparr>) = (c, w') \<Longrightarrow> J c w'"
  shows "J c w'"
proof (cases m)
  case None
  with assms(1,2) show ?thesis by (simp add: settle_def invoke_def)
next
  case (Some fm)
  define st where "st = snd (invoke m r (aw_st w))"
  have inv: "invoke m r (aw_st w) = (Inr r, st)"
    using Some by (simp add: invoke_def st_def)
  note grows = invoke_st [OF inv]
  note step = assms(1) [unfolded settle_def inv prod.case sum.case]
  show ?thesis
  proof (cases r)
    case (Inl err)
    have "J (control (filterFailed p phase err (w\<lparr>aw_st := st\<rparr>))) (filterFailed p phase err (w\<lparr>aw_st := st\<rparr>))"
      using grows Some by (intro assms(3)) simp_all
    with step show ?thesis
      unfolding Inl sum.case Let_def by blast
  next
    case (Inr act)
    note step = step [unfolded Inr sum.case]
    show ?thesis
    proof (cases "validateAction (p_reg p) phase act")
      case None
      then show ?thesis
        using step assms(5,6) [OF grows Inr None] by (cases "act_kind act = KindNeedBody") simp_all
    next
      case (Some e)
      then show ?thesis
        using step assms(4) [OF grows Inr Some] by simp
    qed
  qed
qed

end

lemma halted_st [simp]: "halted (w\<lparr>aw_st := st\<rparr>) = halted w"
  by (simp add: halted_def)

lemma extends_by_st [simp]: "extends_by Q old (w\<lparr>aw_st := st\<rparr>) = extends_by Q old w"
  by (simp add: extends_by_def)

lemma apply_action_more: "apply_action p act w = (err, w') \<Longrightarrow> actionWalk.more w' = actionWalk.more w"
  by (auto simp: apply_action_def split: ActionKind.splits if_splits)

lemma apply_action_ok:
  "apply_action p act w = (err, w') \<Longrightarrow> walk_ok st w \<Longrightarrow> \<not> halted w \<Longrightarrow> walk_ok st w'"
  by (auto simp: apply_action_def walk_ok_def halted_def split: ActionKind.splits if_splits)

lemma apply_action_extends:
  "apply_action p act w = (err, w') \<Longrightarrow> extends_by Q old w \<Longrightarrow> list_all Q (act_mutations act) \<Longrightarrow>
   \<not> halted w \<Longrightarrow> extends_by Q old w'"
  by (auto simp: apply_action_def extends_by_def halted_def split: ActionKind.splits if_splits)

lemma apply_action_error:
  "apply_action p act w = (Some e, w') \<Longrightarrow> \<exists>name kind. e = CannotFoldAction name kind"
  by (auto simp: apply_action_def split: ActionKind.splits)

interpretation base_applier: applier apply_action
  by unfold_locales (fact apply_action_ok apply_action_extends apply_action_error)+

lemma apply_request_action:
  assumes "apply_request p act w = (err, w')"
  obtains w1 where "apply_action p act w = (err, w1)" and "actionWalk.truncate w' = actionWalk.truncate w1"
  using assms
  by (auto simp: apply_request_def actionWalk.truncate_def split: option.splits prod.splits if_splits)

lemma walk_truncate_eq:
  assumes "actionWalk.truncate w = actionWalk.truncate w'"
  shows "walk_ok st w = walk_ok st w'" and "extends_by Q old w = extends_by Q old w'" and "halted w = halted w'"
  using assms by (auto simp: actionWalk.truncate_def walk_ok_def extends_by_def halted_def)

interpretation request_applier: applier apply_request
proof unfold_locales
  show "apply_request p act w = (err, w') \<Longrightarrow> walk_ok st w \<Longrightarrow> \<not> halted w \<Longrightarrow> walk_ok st w'" for p act w err w' st
    by (metis apply_request_action apply_action_ok walk_truncate_eq(1))
  show "apply_request p act w = (err, w') \<Longrightarrow> extends_by Q old w \<Longrightarrow> list_all Q (act_mutations act) \<Longrightarrow>
      \<not> halted w \<Longrightarrow> extends_by Q old w'" for p act w err w' Q old
    by (metis apply_request_action apply_action_extends walk_truncate_eq(2))
  show "apply_request p act w = (Some e, w') \<Longrightarrow> \<exists>name kind. e = CannotFoldAction name kind" for p act w e w'
    by (metis apply_request_action apply_action_error)
qed

subsection \<open>One iteration of each loop\<close>

lemma streamView_same:
  "streamView w = Inr (view, w1) \<Longrightarrow> actionWalk.truncate w1 = actionWalk.truncate w \<and>
     rw_bodyFilters w1 = rw_bodyFilters w \<and> rw_scope w1 = rw_scope w"
  by (auto simp: streamView_def Let_def actionWalk.truncate_def split: sum.splits if_splits)

lemma truncate_fields:
  "actionWalk.truncate w = actionWalk.truncate w' \<longleftrightarrow>
     aw_st w = aw_st w' \<and> aw_disposition w = aw_disposition w' \<and> aw_reply w = aw_reply w' \<and> aw_pending w = aw_pending w'"
  by (auto simp: actionWalk.truncate_def)

text \<open>While a loop runs, and when it has ended.\<close>

abbreviation running :: "'c Stream \<Rightarrow> ('c, 'z) actionWalk_scheme \<Rightarrow> bool" where
  "running st w \<equiv> walk_ok st w \<and> \<not> halted w"

abbreviation left :: "'c Stream \<Rightarrow> Control \<Rightarrow> ('c, 'z) actionWalk_scheme \<Rightarrow> bool" where
  "left st c w \<equiv> walk_ok st w \<and> (c = Next \<longrightarrow> \<not> halted w)"

context applier
begin

lemma settle_ok:
  assumes "settle app need p phase m r w = (c, w')" and "running st w"
    and "\<And>act v c v'. r = Inr act \<Longrightarrow> validateAction (p_reg p) phase act = None \<Longrightarrow>
           act_kind act = KindNeedBody \<Longrightarrow> running st v \<Longrightarrow> need act v = (c, v') \<Longrightarrow> left st c v'"
  shows "left st c w'"
  using assms(1)
proof (rule settle_rule [where J = "left st"])
  show "left st (Abort NilMetrics) w"
    using assms(2) by simp
next
  fix s err
  assume "stream_grows (aw_st w) s"
  with assms(2) show "left st (control (filterFailed p phase err (w\<lparr>aw_st := s\<rparr>)))
      (filterFailed p phase err (w\<lparr>aw_st := s\<rparr>))"
    by (simp add: filterFailed_ok walk_ok_st)
next
  fix s act e
  assume "stream_grows (aw_st w) s"
  with assms(2) show "left st (Abort e) (w\<lparr>aw_st := s\<rparr>)"
    by (simp add: walk_ok_st)
next
  fix s act c v
  assume grows: "stream_grows (aw_st w) s" and act: "r = Inr act" "validateAction (p_reg p) phase act = None"
    "act_kind act = KindNeedBody" and *: "need act (w\<lparr>aw_st := s\<rparr>) = (c, v)"
  have "running st (w\<lparr>aw_st := s\<rparr>)"
    using assms(2) grows by (simp add: walk_ok_st)
  then show "left st c v"
    by (rule assms(3) [OF act _ *])
next
  fix s act c v
  assume "stream_grows (aw_st w) s" and *: "fold_answer app control p act (w\<lparr>aw_st := s\<rparr>) = (c, v)"
  with assms(2) fold_answer_ok(1,3) [OF *] show "left st c v"
    by (simp add: walk_ok_st)
qed

lemma settle_extends:
  assumes "settle app need p phase m r w = (c, w')" and "extends_by Q old w" and "\<not> halted w"
    and "\<And>act. r = Inr act \<Longrightarrow> validateAction (p_reg p) phase act = None \<Longrightarrow> list_all Q (act_mutations act)"
    and "\<And>act v c v'. r = Inr act \<Longrightarrow> validateAction (p_reg p) phase act = None \<Longrightarrow>
           act_kind act = KindNeedBody \<Longrightarrow> extends_by Q old v \<Longrightarrow> \<not> halted v \<Longrightarrow>
           need act v = (c, v') \<Longrightarrow> extends_by Q old v'"
  shows "extends_by Q old w'"
  using assms(1)
proof (rule settle_rule [where J = "\<lambda>c. extends_by Q old"])
  fix s act c v
  assume "r = Inr act" and "validateAction (p_reg p) phase act = None"
    and *: "fold_answer app control p act (w\<lparr>aw_st := s\<rparr>) = (c, v)"
  with assms(2-4) fold_answer_ok(2) [OF *] show "extends_by Q old v"
    by simp
next
  fix s act c v
  assume "r = Inr act" and "validateAction (p_reg p) phase act = None" and "act_kind act = KindNeedBody"
    and *: "need act (w\<lparr>aw_st := s\<rparr>) = (c, v)"
  then show "extends_by Q old v"
    using assms(2,3) by (intro assms(5) [OF _ _ _ _ _ *]) simp_all
qed (use assms(2) in \<open>simp_all add: filterFailed_extends\<close>)

lemma settle_no_panic:
  assumes "settle app need p phase m r w = (Abort e, w')" and "m \<noteq> None" and "\<not> halted w"
    and "\<And>act v v'. r = Inr act \<Longrightarrow> validateAction (p_reg p) phase act = None \<Longrightarrow>
           act_kind act = KindNeedBody \<Longrightarrow> \<not> halted v \<Longrightarrow> need act v \<noteq> (Abort NilMetrics, v')"
  shows "e \<noteq> NilMetrics"
proof -
  have "(\<lambda>c w. c \<noteq> Abort NilMetrics) (Abort e) w'"
    using assms(1)
  proof (rule settle_rule)
    fix s act c v
    assume *: "fold_answer app control p act (w\<lparr>aw_st := s\<rparr>) = (c, v)"
    show "c \<noteq> Abort NilMetrics"
      using assms(3) fold_answer_ok(4) [OF *] by simp
  qed (use assms(2-4) in \<open>auto simp: validateAction_no_panic\<close>)
  then show ?thesis by simp
qed

lemma invokeBody_ok: "invokeBody app p phase m r w = (c, w') \<Longrightarrow> running st w \<Longrightarrow> left st c w'"
  unfolding invokeBody_def by (erule settle_ok) (use fold_answer_ok(1,3) in blast)+

lemma invokeBody_extends:
  assumes "invokeBody app p phase m r w = (c, w')" and "extends_by Q old w" and "\<not> halted w"
    and "\<And>act. r = Inr act \<Longrightarrow> validateAction (p_reg p) phase act = None \<Longrightarrow> list_all Q (act_mutations act)"
  shows "extends_by Q old w'"
  using assms(1) unfolding invokeBody_def
  by (rule settle_extends) (use assms(2-4) fold_answer_ok(2) in blast)+

lemma invokeBody_no_panic:
  "invokeBody app p phase m r w = (Abort e, w') \<Longrightarrow> m \<noteq> None \<Longrightarrow> \<not> halted w \<Longrightarrow> e \<noteq> NilMetrics"
  unfolding invokeBody_def by (erule settle_no_panic) (use fold_answer_ok(4) in blast)+

end

lemma running_keepsI:
  assumes "\<And>p w c w'. p \<in> set ps \<Longrightarrow> running st w \<Longrightarrow> step p w = (c, w') \<Longrightarrow> left st c w'"
  shows "step_keeps step ps (running st) (walk_ok st)"
  by (rule step_keepsI) (use assms in blast)

lemma need_request_body_ok:
  assumes "need_request_body p f act w = (c, w')"
  shows "running st w \<Longrightarrow> left st c w'"
    and "extends_by Q old w \<Longrightarrow> \<not> halted w \<Longrightarrow> list_all Q (act_mutations act) \<Longrightarrow> extends_by Q old w'"
  using assms by (auto simp: need_request_body_def walk_ok_def halted_def extends_by_def)

lemma request_pair_keeps:
  "step_keeps (request_pair e) ps (running st) (walk_ok st)"
proof (rule running_keepsI)
  fix p w c w'
  assume w: "running st w" and step: "request_pair e p w = (c, w')"
  show "left st c w'"
  proof (cases "streamView w")
    case (Inl err)
    with w step show ?thesis by (auto simp: request_pair_def)
  next
    case (Inr vw)
    then obtain view w1 where vw: "streamView w = Inr (view, w1)"
      by (cases vw) simp
    have w1: "running st w1"
      using w walk_truncate_eq(1,3) streamView_same [OF vw] by blast
    obtain r f where call: "call_request_headers (pair_new p) (view\<lparr>st_Info := st_Info (aw_st w1)\<rparr>) = (r, f)"
      by (cases "call_request_headers (pair_new p) (view\<lparr>st_Info := st_Info (aw_st w1)\<rparr>)")
    from step [unfolded request_pair_def vw sum.case prod.case call] w1 show ?thesis
      by (rule request_applier.settle_ok) (rule need_request_body_ok)
  qed
qed

lemma request_body_keeps:
  "step_keeps (request_body_invocation e units view body) ivs (running st) (walk_ok st)"
  by (rule running_keepsI) (auto simp: request_body_invocation_def Let_def dest: request_applier.invokeBody_ok)

lemma need_response_body_ok:
  assumes "need_response_body e units scope body p f act w = (c, w')" and "running st w"
  shows "left st c w'"
proof -
  let ?w1 = "walk_record p ActionNeedBody (w\<lparr>aw_pending := aw_pending w @ act_mutations act\<rparr>)"
  have w1: "running st ?w1"
    using assms(2) by (auto simp: walk_ok_def halted_def)
  show ?thesis
  proof (cases body)
    case None
    with assms(1) w1 show ?thesis
      by (auto simp: need_response_body_def Let_def walk_ok_def)
  next
    case (Some b)
    with assms(1) show ?thesis
      using base_applier.invokeBody_ok [OF _ w1] by (simp add: need_response_body_def Let_def)
  qed
qed

lemma response_pair_keeps:
  "step_keeps (response_pair e units scope body) ps (running st) (walk_ok st)"
proof (rule running_keepsI)
  fix p w c w'
  assume w: "running st w" and step: "response_pair e units scope body p w = (c, w')"
  obtain r f where call: "call_response_headers (pair_new p) (aw_st w) = (r, f)"
    by (cases "call_response_headers (pair_new p) (aw_st w)")
  show "left st c w'"
  proof (cases "dispatched_response scope p")
    case True
    then have "settle apply_action (need_response_body e units scope body p f) p PhaseResponseHeaders
        (rm_responseHeaders (eng_metrics e ! cur_regIdx (p_at p))) r w = (c, w')"
      using step by (simp add: response_pair_def call)
    then show ?thesis
      using w by (rule base_applier.settle_ok) (rule need_response_body_ok)
  qed (use w step in \<open>simp add: response_pair_def\<close>)
qed

lemma newRequestWalk_simps [simp]:
  "aw_st (newRequestWalk st) = st" "aw_disposition (newRequestWalk st) = DispositionPassthrough"
  "aw_reply (newRequestWalk st) = ReplyZero" "aw_pending (newRequestWalk st) = []"
  "rw_scope (newRequestWalk st) = ResponseScopeZero" "rw_bodyFilters (newRequestWalk st) = []"
  "rw_view (newRequestWalk st) = None" "rw_viewed (newRequestWalk st) = 0" "rw_route (newRequestWalk st) = None"
  by (simp_all add: newRequestWalk_def newActionWalk_def actionWalk.defs requestWalk.defs)

lemma newResponseWalk_simps [simp]:
  "aw_st (newResponseWalk st) = st" "aw_disposition (newResponseWalk st) = DispositionPassthrough"
  "aw_reply (newResponseWalk st) = ReplyZero" "aw_pending (newResponseWalk st) = []"
  "vw_needsBody (newResponseWalk st) = False" "vw_continuation (newResponseWalk st) = None"
  by (simp_all add: newResponseWalk_def newActionWalk_def actionWalk.defs responseWalk.defs)

lemma running_fresh:
  "aw_st w = st \<Longrightarrow> aw_disposition w = DispositionPassthrough \<Longrightarrow> aw_reply w = ReplyZero \<Longrightarrow> running st w"
  by (simp add: walk_ok_def halted_def)

subsection \<open>Whole walks\<close>

lemma walkRequest_ok: "walkRequest e st units = (err, w) \<Longrightarrow> walk_ok st w"
  unfolding walkRequest_def
  by (erule walk_loop_inv [OF _ request_pair_keeps]) (simp_all add: running_fresh walk_ok_def)

lemma walkResponse_ok: "walkResponse e st units start scope body = (err, w) \<Longrightarrow> walk_ok st w"
  unfolding walkResponse_def
  by (erule walk_loop_inv [OF _ response_pair_keeps]) (simp_all add: running_fresh walk_ok_def)

lemma adopt_ok:
  assumes "running st w" and "walk_ok (aw_st w) remaining"
  shows "walk_ok st (adopt w remaining)"
  using assms by (auto simp: walk_ok_def adopt_def intro: stream_grows_trans)

lemma resume_response_ok:
  fixes e :: "('c, 'f) Engine"
  assumes "resume_response e st cont body = (err, w)"
  shows "walk_ok st w"
proof -
  let ?p = "pairAt e (cont_units cont) (pi_at (cont_paused cont))"
  let ?walk = "(newResponseWalk st)\<lparr>aw_pending := cont_pending cont\<rparr>"
  obtain c w1 where body: "invokeBody apply_action ?p PhaseResponseBody
      (rm_responseBody (eng_metrics e ! cur_regIdx (p_at ?p)))
      (fst (call_response_body (pi_f (cont_paused cont)) st body)) ?walk = (c, w1 :: ('c, 'f) responseWalk)"
    by fastforce
  have left: "left st c w1"
    using base_applier.invokeBody_ok [OF body, of st] by (simp add: running_fresh)
  obtain err' rem where rem: "walkResponse e (aw_st w1) (cont_units cont)
      (cursor_next (pi_at (cont_paused cont)) (length (eng_regs e))) (cont_scope cont) (Some body) = (err', rem)"
    by fastforce
  show ?thesis
    using assms left adopt_ok [of st w1 rem] walkResponse_ok [OF rem]
    by (cases c) (auto simp: resume_response_def Let_def body rem)
qed

lemma walk_result_blocked:
  assumes "walk_ok st w" and "walk_result w = (res, err)" and "ar_disposition res = DispositionBlocked"
  shows "ar_headerOps res = [] \<and> ar_route res = None \<and> ar_body res = None \<and> ar_statusCode res = None"
proof -
  have "aw_disposition w = DispositionBlocked"
    using assms(2,3) by (auto simp: walk_result_def actionResultError_def resolved_def split: sum.splits prod.splits if_splits)
  with assms(1) have "aw_pending w = []"
    by (simp add: walk_ok_def)
  with assms(2) show ?thesis
    by (auto simp: walk_result_def foldPending_def foldRoute_def fold_ops_def fold_states_def
        lastBodyMutation_def lastStatusMutation_def)
qed

lemma request_body_walk_ok:
  assumes "walk_loop (request_body_invocation e units view body) ivs
             ((newRequestWalk st)\<lparr>rw_scope := sc, aw_pending := ms\<rparr>) = (err, w)"
  shows "walk_ok st (if \<not> halted w \<and> b then w\<lparr>aw_disposition := DispositionBypassed\<rparr> else w)"
proof -
  have "walk_ok st w"
    using assms by (rule walk_loop_inv [OF _ request_body_keeps]) (simp_all add: running_fresh walk_ok_def)
  then show ?thesis
    by (auto simp: walk_ok_def halted_def)
qed

lemma EvalRequestBody_ok:
  assumes "EvalRequestBody e st prior body = (res, err, st')"
  shows "stream_grows st st'"
    and "rbr_Disposition res = DispositionBlocked \<Longrightarrow>
           rbr_HeaderOps res = [] \<and> rbr_Route res = None \<and> rbr_Body res = None"
proof -
  have "stream_grows st st' \<and> (rbr_Disposition res = DispositionBlocked \<longrightarrow>
      rbr_HeaderOps res = [] \<and> rbr_Route res = None \<and> rbr_Body res = None)"
  proof (cases "\<exists>pr. prior = Some pr \<and> request_NeedsBody pr")
    case True
    then obtain pr where pr: "prior = Some pr" "request_NeedsBody pr" by blast
    obtain err1 w where loop: "walk_loop (request_body_invocation e (rhr_units pr) (routed (rhr_Route pr) st) body)
        (rhr_bodyFilters pr) ((newRequestWalk st)\<lparr>rw_scope := rhr_ResponseScope pr, aw_pending := rhr_pending pr\<rparr>) = (err1, w)"
      by fastforce
    define w' where "w' = (if \<not> halted w \<and> rhr_Disposition pr = DispositionBypassed
        then w\<lparr>aw_disposition := DispositionBypassed\<rparr> else w)"
    obtain red rerr where red: "walk_result w' = (red, rerr)"
      by fastforce
    have ok: "walk_ok st w'"
      unfolding w'_def by (rule request_body_walk_ok [OF loop])
    with walk_result_blocked [OF ok red] assms show ?thesis
      by (auto simp: EvalRequestBody_def pr loop Let_def w'_def [symmetric] red walk_ok_def)
  next
    case False
    with assms show ?thesis
      by (auto simp: EvalRequestBody_def RequestBodyResultZero_def split: option.splits if_splits)
  qed
  then show "stream_grows st st'" and "rbr_Disposition res = DispositionBlocked \<Longrightarrow>
           rbr_HeaderOps res = [] \<and> rbr_Route res = None \<and> rbr_Body res = None"
    by blast+
qed

lemma EvalRequestHeaders_ok:
  assumes "EvalRequestHeaders e st units body = (res, err, st')"
  shows "stream_grows st st'"
    and "rhr_Disposition res = DispositionBlocked \<Longrightarrow>
           rhr_HeaderOps res = [] \<and> rhr_Route res = None \<and> rhr_Body res = None"
proof -
  obtain werr w where walk: "walkRequest e st units = (werr, w)" by fastforce
  obtain red rerr where red: "walk_result w = (red, rerr)" by fastforce
  note ok = walkRequest_ok [OF walk]
  let ?res = "\<lparr>rhr_Disposition = ar_disposition red, rhr_Reply = ar_reply red, rhr_HeaderOps = ar_headerOps red,
      rhr_Route = ar_route red, rhr_Body = ar_body red, rhr_ResponseScope = rw_scope w,
      rhr_bodyFilters = rw_bodyFilters w, rhr_units = units, rhr_pending = aw_pending w\<rparr>"
  consider (invalid) "res = RequestHeadersResultZero" "st' = st" | (plain) "res = ?res" "st' = aw_st w"
    | (inline) b br where "EvalRequestBody e (aw_st w) (Some ?res) b = (br, err, st')" "res = HeadersResult br"
    using assms
    by (auto simp: EvalRequestHeaders_def walk red Let_def split: option.splits if_splits prod.splits)
  then have "stream_grows st st' \<and> (rhr_Disposition res = DispositionBlocked \<longrightarrow>
      rhr_HeaderOps res = [] \<and> rhr_Route res = None \<and> rhr_Body res = None)"
  proof cases
    case invalid
    then show ?thesis by (simp add: RequestHeadersResultZero_def)
  next
    case plain
    with ok walk_result_blocked [OF ok red] show ?thesis by (auto simp: walk_ok_def)
  next
    case inline
    with ok EvalRequestBody_ok [OF inline(1)] show ?thesis
      by (auto simp: walk_ok_def HeadersResult_def intro: stream_grows_trans)
  qed
  then show "stream_grows st st'" and "rhr_Disposition res = DispositionBlocked \<Longrightarrow>
           rhr_HeaderOps res = [] \<and> rhr_Route res = None \<and> rhr_Body res = None"
    by blast+
qed

lemma EvalResponseHeaders_ok:
  assumes "EvalResponseHeaders e st units scope body = (res, err, st')"
  shows "stream_grows st st'"
    and "phr_Disposition res = DispositionBlocked \<Longrightarrow>
           phr_HeaderOps res = [] \<and> phr_Body res = None \<and> phr_StatusCode res = None"
proof -
  obtain werr w where walk: "walkResponse e st units cursor0 scope body = (werr, w)" by fastforce
  obtain red rerr where red: "walk_result w = (red, rerr)" by fastforce
  note ok = walkResponse_ok [OF walk]
  show "stream_grows st st'"
    using assms ok
    by (auto simp: EvalResponseHeaders_def walk red walk_ok_def split: sum.splits if_splits)
  show "phr_Disposition res = DispositionBlocked \<Longrightarrow>
           phr_HeaderOps res = [] \<and> phr_Body res = None \<and> phr_StatusCode res = None"
    using assms walk_result_blocked [OF ok red]
    by (auto simp: EvalResponseHeaders_def walk red ResponseHeadersResultZero_def split: sum.splits if_splits)
qed

lemma EvalResponseBody_ok:
  assumes "EvalResponseBody e st prior body = (res, err, st')"
  shows "stream_grows st st'"
    and "pbr_Disposition res = DispositionBlocked \<Longrightarrow>
           pbr_HeaderOps res = [] \<and> pbr_Body res = None \<and> pbr_StatusCode res = None"
proof -
  have "stream_grows st st' \<and> (pbr_Disposition res = DispositionBlocked \<longrightarrow>
      pbr_HeaderOps res = [] \<and> pbr_Body res = None \<and> pbr_StatusCode res = None)"
  proof (cases "\<exists>pr cont. prior = Some pr \<and> phr_continuation pr = Some cont")
    case True
    then obtain pr cont where pr: "prior = Some pr" "phr_continuation pr = Some cont" by blast
    obtain werr w where walk: "resume_response e st cont body = (werr, w)" by fastforce
    obtain red rerr where red: "walk_result w = (red, rerr)" by fastforce
    note ok = resume_response_ok [OF walk]
    from assms ok walk_result_blocked [OF ok red] show ?thesis
      by (auto simp: EvalResponseBody_def pr walk red walk_ok_def)
  next
    case False
    with assms show ?thesis
      by (auto simp: EvalResponseBody_def ResponseBodyResultZero_def split: option.splits)
  qed
  then show "stream_grows st st'" and "pbr_Disposition res = DispositionBlocked \<Longrightarrow>
           pbr_HeaderOps res = [] \<and> pbr_Body res = None \<and> pbr_StatusCode res = None"
    by blast+
qed

text \<open>
  C14: a blocked evaluation carries no mutation.  Whatever the filters accumulated before one
  of them stopped the exchange or failed closed, a result with disposition \<open>Blocked\<close> has no
  header operation, no routing change, no body and no status to apply; this holds for the
  request headers, the request body, the response headers and the resumed response body.
\<close>

theorem blocked_discards_mutations:
  "(case EvalRequestHeaders e st units avail of (r, err, st') \<Rightarrow>
           rhr_Disposition r = DispositionBlocked \<longrightarrow> rhr_HeaderOps r = [] \<and> rhr_Route r = None \<and> rhr_Body r = None) \<and>
   (case EvalRequestBody e st prior body of (r, err, st') \<Rightarrow>
           rbr_Disposition r = DispositionBlocked \<longrightarrow> rbr_HeaderOps r = [] \<and> rbr_Route r = None \<and> rbr_Body r = None) \<and>
   (case EvalResponseHeaders e st units scope avail of (r, err, st') \<Rightarrow>
           phr_Disposition r = DispositionBlocked \<longrightarrow> phr_HeaderOps r = [] \<and> phr_Body r = None \<and> phr_StatusCode r = None) \<and>
   (case EvalResponseBody e st paused body of (r, err, st') \<Rightarrow>
           pbr_Disposition r = DispositionBlocked \<longrightarrow> pbr_HeaderOps r = [] \<and> pbr_Body r = None \<and> pbr_StatusCode r = None)"
  by (auto split: prod.splits dest: EvalRequestHeaders_ok(2) EvalRequestBody_ok(2)
      EvalResponseHeaders_ok(2) EvalResponseBody_ok(2))

subsection \<open>A scripted filter\<close>

text \<open>
  A filter whose answers are its configuration: the smallest engine on which the statements
  about evaluation can be run.
\<close>

record Script =
  script_rh :: "string + Action"
  script_rb :: "string + Action"
  script_ph :: "string + Action"
  script_pb :: "string + Action"

definition scripted :: "Script \<Rightarrow> (Script, Script) Filter" where
  "scripted s =
     \<lparr>flt_self = s,
      flt_OnRequestHeaders = (\<lambda>s st. (script_rh s, s)),
      flt_OnRequestBody = (\<lambda>s st b. (script_rb s, s)),
      flt_OnResponseHeaders = (\<lambda>s st. (script_ph s, s)),
      flt_OnResponseBody = (\<lambda>s st b. (script_pb s, s))\<rparr>"

definition scripted_reg :: "(Script, Script) Registration" where
  "scripted_reg =
     \<lparr>reg_Name = ''scripted'', reg_Phases = 15, reg_OnError = None, reg_Parse = (\<lambda>raw. Inl ''none''),
      reg_New = (\<lambda>rc. scripted (rc_Cfg rc)), reg_Subscribes = Some (\<lambda>cfg. PhaseResponseHeaders)\<rparr>"

definition script0 :: Script where
  "script0 =
     \<lparr>script_rh = Inr (Continue []), script_rb = Inr (Continue []), script_ph = Inr (Continue []),
      script_pb = Inr (Continue [])\<rparr>"

definition scripted_unit :: "string \<Rightarrow> Script \<Rightarrow> Script Unit" where
  "scripted_unit name s =
     \<lparr>unit_ID = \<lparr>uid_Scope = ''ns/p'', uid_Name = name, uid_Ordinal = 0\<rparr>, unit_Scope = None, unit_Cfgs = [Some s]\<rparr>"

abbreviation scripted_engine :: "(Script, Script) Engine" where
  "scripted_engine \<equiv> NewEngine [scripted_reg]"

abbreviation scripted_stream :: "Script Stream" where
  "scripted_stream \<equiv> StreamZero\<lparr>st_Info := Some NewStreamInfo\<rparr>"

definition body0 :: Body where
  "body0 = \<lparr>body_Bytes = [], body_Complete = True\<rparr>"

theorem blocked_discards_mutations_witness:
  "rhr_HeaderOps (fst (EvalRequestHeaders scripted_engine scripted_stream
     [scripted_unit ''a'' (script0\<lparr>script_rh := Inr (Continue [SetHeader ''x'' ''1''])\<rparr>),
      scripted_unit ''b'' (script0\<lparr>script_rh := Inr (Stop (ReplyZero\<lparr>reply_Status := 403\<rparr>))\<rparr>)] None)) = []"
proof -
  let ?units = "[scripted_unit ''a'' (script0\<lparr>script_rh := Inr (Continue [SetHeader ''x'' ''1''])\<rparr>),
      scripted_unit ''b'' (script0\<lparr>script_rh := Inr (Stop (ReplyZero\<lparr>reply_Status := 403\<rparr>))\<rparr>)]"
  have "rhr_Disposition (fst (EvalRequestHeaders scripted_engine scripted_stream ?units None)) = DispositionBlocked"
    by code_simp
  with conjunct1 [OF blocked_discards_mutations [of scripted_engine scripted_stream ?units None None body0
      ResponseScopeZero None]] show ?thesis
    by (simp add: case_prod_beta)
qed

text \<open>
  C15: an evaluation changes nothing of the stream but its audit record, and that record only
  grows: earlier filter invocations and unit actions stay in place and in order, the target
  decision is untouched, and every policy unit keeps a single entry.
\<close>

theorem evaluation_only_extends_the_record:
  "(case EvalRequestHeaders e st units avail of (r, err, st') \<Rightarrow> stream_grows st st') \<and>
   (case EvalRequestBody e st prior body of (r, err, st') \<Rightarrow> stream_grows st st') \<and>
   (case EvalResponseHeaders e st units scope avail of (r, err, st') \<Rightarrow> stream_grows st st') \<and>
   (case EvalResponseBody e st paused body of (r, err, st') \<Rightarrow> stream_grows st st')"
  by (auto split: prod.splits dest: EvalRequestHeaders_ok(1) EvalRequestBody_ok(1)
      EvalResponseHeaders_ok(1) EvalResponseBody_ok(1))

end
