(* ===== verification/Engine_Order.thy ===== *)
theory Engine_Order
  imports Engine_Invariants
begin

section \<open>Policy order, pausing and resuming\<close>

text \<open>
  The pairs of a walk in lexicographic order, the suffix a resumed walk continues with, and
  the equivalence of pausing for a response body with having it at hand: the optimised
  control flow of \<open>EvalResponseHeaders\<close> and \<open>EvalResponseBody\<close> computes what one
  uninterrupted walk computes.
\<close>

subsection \<open>Cursors\<close>

definition cursors :: "nat \<Rightarrow> nat \<Rightarrow> evalCursor \<Rightarrow> evalCursor list" where
  "cursors m n start =
     concat (map (\<lambda>u. map (\<lambda>r. \<lparr>cur_unit = u, cur_regIdx = r\<rparr>)
         [(if u = cur_unit start then cur_regIdx start else 0)..<n])
       [cur_unit start..<m])"

definition cursor_pairs :: "('c, 'f) Engine \<Rightarrow> 'c Unit list \<Rightarrow> Phase \<Rightarrow> evalCursor list \<Rightarrow> ('c, 'f) pair list" where
  "cursor_pairs e units phases cs =
     [p \<leftarrow> map (pairAt e units) cs. p_cfg p \<noteq> None \<and> reg_Phases (p_reg p) AND phases \<noteq> 0]"

lemma cursor_pairs_append [simp]:
  "cursor_pairs e units phases (as @ bs) = cursor_pairs e units phases as @ cursor_pairs e units phases bs"
  by (simp add: cursor_pairs_def)

lemma cursor_pairs_concat:
  "cursor_pairs e units phases (concat css) = concat (map (cursor_pairs e units phases) css)"
  by (induction css) (simp_all add: cursor_pairs_def)

lemma unit_pairs_cursors:
  "unit_pairs e units phases u k =
     cursor_pairs e units phases (map (\<lambda>r. \<lparr>cur_unit = u, cur_regIdx = r\<rparr>) [k..<length (eng_regs e)])"
proof -
  have "concat (map (\<lambda>r. let p = pairAt e units \<lparr>cur_unit = u, cur_regIdx = r\<rparr> in
          if p_cfg p = None \<or> reg_Phases (p_reg p) AND phases = 0 then [] else [p]) rs) =
      cursor_pairs e units phases (map (\<lambda>r. \<lparr>cur_unit = u, cur_regIdx = r\<rparr>) rs)" for rs
    by (induction rs) (auto simp: cursor_pairs_def Let_def)
  then show ?thesis
    by (simp add: unit_pairs_def)
qed

lemma pairs_cursors:
  "pairs e units start phases =
     cursor_pairs e units phases (cursors (length units) (length (eng_regs e)) start)"
  by (simp add: pairs_def cursors_def cursor_pairs_concat unit_pairs_cursors comp_def)

lemma cursors_unfold:
  "cursors m n c =
     (if cur_unit c < m
      then map (\<lambda>r. \<lparr>cur_unit = cur_unit c, cur_regIdx = r\<rparr>) [cur_regIdx c..<n] @
           concat (map (\<lambda>v. map (\<lambda>r. \<lparr>cur_unit = v, cur_regIdx = r\<rparr>) [0..<n]) [Suc (cur_unit c)..<m])
      else [])"
proof -
  have "concat (map (\<lambda>u. map (\<lambda>r. \<lparr>cur_unit = u, cur_regIdx = r\<rparr>) [(if u = cur_unit c then cur_regIdx c else 0)..<n])
        [Suc (cur_unit c)..<m]) =
      concat (map (\<lambda>v. map (\<lambda>r. \<lparr>cur_unit = v, cur_regIdx = r\<rparr>) [0..<n]) [Suc (cur_unit c)..<m])"
    by (rule arg_cong [where f = concat], rule map_cong) auto
  then show ?thesis
    by (simp add: cursors_def upt_conv_Cons)
qed

lemma cursors_step:
  assumes "cur_unit c < m" and "cur_regIdx c < n"
  shows "cursors m n c = c # cursors m n (cursor_next c n)"
proof -
  obtain u r where c: "c = \<lparr>cur_unit = u, cur_regIdx = r\<rparr>"
    by (cases c) auto
  have r: "[r..<n] = r # [Suc r..<n]"
    using assms by (simp add: c upt_conv_Cons)
  show ?thesis
  proof (cases "Suc r = n")
    case True
    then show ?thesis
      using assms by (cases "Suc u < m") (simp_all add: cursors_unfold c cursor_next_def r upt_conv_Cons)
  next
    case False
    then show ?thesis
      using assms by (simp add: cursors_unfold c cursor_next_def r)
  qed
qed

lemma set_cursors:
  "c \<in> set (cursors m n start) \<Longrightarrow> cur_unit c < m \<and> cur_regIdx c < n"
  by (auto simp: cursors_def)

lemma cursors_Nil: "cur_regIdx start < n \<or> n = 0 \<Longrightarrow> \<not> cur_unit start < m \<or> n = 0 \<Longrightarrow> cursors m n start = []"
  by (auto simp: cursors_def)

lemma cursors_suffix:
  "c \<in> set (cursors m n start) \<Longrightarrow> cur_regIdx start < n \<Longrightarrow>
     \<exists>as. cursors m n start = as @ c # cursors m n (cursor_next c n)"
proof (induction "length (cursors m n start)" arbitrary: start)
  case (Suc k)
  have start: "cur_unit start < m"
    using Suc.prems by (auto simp: cursors_def)
  note step = cursors_step [OF start Suc.prems(2)]
  show ?case
  proof (cases "c = start")
    case True
    with step show ?thesis by (metis append_Nil)
  next
    case False
    with step Suc.prems(1) have "c \<in> set (cursors m n (cursor_next start n))"
      by simp
    moreover have "k = length (cursors m n (cursor_next start n))"
      using Suc.hyps(2) step by simp
    moreover have "cur_regIdx (cursor_next start n) < n"
      using Suc.prems(2) by (auto simp: cursor_next_def Let_def)
    ultimately obtain as where "cursors m n (cursor_next start n) = as @ c # cursors m n (cursor_next c n)"
      using Suc.hyps(1) by blast
    with step show ?thesis by (metis append_Cons)
  qed
qed simp

lemma distinct_cursors: "distinct (cursors m n start)"
proof -
  have "distinct us \<Longrightarrow> distinct (concat (map (\<lambda>u. map (\<lambda>r. \<lparr>cur_unit = u, cur_regIdx = r\<rparr>) [f u..<n]) us))" for us f
    by (induction us) (auto simp: distinct_map inj_on_def)
  then show ?thesis
    by (simp add: cursors_def)
qed

lemma p_at_pairAt [simp]: "p_at (pairAt e units c) = c"
  by (simp add: pairAt_def)

lemma pairs_mem:
  assumes "p \<in> set (pairs e units start phases)"
  shows "p = pairAt e units (p_at p)" and "cur_unit (p_at p) < length units"
    and "cur_regIdx (p_at p) < length (eng_regs e)" and "p_cfg p \<noteq> None"
    and "reg_Phases (p_reg p) AND phases \<noteq> 0" and "p_at p \<in> set (cursors (length units) (length (eng_regs e)) start)"
  using assms set_cursors by (fastforce simp: pairs_cursors cursor_pairs_def)+

text \<open>The pairs after a pair are the pairs from its successor cursor on.\<close>

lemma pairs_suffix:
  assumes split: "pairs e units start phases = xs @ p # ys" and start: "cur_regIdx start < length (eng_regs e)"
  shows "pairs e units (cursor_next (p_at p) (length (eng_regs e))) phases = ys"
proof -
  let ?cs = "cursors (length units) (length (eng_regs e))"
  have p: "p \<in> set (pairs e units start phases)"
    by (simp add: split)
  obtain as where as: "?cs start = as @ p_at p # ?cs (cursor_next (p_at p) (length (eng_regs e)))"
    using cursors_suffix [OF pairs_mem(6) [OF p] start] by blast
  have pat: "cursor_pairs e units phases [p_at p] = [p]"
    using pairs_mem(1,4,5) [OF p] by (simp add: cursor_pairs_def)
  let ?next = "pairs e units (cursor_next (p_at p) (length (eng_regs e))) phases"
  have "pairs e units start phases =
      cursor_pairs e units phases as @ cursor_pairs e units phases [p_at p] @ ?next"
    unfolding pairs_cursors as by (simp only: cursor_pairs_append [symmetric] append_Cons append_Nil)
  then have eq: "xs @ p # ys = cursor_pairs e units phases as @ p # ?next"
    unfolding split pat by (simp only: append_Cons append_Nil)
  have "inj_on (pairAt e units) A" for A
    by (metis inj_onI p_at_pairAt)
  then have "distinct (pairs e units start phases)"
    unfolding pairs_cursors cursor_pairs_def
    by (intro distinct_filter) (simp add: distinct_map distinct_cursors)
  then have "p \<notin> set xs" "p \<notin> set ys"
    by (auto simp: split)
  then have "xs = cursor_pairs e units phases as \<and> ys = ?next"
    by (rule iffD1 [OF append_Cons_eq_iff eq])
  then show ?thesis by simp
qed

subsection \<open>Running a prefix of a loop\<close>

inductive runs :: "('p \<Rightarrow> 'w \<Rightarrow> Control \<times> 'w) \<Rightarrow> 'p list \<Rightarrow> 'w \<Rightarrow> 'w \<Rightarrow> bool"
  for step :: "'p \<Rightarrow> 'w \<Rightarrow> Control \<times> 'w" where
  runs_Nil: "runs step [] w w"
| runs_Cons: "step p w = (Next, w1) \<Longrightarrow> runs step ps w1 w2 \<Longrightarrow> runs step (p # ps) w w2"

inductive_cases runs_NilE [elim!]: "runs step [] w w'"
inductive_cases runs_ConsE [elim]: "runs step (p # ps) w w'"

lemma runs_inv:
  assumes "runs step ps w w'" and "I w" and "\<And>p w w1. p \<in> set ps \<Longrightarrow> I w \<Longrightarrow> step p w = (Next, w1) \<Longrightarrow> I w1"
  shows "I w'"
  using assms by (induction rule: runs.induct) auto

lemma runs_snoc: "runs step ps w w1 \<Longrightarrow> step p w1 = (Next, w2) \<Longrightarrow> runs step (ps @ [p]) w w2"
  by (induction rule: runs.induct) (auto intro: runs.intros)

lemma walk_loop_runs: "runs step xs w w1 \<Longrightarrow> walk_loop step (xs @ ys) w = walk_loop step ys w1"
  by (induction rule: runs.induct) auto

lemma walk_loop_cases:
  assumes "walk_loop step ps w = (err, w')"
  obtains (through) "runs step ps w w'" and "err = None"
  | (returned) xs p ys w1 where "ps = xs @ p # ys" and "runs step xs w w1" and "step p w1 = (Return, w')" and "err = None"
  | (aborted) xs p ys w1 e where "ps = xs @ p # ys" and "runs step xs w w1" and "step p w1 = (Abort e, w')" and "err = Some e"
  using assms
proof (induction ps arbitrary: w thesis)
  case Nil
  then show ?case by (auto intro: runs_Nil)
next
  case (Cons p ps)
  obtain c w1 where step: "step p w = (c, w1)"
    by (cases "step p w")
  show ?case
  proof (cases c)
    case (Abort e)
    with Cons.prems(4) step show ?thesis
      by (intro Cons.prems(3) [of "[]" p ps w e]) (auto intro: runs_Nil)
  next
    case Return
    with Cons.prems(4) step show ?thesis
      by (intro Cons.prems(2) [of "[]" p ps w]) (auto intro: runs_Nil)
  next
    case Next
    then have rest: "walk_loop step ps w1 = (err, w')"
      using Cons.prems(4) step by simp
    show ?thesis
    proof (rule Cons.IH [OF _ _ _ rest])
      show thesis if "runs step ps w1 w'" "err = None"
        using that step Next by (intro Cons.prems(1)) (auto intro: runs_Cons)
      show thesis if "ps = xs @ q # ys" "runs step xs w1 w2" "step q w2 = (Return, w')" "err = None" for xs q ys w2
        using that step Next by (intro Cons.prems(2) [of "p # xs" q ys w2]) (auto intro: runs_Cons)
      show thesis if "ps = xs @ q # ys" "runs step xs w1 w2" "step q w2 = (Abort e, w')" "err = Some e" for xs q ys w2 e
        using that step Next by (intro Cons.prems(3) [of "p # xs" q ys w2 e]) (auto intro: runs_Cons)
    qed
  qed
qed

subsection \<open>Pausing and resuming\<close>

text \<open>A loop consults \<open>need\<close> only for an accepted \<open>NeedBody\<close>.\<close>

lemma settle_cases:
  assumes "settle app need p phase m r w = (c, w')"
  obtains (plain) "\<And>need'. settle app need' p phase m r w = (c, w')"
  | (asked) act st where "act_kind act = KindNeedBody" and "need act (w\<lparr>aw_st := st\<rparr>) = (c, w')"
      and "stream_grows (aw_st w) st" and "\<And>need'. settle app need' p phase m r w = need' act (w\<lparr>aw_st := st\<rparr>)"
proof (cases m)
  case None
  with assms show ?thesis by (intro plain) (simp add: settle_def invoke_def)
next
  case (Some fm)
  define st where "st = snd (invoke m r (aw_st w))"
  have inv: "invoke m r (aw_st w) = (Inr r, st)"
    using Some by (simp add: invoke_def st_def)
  show ?thesis
  proof (cases "\<exists>act. r = Inr act \<and> validateAction (p_reg p) phase act = None \<and> act_kind act = KindNeedBody")
    case True
    then obtain act where act: "r = Inr act" "validateAction (p_reg p) phase act = None" "act_kind act = KindNeedBody"
      by blast
    have "settle app need' p phase m r w = need' act (w\<lparr>aw_st := st\<rparr>)" for need'
      unfolding settle_def inv by (simp add: act)
    with assms act invoke_st [OF inv] show ?thesis
      by (intro asked [of act st]) simp_all
  next
    case False
    have "settle app need' p phase m r w = settle app need p phase m r w" for need'
      unfolding settle_def inv prod.case sum.case
      using False by (auto split: sum.split option.split)
    with assms show ?thesis by (intro plain) simp
  qed
qed

definition clean :: "('c, 'f) responseWalk \<Rightarrow> bool" where
  "clean w \<longleftrightarrow>
     aw_disposition w = DispositionPassthrough \<and> aw_reply w = ReplyZero \<and> \<not> vw_needsBody w \<and> vw_continuation w = None"

lemma clean_eq: "clean w \<Longrightarrow> w = (newResponseWalk (aw_st w))\<lparr>aw_pending := aw_pending w\<rparr>"
  by (cases w) (simp add: clean_def newResponseWalk_def newActionWalk_def actionWalk.defs responseWalk.defs)

lemma responseWalk_more:
  "actionWalk.more w = actionWalk.more w' \<longleftrightarrow>
     vw_needsBody w = vw_needsBody w' \<and> vw_continuation w = vw_continuation (w' :: ('c, 'f) responseWalk)"
  by (cases w; cases w') auto

lemma fold_answer_more:
  "fold_answer apply_action control p act w = (c, w') \<Longrightarrow> actionWalk.more w' = actionWalk.more w"
  by (auto simp: fold_answer_def dest: apply_action_more split: prod.splits option.splits)

lemma settle_more:
  assumes "settle apply_action need p phase m r w = (c, w')"
    and "\<And>act v c v'. need act v = (c, v') \<Longrightarrow> actionWalk.more v' = actionWalk.more v"
  shows "actionWalk.more w' = actionWalk.more w"
  using assms(1)
proof (rule base_applier.settle_rule [where J = "\<lambda>c w'. actionWalk.more w' = actionWalk.more w"])
  fix st act c v
  assume "need act (w\<lparr>aw_st := st\<rparr>) = (c, v)"
  from assms(2) [OF this] show "actionWalk.more v = actionWalk.more w" by simp
next
  fix st act c v
  assume "fold_answer apply_action control p act (w\<lparr>aw_st := st\<rparr>) = (c, v)"
  from fold_answer_more [OF this] show "actionWalk.more v = actionWalk.more w" by simp
qed simp_all

lemma invokeBody_more:
  assumes "invokeBody apply_action p phase m r w = (c, w')"
  shows "actionWalk.more w' = actionWalk.more w"
  using assms [unfolded invokeBody_def] by (rule settle_more) (rule fold_answer_more)

lemma need_paused:
  "need_response_body e units scope None p f act w = (c, w') \<Longrightarrow> c = Return"
  by (simp add: need_response_body_def Let_def)

lemma need_inline_more:
  "need_response_body e units scope (Some b) p f act w = (c, w') \<Longrightarrow> actionWalk.more w' = actionWalk.more w"
  by (auto simp: need_response_body_def Let_def dest: invokeBody_more)

lemma response_pair_inline_more:
  assumes "response_pair e units scope (Some b) p w = (c, w')"
  shows "actionWalk.more w' = actionWalk.more w"
proof (cases "dispatched_response scope p")
  case True
  obtain r f where call: "call_response_headers (pair_new p) (aw_st w) = (r, f)"
    by (cases "call_response_headers (pair_new p) (aw_st w)")
  have "settle apply_action (need_response_body e units scope (Some b) p f) p PhaseResponseHeaders
      (rm_responseHeaders (eng_metrics e ! cur_regIdx (p_at p))) r w = (c, w')"
    using assms True by (simp add: response_pair_def call)
  then show ?thesis
    by (rule settle_more) (rule need_inline_more)
qed (use assms in \<open>simp add: response_pair_def\<close>)

text \<open>An iteration that goes on does the same whether or not the body is at hand.\<close>

lemma response_pair_Next:
  assumes "response_pair e units scope None p w = (Next, w')"
  shows "response_pair e units scope (Some b) p w = (Next, w')"
proof (cases "dispatched_response scope p")
  case True
  obtain r f where call: "call_response_headers (pair_new p) (aw_st w) = (r, f)"
    by (cases "call_response_headers (pair_new p) (aw_st w)")
  have "settle apply_action (need_response_body e units scope None p f) p PhaseResponseHeaders
      (rm_responseHeaders (eng_metrics e ! cur_regIdx (p_at p))) r w = (Next, w')"
    using assms True by (simp add: response_pair_def call)
  then show ?thesis
  proof (cases rule: settle_cases)
    case plain
    then show ?thesis
      using True by (simp add: response_pair_def call)
  next
    case (asked act st)
    with need_paused show ?thesis by blast
  qed
next
  case False
  with assms show ?thesis by (simp add: response_pair_def)
qed

lemma runs_response_inline:
  "runs (response_pair e units scope None) ps w w' \<Longrightarrow> runs (response_pair e units scope (Some b)) ps w w'"
  by (induction rule: runs.induct) (auto intro: runs.intros response_pair_Next)

lemma runs_response_clean:
  assumes "runs (response_pair e units scope (Some b)) ps (newResponseWalk st) w"
  shows "clean w" and "walk_ok st w"
proof -
  have "running st w \<and> actionWalk.more w = actionWalk.more (newResponseWalk st :: ('a, 'b) responseWalk)"
    using assms
  proof (rule runs_inv)
    show "running st (newResponseWalk st) \<and> actionWalk.more (newResponseWalk st) = actionWalk.more (newResponseWalk st :: ('a, 'b) responseWalk)"
      by (simp add: running_fresh)
    fix p w1 w2
    assume p: "p \<in> set ps" and w1: "running st w1 \<and> actionWalk.more w1 = actionWalk.more (newResponseWalk st)"
      and step: "response_pair e units scope (Some b) p w1 = (Next, w2)"
    from step_keepsD [OF response_pair_keeps p conjunct1 [OF w1] step] response_pair_inline_more [OF step] w1
    show "running st w2 \<and> actionWalk.more w2 = actionWalk.more (newResponseWalk st)"
      by simp
  qed
  then show "clean w" "walk_ok st w"
    by (auto simp: clean_def walk_ok_def halted_def responseWalk_more split: if_splits)
qed

text \<open>A pause keeps exactly what the uninterrupted iteration would go on with.\<close>

lemma response_pair_pause:
  assumes "response_pair e units scope None p w = (Return, w')" and "vw_needsBody w'" and "clean w"
  obtains f v where "vw_continuation w' = Some \<lparr>cont_units = units, cont_paused = \<lparr>pi_f = f, pi_at = p_at p\<rparr>,
        cont_pending = aw_pending v, cont_scope = scope\<rparr>"
    and "clean v" and "aw_st w' = aw_st v" and "aw_pending w' = []" and "aw_disposition w' = DispositionPassthrough"
    and "\<And>b. response_pair e units scope (Some b) p w =
          invokeBody apply_action p PhaseResponseBody (rm_responseBody (eng_metrics e ! cur_regIdx (p_at p)))
            (fst (call_response_body f (aw_st v) b)) v"
proof -
  obtain r f where call: "call_response_headers (pair_new p) (aw_st w) = (r, f)"
    by (cases "call_response_headers (pair_new p) (aw_st w)")
  have d: "dispatched_response scope p"
    using assms(1) by (auto simp: response_pair_def split: if_splits)
  have "settle apply_action (need_response_body e units scope None p f) p PhaseResponseHeaders
      (rm_responseHeaders (eng_metrics e ! cur_regIdx (p_at p))) r w = (Return, w')"
    using assms(1) d by (simp add: response_pair_def call)
  then show ?thesis
  proof (cases rule: settle_cases)
    case plain
    have "actionWalk.more w' = actionWalk.more w"
      using plain [of "fold_answer apply_action control p"] by (rule settle_more) (rule fold_answer_more)
    with assms(2,3) show ?thesis
      by (simp add: responseWalk_more clean_def)
  next
    case (asked act st)
    define v where "v = walk_record p ActionNeedBody (w\<lparr>aw_st := st, aw_pending := aw_pending w @ act_mutations act\<rparr>)"
    show ?thesis
    proof (rule that [of f v])
      show "clean v"
        using assms(3) by (simp add: v_def clean_def walk_record_def)
      show "response_pair e units scope (Some b) p w =
          invokeBody apply_action p PhaseResponseBody (rm_responseBody (eng_metrics e ! cur_regIdx (p_at p)))
            (fst (call_response_body f (aw_st v) b)) v" for b
        using asked(4) d by (simp add: response_pair_def call need_response_body_def v_def Let_def)
    qed (use asked(2) assms(3) in \<open>auto simp: need_response_body_def v_def Let_def clean_def\<close>)
  qed
qed

text \<open>Mutations accumulated before an iteration do not influence it.\<close>

definition prepend :: "Mutation list \<Rightarrow> ('c, 'z) actionWalk_scheme \<Rightarrow> ('c, 'z) actionWalk_scheme" where
  "prepend old w = w\<lparr>aw_pending := (if aw_disposition w = DispositionBlocked then [] else old @ aw_pending w)\<rparr>"

lemma prepend_simps [simp]:
  "aw_st (prepend old w) = aw_st w" "aw_disposition (prepend old w) = aw_disposition w"
  "aw_reply (prepend old w) = aw_reply w" "halted (prepend old w) = halted w" "control (prepend old w) = control w"
  "actionWalk.more (prepend old w) = actionWalk.more w"
  by (simp_all add: prepend_def halted_def control_def)

lemma prepend_st: "(prepend old w)\<lparr>aw_st := st\<rparr> = prepend old (w\<lparr>aw_st := st\<rparr>)"
  by (simp add: prepend_def)

lemma prepend_record: "walk_record p k (prepend old w) = prepend old (walk_record p k w)"
  by (simp add: prepend_def walk_record_def)

lemma prepend_filterFailed: "filterFailed p phase err (prepend old w) = prepend old (filterFailed p phase err w)"
  by (simp add: filterFailed_def prepend_record) (simp add: prepend_def walk_record_def)

lemma prepend_apply:
  "\<not> halted w \<Longrightarrow> apply_action p act (prepend old w) = map_prod id (prepend old) (apply_action p act w)"
  by (cases "act_kind act") (auto simp: apply_action_def prepend_def walk_record_def halted_def)

lemma prepend_fold_answer:
  "\<not> halted w \<Longrightarrow>
   fold_answer apply_action control p act (prepend old w) =
     map_prod id (prepend old) (fold_answer apply_action control p act w)"
  by (auto simp: fold_answer_def prepend_apply split: prod.splits option.splits)

lemma prepend_settle:
  assumes "\<not> halted w"
    and "\<And>act v. \<not> halted v \<Longrightarrow> need act (prepend old v) = map_prod id (prepend old) (need act v)"
  shows "settle apply_action need p phase m r (prepend old w) =
     map_prod id (prepend old) (settle apply_action need p phase m r w)"
proof -
  have "\<not> halted (w\<lparr>aw_st := s\<rparr>)" for s
    using assms(1) by simp
  then show ?thesis
    unfolding settle_def
    by (auto simp: prepend_st prepend_filterFailed prepend_fold_answer assms(2) Let_def
        split: prod.split sum.split option.split)
qed

lemma prepend_invokeBody:
  "\<not> halted w \<Longrightarrow> invokeBody apply_action p phase m r (prepend old w) =
     map_prod id (prepend old) (invokeBody apply_action p phase m r w)"
  unfolding invokeBody_def by (rule prepend_settle) (simp_all add: prepend_fold_answer)

lemma prepend_need:
  assumes "\<not> halted w"
  shows "need_response_body e units scope (Some b) p f act (prepend old w) =
     map_prod id (prepend old) (need_response_body e units scope (Some b) p f act w)"
proof -
  let ?v = "\<lambda>w. walk_record p ActionNeedBody (w\<lparr>aw_pending := aw_pending w @ act_mutations act\<rparr>)"
  have "?v (prepend old w) = prepend old (?v w)"
    using assms by (auto simp: prepend_def walk_record_def halted_def)
  moreover have "\<not> halted (?v w)"
    using assms by (simp add: halted_def)
  ultimately show ?thesis
    by (simp add: need_response_body_def Let_def prepend_invokeBody)
qed

lemma prepend_response_pair:
  "\<not> halted w \<Longrightarrow> response_pair e units scope (Some b) p (prepend old w) =
     map_prod id (prepend old) (response_pair e units scope (Some b) p w)"
  by (auto simp: response_pair_def prepend_settle prepend_need split: prod.splits)

lemma prepend_walk_loop:
  assumes "running st w"
  shows "walk_loop (response_pair e units scope (Some b)) ps (prepend old w) =
     map_prod id (prepend old) (walk_loop (response_pair e units scope (Some b)) ps w)"
  using assms
proof (induction ps arbitrary: w)
  case (Cons p ps)
  obtain c w1 where step: "response_pair e units scope (Some b) p w = (c, w1)"
    by (cases "response_pair e units scope (Some b) p w")
  have "c = Next \<Longrightarrow> running st w1"
    using step_keepsD [OF response_pair_keeps list.set_intros(1) Cons.prems step] by blast
  with Cons.IH [of w1] Cons.prems step show ?case
    by (cases c) (simp_all add: prepend_response_pair)
qed simp

lemma walkResponse_more:
  assumes "walkResponse e st units start scope (Some b) = (err, w)"
  shows "actionWalk.more w = actionWalk.more (newResponseWalk st)"
  using assms [unfolded walkResponse_def]
  by (rule walk_loop_inv [where I = "\<lambda>w. actionWalk.more w = actionWalk.more (newResponseWalk st)"])
     (auto intro!: step_keepsI dest: response_pair_inline_more)

lemma adopt_prepend:
  assumes "clean v" and "walkResponse e (aw_st v) units start scope (Some b) = (err, rest)"
  shows "adopt v rest = prepend (aw_pending v) rest"
proof -
  have "vw_needsBody rest = vw_needsBody v" "vw_continuation rest = vw_continuation v"
    using assms walkResponse_more [OF assms(2)] by (simp_all add: responseWalk_more clean_def)
  then show ?thesis
    by (cases v; cases rest) (simp add: adopt_def prepend_def)
qed

lemma response_pair_Abort_more:
  assumes "response_pair e units scope None p w = (Abort err, w')"
  shows "actionWalk.more w' = actionWalk.more w"
proof -
  obtain r f where call: "call_response_headers (pair_new p) (aw_st w) = (r, f)"
    by (cases "call_response_headers (pair_new p) (aw_st w)")
  have "settle apply_action (need_response_body e units scope None p f) p PhaseResponseHeaders
      (rm_responseHeaders (eng_metrics e ! cur_regIdx (p_at p))) r w = (Abort err, w')"
    using assms by (auto simp: response_pair_def call split: if_splits)
  then show ?thesis
  proof (cases rule: settle_cases)
    case plain
    from plain [of "fold_answer apply_action control p"] show ?thesis
      by (rule settle_more) (rule fold_answer_more)
  next
    case (asked act st)
    with need_paused show ?thesis by blast
  qed
qed

lemma resume_inline:
  fixes e :: "('c, 'f) Engine"
  assumes walk: "walkResponse e st units cursor0 scope None = (err, w)" and needs: "vw_needsBody w"
  obtains cont where "vw_continuation w = Some cont" and "aw_pending w = []" and "err = None"
    and "aw_disposition w = DispositionPassthrough"
    and "\<And>b. resume_response e (aw_st w) cont b = walkResponse e st units cursor0 scope (Some b)"
  using walk [unfolded walkResponse_def]
proof (cases rule: walk_loop_cases)
  case through
  from runs_response_clean(1) [OF runs_response_inline [OF through(1)]] needs show ?thesis
    by (simp add: clean_def)
next
  case (aborted xs p ys w1 e')
  from runs_response_clean(1) [OF runs_response_inline [OF aborted(2)]] needs
    response_pair_Abort_more [OF aborted(3)] show ?thesis
    by (simp add: clean_def responseWalk_more)
next
  case (returned xs p ys w1)
  from returned(3) needs runs_response_clean(1) [OF runs_response_inline [OF returned(2)]] obtain f v where
    cont: "vw_continuation w = Some \<lparr>cont_units = units, cont_paused = \<lparr>pi_f = f, pi_at = p_at p\<rparr>,
        cont_pending = aw_pending v, cont_scope = scope\<rparr>"
    and v: "clean v" "aw_st w = aw_st v" "aw_pending w = []" "aw_disposition w = DispositionPassthrough"
    and inline: "\<And>b. response_pair e units scope (Some b) p w1 =
          invokeBody apply_action p PhaseResponseBody (rm_responseBody (eng_metrics e ! cur_regIdx (p_at p)))
            (fst (call_response_body f (aw_st v) b)) v"
    by (rule response_pair_pause) blast
  have p: "p \<in> set (pairs e units cursor0 PhaseResponseHeaders)"
    by (simp add: returned(1))
  have ys: "pairs e units (cursor_next (p_at p) (length (eng_regs e))) PhaseResponseHeaders = ys"
    using pairs_mem(3) [OF p] by (intro pairs_suffix [OF returned(1)]) (auto simp: cursor0_def)
  show ?thesis
  proof (rule that [OF cont v(3) returned(4) v(4)])
    fix b
    let ?step = "response_pair e units scope (Some b)"
    let ?body = "invokeBody apply_action p PhaseResponseBody
       (rm_responseBody (eng_metrics e ! cur_regIdx (p_at p))) (fst (call_response_body f (aw_st v) b)) v"
    obtain c w2 where body: "?body = (c, w2)"
      by (cases ?body)
    have "walkResponse e st units cursor0 scope (Some b) = walk_loop ?step (p # ys) w1"
      unfolding walkResponse_def returned(1)
      by (rule walk_loop_runs [OF runs_response_inline [OF returned(2)]])
    then have whole: "walkResponse e st units cursor0 scope (Some b) =
        (case (c, w2) of (Abort e, w) \<Rightarrow> (Some e, w) | (Return, w) \<Rightarrow> (None, w) | (Next, w) \<Rightarrow> walk_loop ?step ys w)"
      by (simp add: inline body)
    have left: "left (aw_st v) c w2"
      using base_applier.invokeBody_ok [OF body, of "aw_st v"] v(1) by (simp add: clean_def running_fresh)
    have more: "vw_needsBody w2 = vw_needsBody v" "vw_continuation w2 = vw_continuation v"
      using invokeBody_more [OF body] by (simp_all add: responseWalk_more)
    have rest: "walk_loop ?step ys w2 =
        (case walkResponse e (aw_st w2) units (cursor_next (p_at p) (length (eng_regs e))) scope (Some b) of
           (walkErr, remaining) \<Rightarrow> (walkErr, adopt w2 remaining))" if "c = Next"
    proof -
      have clean2: "clean w2"
        using that left more v(1) by (auto simp: clean_def walk_ok_def halted_def split: if_splits)
      then have w2: "w2 = prepend (aw_pending w2) (newResponseWalk (aw_st w2))"
        using clean_eq [OF clean2] by (simp add: prepend_def)
      obtain err' rest where rest: "walkResponse e (aw_st w2) units
          (cursor_next (p_at p) (length (eng_regs e))) scope (Some b) = (err', rest)"
        by fastforce
      have "walk_loop ?step ys w2 = walk_loop ?step ys (prepend (aw_pending w2) (newResponseWalk (aw_st w2)))"
        using w2 by (rule arg_cong)
      also have "\<dots> = (err', prepend (aw_pending w2) rest)"
        using prepend_walk_loop [of "aw_st w2" "newResponseWalk (aw_st w2)" e units scope b ys "aw_pending w2"] rest
        by (simp add: running_fresh walkResponse_def ys)
      finally show ?thesis
        by (simp add: rest adopt_prepend [OF clean2 rest])
    qed
    have "pairAt e units (p_at p) = p"
      using pairs_mem(1) [OF p] by simp
    with body v(1) clean_eq [OF v(1)] show "resume_response e (aw_st w)
        \<lparr>cont_units = units, cont_paused = \<lparr>pi_f = f, pi_at = p_at p\<rparr>, cont_pending = aw_pending v, cont_scope = scope\<rparr> b =
        walkResponse e st units cursor0 scope (Some b)"
      unfolding whole by (cases c) (simp_all add: resume_response_def v(2) rest)
  qed
qed

text \<open>
  C6: pausing for the response body is invisible.  When response-header evaluation pauses for
  the body, resuming it with a body yields the disposition, reply, header operations, body,
  status, error and audit record that evaluating the headers with that body already available
  yields; nothing is skipped, repeated or reordered across the pause.
\<close>

theorem pause_then_resume_is_inline:
  assumes "EvalResponseHeaders e st units scope None = (paused, err, st1)" and "phr_needsBody paused"
    and "EvalResponseBody e st1 (Some paused) b = (br, err2, st2)"
    and "EvalResponseHeaders e st units scope (Some b) = (hr, err3, st3)"
  shows "pbr_Disposition br = phr_Disposition hr \<and> pbr_Reply br = phr_Reply hr \<and>
     pbr_HeaderOps br = phr_HeaderOps hr \<and> pbr_Body br = phr_Body hr \<and>
     pbr_StatusCode br = phr_StatusCode hr \<and> err2 = err3 \<and> st2 = st3 \<and> \<not> phr_needsBody hr"
proof -
  obtain werr w where walk: "walkResponse e st units cursor0 scope None = (werr, w)" by fastforce
  obtain subs where subs: "ValidateSubscriptions e units = Inr subs" "subs AND PhaseResponseHeaders \<noteq> 0"
    using assms(1,2)
    by (auto simp: EvalResponseHeaders_def ResponseHeadersResultZero_def split: sum.splits if_splits)
  have paused: "phr_needsBody paused = vw_needsBody w" "phr_continuation paused = vw_continuation w" "st1 = aw_st w"
    using assms(1) subs walk by (auto simp: EvalResponseHeaders_def split: prod.splits)
  obtain cont where cont: "vw_continuation w = Some cont"
    and resume: "\<And>b. resume_response e (aw_st w) cont b = walkResponse e st units cursor0 scope (Some b)"
    using resume_inline [OF walk] assms(2) paused(1) by metis
  obtain werr2 w2 where inline: "walkResponse e st units cursor0 scope (Some b) = (werr2, w2)" by fastforce
  have "\<not> vw_needsBody w2"
    using walkResponse_more [OF inline] by (simp add: responseWalk_more)
  then show ?thesis
    using assms(3,4) subs inline
    by (auto simp: EvalResponseHeaders_def EvalResponseBody_def paused cont resume split: prod.splits)
qed

theorem pause_then_resume_is_inline_witness:
  "let units = [scripted_unit ''a'' (script0\<lparr>script_ph := Inr (NeedBody [SetHeader ''x'' ''1'']),
                   script_pb := Inr (Continue [RemoveHeader ''x''])\<rparr>),
                 scripted_unit ''b'' (script0\<lparr>script_ph := Inr (Continue [SetHeader ''y'' ''2''])\<rparr>)];
        run = EvalResponseHeaders scripted_engine scripted_stream units ResponseScopeZero
   in phr_needsBody (fst (run None)) \<and>
      pbr_HeaderOps (fst (EvalResponseBody scripted_engine (snd (snd (run None))) (Some (fst (run None))) body0)) =
        phr_HeaderOps (fst (run (Some body0)))"
proof -
  let ?units = "[scripted_unit ''a'' (script0\<lparr>script_ph := Inr (NeedBody [SetHeader ''x'' ''1'']),
                   script_pb := Inr (Continue [RemoveHeader ''x''])\<rparr>),
                 scripted_unit ''b'' (script0\<lparr>script_ph := Inr (Continue [SetHeader ''y'' ''2''])\<rparr>)]"
  let ?run = "EvalResponseHeaders scripted_engine scripted_stream ?units ResponseScopeZero"
  let ?body = "EvalResponseBody scripted_engine (snd (snd (?run None))) (Some (fst (?run None))) body0"
  have needs: "phr_needsBody (fst (?run None))"
    by code_simp
  have "pbr_HeaderOps (fst ?body) = phr_HeaderOps (fst (?run (Some body0)))"
    using pause_then_resume_is_inline [of scripted_engine scripted_stream ?units ResponseScopeZero
        "fst (?run None)" "fst (snd (?run None))" "snd (snd (?run None))" body0 "fst ?body" "fst (snd ?body)" "snd (snd ?body)"
        "fst (?run (Some body0))" "fst (snd (?run (Some body0)))" "snd (snd (?run (Some body0)))"] needs
    by simp
  with needs show ?thesis
    by (simp add: Let_def)
qed

end
