(* ===== verification/Engine_Safety.thy ===== *)
theory Engine_Safety
  imports Engine_Order
begin

section \<open>Targets, views and metrics\<close>

text \<open>
  What the request direction promises to routing and authorization: a filter always sees the
  target selected so far, the body phase cannot move the target or rewrite a header that
  selects it, and no dispatch dereferences a metric the engine did not build.
\<close>

subsection \<open>The metrics table\<close>

lemma metrics_at:
  "i < length regs \<Longrightarrow> eng_metrics (NewEngine regs) ! i = reg_metrics (regs ! i)"
  by (simp add: NewEngine_def buildMetrics_def)

lemma eng_regs_NewEngine [simp]: "eng_regs (NewEngine regs) = regs"
  by (simp add: NewEngine_def)

lemma pair_metrics:
  assumes "p \<in> set (pairs (NewEngine regs) units start phases)"
  shows "eng_metrics (NewEngine regs) ! cur_regIdx (p_at p) = reg_metrics (p_reg p)"
    and "p_reg p = regs ! cur_regIdx (p_at p)" and "cur_regIdx (p_at p) < length regs"
proof -
  show idx: "cur_regIdx (p_at p) < length regs"
    using pairs_mem(3) [OF assms] by simp
  show reg: "p_reg p = regs ! cur_regIdx (p_at p)"
    using arg_cong [OF pairs_mem(1) [OF assms], of p_reg] by (simp add: pairAt_def)
  show "eng_metrics (NewEngine regs) ! cur_regIdx (p_at p) = reg_metrics (p_reg p)"
    by (simp add: metrics_at idx reg)
qed

lemma need_body_declared:
  assumes "validateAction reg phase act = None" and "act_kind act = KindNeedBody"
  shows "phase = PhaseRequestHeaders \<Longrightarrow> reg_Phases reg AND PhaseRequestBody \<noteq> 0"
    and "phase = PhaseResponseHeaders \<Longrightarrow> reg_Phases reg AND PhaseResponseBody \<noteq> 0"
  using assms by (auto simp: validateAction_None validate_kind_def split: if_splits)

definition bodies_declared :: "('c, 'f) Registration list \<Rightarrow> ('c, 'f) requestBodyInvocation list \<Rightarrow> bool" where
  "bodies_declared regs ivs \<longleftrightarrow>
     (\<forall>iv\<in>set ivs. cur_regIdx (rbi_at iv) < length regs \<and> reg_Phases (regs ! cur_regIdx (rbi_at iv)) AND PhaseRequestBody \<noteq> 0)"

lemma apply_request_bodies: "apply_request p act w = (err, w') \<Longrightarrow> rw_bodyFilters w' = rw_bodyFilters w"
  by (auto simp: apply_request_def apply_action_def walk_record_def split: ActionKind.splits if_splits option.splits)

lemma filterFailed_bodies [simp]: "rw_bodyFilters (filterFailed p phase err w) = rw_bodyFilters w"
  by (simp add: filterFailed_def walk_record_def)

lemma request_pair_settles:
  assumes "request_pair e p w = (c, w')"
  obtains (conflict) err where "c = Abort (RouteFold err)" and "w' = w"
  | (settled) r f w1 where "actionWalk.truncate w1 = actionWalk.truncate w" and "rw_bodyFilters w1 = rw_bodyFilters w"
      and "settle apply_request (need_request_body p f) p PhaseRequestHeaders
             (rm_requestHeaders (eng_metrics e ! cur_regIdx (p_at p))) r w1 = (c, w')"
proof (cases "streamView w")
  case (Inl err)
  with assms show ?thesis by (intro conflict) (auto simp: request_pair_def)
next
  case (Inr vw)
  then obtain view w1 where vw: "streamView w = Inr (view, w1)"
    by (cases vw) simp
  obtain r f where call: "call_request_headers (pair_new p) (view\<lparr>st_Info := st_Info (aw_st w1)\<rparr>) = (r, f)"
    by (cases "call_request_headers (pair_new p) (view\<lparr>st_Info := st_Info (aw_st w1)\<rparr>)")
  note same = streamView_same [OF vw]
  show ?thesis
    using assms [unfolded request_pair_def vw sum.case prod.case call]
    by (rule settled [rotated 2]) (use same in blast)+
qed

lemma request_pair_bodies:
  assumes "request_pair (NewEngine regs) p w = (c, w')" and "bodies_declared regs (rw_bodyFilters w)"
    and "p \<in> set (pairs (NewEngine regs) units start phases)"
  shows "bodies_declared regs (rw_bodyFilters w')"
  using assms(1)
proof (cases rule: request_pair_settles)
  case conflict
  with assms(2) show ?thesis by simp
next
  case (settled r f w1)
  from settled(3) show ?thesis
  proof (rule request_applier.settle_rule [where J = "\<lambda>c w. bodies_declared regs (rw_bodyFilters w)"])
    fix st act c v
    assume "validateAction (p_reg p) PhaseRequestHeaders act = None" "act_kind act = KindNeedBody"
      and "need_request_body p f act (w1\<lparr>aw_st := st\<rparr>) = (c, v)"
    moreover from this(1,2) have "reg_Phases (p_reg p) AND PhaseRequestBody \<noteq> 0"
      by (rule need_body_declared(1)) simp
    ultimately show "bodies_declared regs (rw_bodyFilters v)"
      using pair_metrics(2,3) [OF assms(3)] assms(2) settled(2)
      by (auto simp: need_request_body_def walk_record_def bodies_declared_def)
  next
    fix st act c v
    assume "fold_answer apply_request control p act (w1\<lparr>aw_st := st\<rparr>) = (c, v)"
    then have "rw_bodyFilters v = rw_bodyFilters w1"
      by (auto simp: fold_answer_def dest: apply_request_bodies split: prod.splits option.splits)
    with assms(2) settled(2) show "bodies_declared regs (rw_bodyFilters v)" by simp
  qed (use assms(2) settled(2) in simp_all)
qed

lemma walkRequest_bodies:
  assumes "walkRequest (NewEngine regs) st units = (err, w)"
  shows "bodies_declared regs (rw_bodyFilters w)"
  using assms [unfolded walkRequest_def]
  by (rule walk_loop_inv [where I = "\<lambda>w. bodies_declared regs (rw_bodyFilters w)"])
     (auto intro!: step_keepsI intro: request_pair_bodies simp: bodies_declared_def [of _ "[]"])

lemma walkRequest_no_panic:
  assumes "walkRequest (NewEngine regs) st units = (Some err, w)"
  shows "err \<noteq> NilMetrics"
proof -
  from walk_loop_error [OF assms [unfolded walkRequest_def] request_pair_keeps [of _ _ st]]
  obtain p w1 where p: "p \<in> set (pairs (NewEngine regs) units cursor0 PhaseRequestHeaders)"
    and w1: "running st w1" and step: "request_pair (NewEngine regs) p w1 = (Abort err, w)"
    by (auto simp: running_fresh)
  from step show ?thesis
  proof (cases rule: request_pair_settles)
    case (settled r f w2)
    have "rm_requestHeaders (eng_metrics (NewEngine regs) ! cur_regIdx (p_at p)) \<noteq> None"
      using pairs_mem(5) [OF p] by (simp add: pair_metrics(1) [OF p] reg_metrics_def)
    moreover have "\<not> halted w2"
      using w1 walk_truncate_eq(3) [OF settled(1)] by blast
    ultimately show ?thesis
      using settled(3) by (intro request_applier.settle_no_panic [OF settled(3)]) (auto simp: need_request_body_def)
  qed simp
qed

lemma request_body_no_panic:
  assumes "walk_loop (request_body_invocation (NewEngine regs) units view body) ivs w = (Some err, w')"
    and "bodies_declared regs ivs" and "running st w"
  shows "err \<noteq> NilMetrics"
proof -
  from walk_loop_error [OF assms(1) request_body_keeps assms(3)]
  obtain iv w1 where iv: "iv \<in> set ivs" and w1: "running st w1"
    and step: "request_body_invocation (NewEngine regs) units view body iv w1 = (Abort err, w')"
    by blast
  have "rm_requestBody (eng_metrics (NewEngine regs) ! cur_regIdx (rbi_at iv)) \<noteq> None"
    using assms(2) iv by (auto simp: bodies_declared_def metrics_at reg_metrics_def)
  with step w1 show ?thesis
    by (auto simp: request_body_invocation_def Let_def dest!: request_applier.invokeBody_no_panic)
qed

lemma walk_result_no_panic: "walk_result w = (red, err) \<Longrightarrow> err \<noteq> Some NilMetrics"
  by (auto simp: walk_result_def split: sum.splits prod.splits)

lemma EvalRequestBody_no_panic:
  assumes "EvalRequestBody (NewEngine regs) st (Some hr) b = (br, err, st')"
    and "bodies_declared regs (rhr_bodyFilters hr)"
  shows "err \<noteq> Some NilMetrics"
proof (cases "request_NeedsBody hr")
  case True
  obtain lerr w where loop: "walk_loop (request_body_invocation (NewEngine regs) (rhr_units hr) (routed (rhr_Route hr) st) b)
      (rhr_bodyFilters hr) ((newRequestWalk st)\<lparr>rw_scope := rhr_ResponseScope hr, aw_pending := rhr_pending hr\<rparr>) = (lerr, w)"
    by fastforce
  have "lerr \<noteq> Some NilMetrics"
  proof
    assume "lerr = Some NilMetrics"
    with loop have "NilMetrics \<noteq> NilMetrics"
      by (intro request_body_no_panic [OF _ assms(2), where st = st]) (auto simp: running_fresh)
    then show False by simp
  qed
  then show ?thesis
    using assms(1) True
    by (auto simp: EvalRequestBody_def loop Let_def split: prod.splits option.splits dest: walk_result_no_panic)
qed (use assms(1) in \<open>simp add: EvalRequestBody_def\<close>)

text \<open>
  C19: no dispatch dereferences a nil metric.  The engine builds a duration histogram only for
  the phases a registration declares, and a callback that declares a body asks for a body
  callback of its own; for an engine made by \<open>NewEngine\<close>, evaluating the request headers,
  with or without a body at hand, and then the request body never reaches a phase without
  its metrics.
\<close>

theorem request_metrics_present:
  assumes "EvalRequestHeaders (NewEngine regs) st units avail = (hr, err, st1)"
  shows "err \<noteq> Some NilMetrics \<and>
     fst (snd (EvalRequestBody (NewEngine regs) st2 (Some hr) b)) \<noteq> Some NilMetrics"
proof (cases "validateUnits (NewEngine regs) units")
  case None
  obtain werr w where walk: "walkRequest (NewEngine regs) st units = (werr, w)" by fastforce
  obtain red rerr where red: "walk_result w = (red, rerr)" by fastforce
  let ?res = "\<lparr>rhr_Disposition = ar_disposition red, rhr_Reply = ar_reply red, rhr_HeaderOps = ar_headerOps red,
      rhr_Route = ar_route red, rhr_Body = ar_body red, rhr_ResponseScope = rw_scope w,
      rhr_bodyFilters = rw_bodyFilters w, rhr_units = units, rhr_pending = aw_pending w\<rparr>"
  have err: "(case werr of None \<Rightarrow> rerr | Some e \<Rightarrow> Some e) \<noteq> Some NilMetrics"
  proof (cases werr)
    case (Some e)
    with walkRequest_no_panic [OF walk [unfolded Some]] show ?thesis by simp
  qed (simp add: walk_result_no_panic [OF red])
  note bodies = walkRequest_bodies [OF walk]
  have body: "fst (snd (EvalRequestBody (NewEngine regs) s (Some r) c)) \<noteq> Some NilMetrics"
    if "bodies_declared regs (rhr_bodyFilters r)" for s r c
    using EvalRequestBody_no_panic [OF _ that] by (cases "EvalRequestBody (NewEngine regs) s (Some r) c") auto
  consider (plain) "hr = ?res" "err \<noteq> Some NilMetrics"
    | (inline) c br where "EvalRequestBody (NewEngine regs) (aw_st w) (Some ?res) c = (br, err, st1)" "hr = HeadersResult br"
    using assms None err
    by (auto simp: EvalRequestHeaders_def walk red Let_def split: option.splits if_splits prod.splits)
  then show ?thesis
  proof cases
    case plain
    with body [of hr] bodies show ?thesis by simp
  next
    case (inline c br)
    have "bodies_declared regs (rhr_bodyFilters hr)"
      by (simp add: inline(2) HeadersResult_def RequestHeadersResultZero_def bodies_declared_def)
    with body [of hr] body [of ?res "aw_st w" c] bodies inline(1) show ?thesis by simp
  qed
next
  case (Some e)
  have "\<not> validateUnits_from n us = Some NilMetrics" for n and us :: "'a Unit list"
    by (induction us) auto
  with Some assms show ?thesis
    by (auto simp: EvalRequestHeaders_def EvalRequestBody_def validateUnits_def RequestHeadersResultZero_def
        request_NeedsBody_def)
qed

theorem request_metrics_present_witness:
  "fst (snd (EvalRequestBody scripted_engine scripted_stream (Some (fst (EvalRequestHeaders scripted_engine
      scripted_stream [scripted_unit ''a'' (script0\<lparr>script_rh := Inr (NeedBody [])\<rparr>)] None))) body0)) \<noteq> Some NilMetrics"
proof -
  let ?r = "EvalRequestHeaders scripted_engine scripted_stream [scripted_unit ''a'' (script0\<lparr>script_rh := Inr (NeedBody [])\<rparr>)] None"
  have "?r = (fst ?r, fst (snd ?r), snd (snd ?r))" by simp
  from conjunct2 [OF request_metrics_present [OF this]] show ?thesis .
qed

subsection \<open>The view a filter receives\<close>

text \<open>The cache of a walk: the route folded from the mutations it has seen, and the view built from it.\<close>

definition view_inv :: "'c Stream \<Rightarrow> ('c, 'f) requestWalk \<Rightarrow> bool" where
  "view_inv st w \<longleftrightarrow>
     same_but_info st (aw_st w) \<and> rw_viewed w \<le> length (aw_pending w) \<and>
     foldRoute (take (rw_viewed w) (aw_pending w)) = Inr (rw_route w) \<and>
     (case rw_view w of None \<Rightarrow> True | Some v \<Rightarrow> same_but_info v (routed (rw_route w) st))"

lemma routed_info: "same_but_info a b \<Longrightarrow> same_but_info (routed r a) (routed r b)"
  by (cases a; cases b) (auto simp: same_but_info_def routed_def split: option.splits)

lemma same_but_info_eq: "same_but_info a b \<Longrightarrow> a\<lparr>st_Info := st_Info b\<rparr> = b"
  by (cases a; cases b) (simp add: same_but_info_def)

lemma same_but_info_sym: "same_but_info a b \<Longrightarrow> same_but_info b a"
  by (simp add: same_but_info_def)

lemma routed_Info [simp]: "st_Info (routed r st) = st_Info st"
  by (simp add: routed_def split: option.splits)

lemma streamView_reference:
  assumes "view_inv st w"
  shows "map_sum id (\<lambda>(view, w1). view\<lparr>st_Info := st_Info (aw_st w1)\<rparr>) (streamView w) =
         map_sum id (\<lambda>route. routed route (aw_st w)) (foldRoute (aw_pending w))"
    and "streamView w = Inr (view, w1) \<Longrightarrow> view_inv st w1 \<and> rw_viewed w1 = length (aw_pending w1)"
proof -
  let ?fresh = "drop (rw_viewed w) (aw_pending w)"
  have whole: "foldRoute (aw_pending w) = foldRouteFrom (rw_route w) ?fresh"
    using assms foldRouteFrom_append [of None "take (rw_viewed w) (aw_pending w)" ?fresh]
    by (simp add: view_inv_def foldRoute_def)
  have kept: "r = rw_route w" if "foldRouteFrom (rw_route w) ?fresh = Inr r" "\<not> list_ex (\<lambda>m. mut_Route m \<noteq> None) ?fresh" for r
    using that foldRouteFrom_untouched [of ?fresh "rw_route w"] by (auto simp: list_ex_iff)
  have st: "same_but_info (routed r st) (routed r (aw_st w))" for r
    using assms by (intro routed_info) (simp add: view_inv_def)
  have cached: "same_but_info v (routed (rw_route w) (aw_st w))" if "rw_view w = Some v" for v
    using assms that same_but_info_trans [OF _ st] by (auto simp: view_inv_def)
  show "map_sum id (\<lambda>(view, w1). view\<lparr>st_Info := st_Info (aw_st w1)\<rparr>) (streamView w) =
         map_sum id (\<lambda>route. routed route (aw_st w)) (foldRoute (aw_pending w))"
    unfolding whole streamView_def Let_def
    using kept same_but_info_eq [OF cached]
    by (cases "rw_view w") (auto split: sum.splits simp: same_but_info_eq)
  show "view_inv st w1 \<and> rw_viewed w1 = length (aw_pending w1)" if "streamView w = Inr (view, w1)"
    using that assms kept whole same_but_info_sym [OF st]
    by (auto simp: streamView_def Let_def view_inv_def split: sum.splits if_splits)
qed

lemma request_pair_view:
  assumes "request_pair e p w = (Next, w')" and "view_inv st w" and "\<not> halted w"
  shows "view_inv st w' \<and> \<not> halted w'"
proof -
  obtain view w1 where vw: "streamView w = Inr (view, w1)"
    using assms(1) by (auto simp: request_pair_def split: sum.splits)
  obtain r f where call: "call_request_headers (pair_new p) (view\<lparr>st_Info := st_Info (aw_st w1)\<rparr>) = (r, f)"
    by (cases "call_request_headers (pair_new p) (view\<lparr>st_Info := st_Info (aw_st w1)\<rparr>)")
  note w1 = streamView_reference(2) [OF assms(2) vw]
  have live: "\<not> halted w1"
    using assms(3) walk_truncate_eq(3) streamView_same [OF vw] by blast
  let ?same = "\<lambda>v. rw_view v = rw_view w1 \<and> rw_viewed v = rw_viewed w1 \<and> rw_route v = rw_route w1 \<and>
      same_but_info (aw_st w1) (aw_st v) \<and> (\<exists>ms. aw_pending v = aw_pending w1 @ ms) \<and> \<not> halted v"
  have "Next = Next \<longrightarrow> ?same w'"
    using assms(1) [unfolded request_pair_def vw sum.case prod.case call]
  proof (rule request_applier.settle_rule [where J = "\<lambda>c v. c = Next \<longrightarrow> ?same v"])
    fix s act c v
    assume "stream_grows (aw_st w1) s" "fold_answer apply_request control p act (w1\<lparr>aw_st := s\<rparr>) = (c, v)"
    then show "c = Next \<longrightarrow> ?same v"
      by (auto simp: fold_answer_def apply_request_def apply_action_def walk_record_def stream_grows_def halted_def
          split: ActionKind.splits if_splits)
  next
    fix s act c v
    assume "stream_grows (aw_st w1) s" "need_request_body p f act (w1\<lparr>aw_st := s\<rparr>) = (c, v)"
    then show "c = Next \<longrightarrow> ?same v"
      using live by (auto simp: need_request_body_def walk_record_def stream_grows_def halted_def)
  next
    fix s err
    assume "stream_grows (aw_st w1) s"
    then show "control (filterFailed p PhaseRequestHeaders err (w1\<lparr>aw_st := s\<rparr>)) = Next \<longrightarrow>
        ?same (filterFailed p PhaseRequestHeaders err (w1\<lparr>aw_st := s\<rparr>))"
      by (auto simp: filterFailed_def walk_record_def stream_grows_def halted_def)
  qed simp_all
  with w1 show ?thesis
    by (auto simp: view_inv_def intro: same_but_info_trans split: option.splits)
qed

text \<open>
  C18: the view a request-header filter receives is the stream with the target selected by
  every mutation accepted before it.  The walk keeps a cached view and folds only the
  mutations appended since it was built; in every state the loop reaches, this yields
  exactly what folding all pending mutations from the start and rebuilding the view would
  yield, including the conflict that stops the walk.
\<close>

theorem incremental_view_is_the_reference:
  assumes "runs (request_pair e) ps (newRequestWalk st) w"
  shows "map_sum id (\<lambda>(view, w1). view\<lparr>st_Info := st_Info (aw_st w1)\<rparr>) (streamView w) =
         map_sum id (\<lambda>route. routed route (aw_st w)) (foldRoute (aw_pending w))"
proof -
  have "view_inv st w \<and> \<not> halted w"
    using assms
  proof (rule runs_inv)
    show "view_inv st (newRequestWalk st) \<and> \<not> halted (newRequestWalk st)"
      by (simp add: view_inv_def foldRoute_def halted_def)
  qed (use request_pair_view in blast)
  then show ?thesis
    by (intro streamView_reference(1) [where st = st]) simp
qed

theorem incremental_view_is_the_reference_witness:
  "case request_pair scripted_engine
      (pairAt scripted_engine [scripted_unit ''a'' (script0\<lparr>script_rh := Inr (Continue [SetHeader ''x'' ''1''])\<rparr>)] cursor0)
      (newRequestWalk scripted_stream) of
     (c, w) \<Rightarrow> aw_pending w \<noteq> [] \<and>
       map_sum id (\<lambda>(view, w1). view\<lparr>st_Info := st_Info (aw_st w1)\<rparr>) (streamView w) =
       map_sum id (\<lambda>route. routed route (aw_st w)) (foldRoute (aw_pending w))"
proof -
  let ?p = "pairAt scripted_engine [scripted_unit ''a'' (script0\<lparr>script_rh := Inr (Continue [SetHeader ''x'' ''1''])\<rparr>)] cursor0"
  let ?r = "request_pair scripted_engine ?p (newRequestWalk scripted_stream)"
  have "fst ?r = Next" and pending: "aw_pending (snd ?r) \<noteq> []"
    by code_simp+
  then have "?r = (Next, snd ?r)"
    by (simp add: prod_eq_iff)
  then have "runs (request_pair scripted_engine) [?p] (newRequestWalk scripted_stream) (snd ?r)"
    by (rule runs_Cons) (rule runs_Nil)
  from incremental_view_is_the_reference [OF this] pending show ?thesis
    by (simp add: case_prod_beta)
qed

subsection \<open>The target after the headers\<close>

definition upstream_of :: "RouteMutation option \<Rightarrow> UpstreamTarget option" where
  "upstream_of r = (case r of None \<Rightarrow> None | Some r \<Rightarrow> rt_Upstream r)"

lemma body_mutations_keep_upstream:
  "list_all (mut_ok PhaseRequestBody) ms \<Longrightarrow> foldRouteFrom r ms = Inr r' \<Longrightarrow> upstream_of r' = upstream_of r"
proof (induction ms arbitrary: r)
  case (Cons m ms)
  have ok: "selects_upstream m = False" "list_all (mut_ok PhaseRequestBody) ms"
    using Cons.prems(1) by (simp_all add: mut_ok_def [of _ m])
  obtain r1 where r1: "foldRouteFrom r1 ms = Inr r'" and "upstream_of r1 = upstream_of r"
  proof (cases "mut_Route m")
    case None
    with Cons.prems(2) show ?thesis by (intro that [of r]) simp_all
  next
    case (Some rt)
    with ok(1) have "rt_Upstream rt = None"
      by (simp add: selects_upstream_def)
    then show ?thesis
      using Cons.prems(2) Some
      by (intro that [of "Some ((case r of None \<Rightarrow> \<lparr>rt_Upstream = None, rt_ClearCache = False\<rparr> | Some q \<Rightarrow> q)
             \<lparr>rt_ClearCache := (case r of None \<Rightarrow> False | Some q \<Rightarrow> rt_ClearCache q) \<or> rt_ClearCache rt\<rparr>)"])
         (auto simp: upstream_of_def Let_def split: option.splits)
  qed
  with Cons.IH [OF ok(2) r1] show ?case by simp
qed simp

lemma fold_op_away:
  assumes "foldl fold_op (s, order) qs = (s', order')" and "\<forall>q\<in>set qs. op_key q \<notin> K"
  shows "(\<forall>k\<in>K. s' k = s k) \<and> [k \<leftarrow> order'. k \<in> K] = [k \<leftarrow> order. k \<in> K]"
  using assms
proof (induction qs arbitrary: s order)
  case (Cons q qs)
  obtain s1 o1 where step: "fold_op (s, order) q = (s1, o1)" by fastforce
  have "(\<forall>k\<in>K. s1 k = s k) \<and> [k \<leftarrow> o1. k \<in> K] = [k \<leftarrow> order. k \<in> K]"
    using step Cons.prems(2) by (auto simp: Let_def split: option.splits)
  moreover have "(\<forall>k\<in>K. s' k = s1 k) \<and> [k \<leftarrow> order'. k \<in> K] = [k \<leftarrow> o1. k \<in> K]"
    using Cons.prems step by (intro Cons.IH) (simp_all del: fold_op.simps)
  ultimately show ?case by auto
qed auto

lemma fold_emits_key:
  assumes "fold_states muts = (states, order)"
  shows "\<forall>p\<in>set (case states k of None \<Rightarrow> [] | Some s \<Rightarrow> emit_key s). op_key p = k"
proof -
  have "envoy.fold_inv [] (Map.empty, [])"
    by (simp add: envoy.fold_inv_def)
  from envoy.fold_ops_inv [OF this, of "concat (map mut_HeaderOps muts)"]
  have "envoy.fold_inv (concat (map mut_HeaderOps muts)) (states, order)"
    by (simp only: fold_states_foldl [symmetric] assms append_Nil)
  from envoy.fold_inv_key [OF this, of k] show ?thesis
    using envoy.emit_key_order(2) by (cases "states k") auto
qed

lemma filter_concat_keys:
  assumes "\<And>k. \<forall>p\<in>set (g k). op_key p = k"
  shows "[p \<leftarrow> concat (map g ks). op_key p \<in> K] = concat (map g [k \<leftarrow> ks. k \<in> K])"
proof (induction ks)
  case (Cons a ks)
  have "[p \<leftarrow> g a. op_key p \<in> K] = (if a \<in> K then g a else [])"
    using assms [of a] by (auto simp: filter_empty_conv intro!: filter_True)
  with Cons show ?case by auto
qed simp

text \<open>Operations on other names leave the folded operations on the names of \<open>K\<close> alone.\<close>

lemma fold_ops_away:
  assumes "\<forall>m\<in>set ys. \<forall>q\<in>set (mut_HeaderOps m). op_key q \<notin> K"
  shows "[q \<leftarrow> fold_ops (xs @ ys). op_key q \<in> K] = [q \<leftarrow> fold_ops xs. op_key q \<in> K]"
proof -
  obtain s order where xs: "fold_states xs = (s, order)" by fastforce
  obtain s' order' where all: "fold_states (xs @ ys) = (s', order')" by fastforce
  let ?emit = "\<lambda>s k. case s k of None \<Rightarrow> [] | Some st \<Rightarrow> emit_key st"
  have "foldl fold_op (s, order) (concat (map mut_HeaderOps ys)) = (s', order')"
    using xs all by (simp add: fold_states_foldl)
  from fold_op_away [OF this, of K] assms
  have same: "\<forall>k\<in>K. s' k = s k" "[k \<leftarrow> order'. k \<in> K] = [k \<leftarrow> order. k \<in> K]"
    by auto
  have "[q \<leftarrow> fold_ops (xs @ ys). op_key q \<in> K] = concat (map (?emit s') [k \<leftarrow> order'. k \<in> K])"
    using filter_concat_keys [OF fold_emits_key [OF all]] by (simp add: fold_ops_def all)
  also have "\<dots> = concat (map (?emit s) [k \<leftarrow> order. k \<in> K])"
    unfolding same(2) using same(1) by (intro arg_cong [where f = concat] map_cong) auto
  also have "\<dots> = [q \<leftarrow> fold_ops xs. op_key q \<in> K]"
    using filter_concat_keys [OF fold_emits_key [OF xs]] by (simp add: fold_ops_def xs)
  finally show ?thesis .
qed

lemma request_body_extends:
  assumes "walk_loop (request_body_invocation e units view body) ivs w = (err, w')" and "running st w"
  shows "extends_by (mut_ok PhaseRequestBody) (aw_pending w) w'"
  using assms(1)
proof (rule walk_loop_inv)
  let ?I = "\<lambda>v. extends_by (mut_ok PhaseRequestBody) (aw_pending w) v"
  show "step_keeps (request_body_invocation e units view body) ivs (\<lambda>v. ?I v \<and> running st v) ?I"
  proof (rule step_keepsI)
    fix iv v c v'
    assume iv: "iv \<in> set ivs" and v: "?I v \<and> running st v"
      and step: "request_body_invocation e units view body iv v = (c, v')"
    have "?I v'"
      using v
      by (intro request_applier.invokeBody_extends [OF step [unfolded request_body_invocation_def Let_def]])
         (simp_all add: validateAction_None)
    moreover have "left st c v'"
      using step_keepsD [OF request_body_keeps iv _ step] v by blast
    ultimately show "?I v' \<and> (c = Next \<longrightarrow> ?I v' \<and> running st v')" by blast
  qed
  show "?I w \<and> running st w"
    using assms(2) by (simp add: extends_by_def)
qed (simp add: extends_by_def)

lemma EvalRequestBody_target:
  assumes "EvalRequestBody e st (Some pr) b = (br, None, st')" and "request_NeedsBody pr"
    and "rbr_Disposition br \<noteq> DispositionBlocked" and "foldRoute (rhr_pending pr) = Inr route"
  shows "upstream_of (rbr_Route br) = upstream_of (if rhr_Route pr = None then route else rhr_Route pr)"
    and "[q \<leftarrow> rbr_HeaderOps br. op_key q \<in> set lateHeaders] =
         [q \<leftarrow> fold_ops (rhr_pending pr). op_key q \<in> set lateHeaders]"
proof -
  let ?start = "(newRequestWalk st)\<lparr>rw_scope := rhr_ResponseScope pr, aw_pending := rhr_pending pr\<rparr>"
  obtain lerr w where loop: "walk_loop (request_body_invocation e (rhr_units pr) (routed (rhr_Route pr) st) b)
      (rhr_bodyFilters pr) ?start = (lerr, w)"
    by fastforce
  define w' where "w' = (if \<not> halted w \<and> rhr_Disposition pr = DispositionBypassed
        then w\<lparr>aw_disposition := DispositionBypassed\<rparr> else w)"
  obtain red rerr where red: "walk_result w' = (red, rerr)" by fastforce
  have br: "rbr_Disposition br = ar_disposition red" "rbr_HeaderOps br = ar_headerOps red" "rerr = None"
    "rbr_Route br = (if ar_disposition red \<noteq> DispositionBlocked \<and> rhr_Route pr \<noteq> None then rhr_Route pr else ar_route red)"
    using assms(1,2) by (auto simp: EvalRequestBody_def loop Let_def w'_def [symmetric] red split: option.splits)
  from red br(3) obtain folded where red': "foldRoute (aw_pending w') = Inr folded" "ar_headerOps red = fold_ops (aw_pending w')"
      "ar_route red = folded" "ar_disposition red = resolved w'"
    by (auto simp: walk_result_def foldPending_def split: sum.splits)
  have "extends_by (mut_ok PhaseRequestBody) (rhr_pending pr) w"
    using request_body_extends [OF loop, of st] by (simp add: running_fresh)
  moreover have "aw_disposition w \<noteq> DispositionBlocked"
    using assms(3) br(1) red'(4) by (auto simp: resolved_def w'_def halted_def split: if_splits)
  moreover have "aw_pending w' = aw_pending w"
    by (simp add: w'_def)
  ultimately obtain ms where ms: "aw_pending w' = rhr_pending pr @ ms" "list_all (mut_ok PhaseRequestBody) ms"
    by (auto simp: extends_by_def)
  have "foldRouteFrom route ms = Inr folded"
    using red'(1) assms(4) by (simp add: ms(1) foldRoute_def foldRouteFrom_append)
  from body_mutations_keep_upstream [OF ms(2) this] assms(3)
  show "upstream_of (rbr_Route br) = upstream_of (if rhr_Route pr = None then route else rhr_Route pr)"
    using br red'(3) by auto
  have "\<forall>m\<in>set ms. \<forall>q\<in>set (mut_HeaderOps m). op_key q \<notin> set lateHeaders"
    using ms(2) by (auto simp: list_all_iff mut_ok_def)
  from fold_ops_away [OF this, of "rhr_pending pr"]
  show "[q \<leftarrow> rbr_HeaderOps br. op_key q \<in> set lateHeaders] =
         [q \<leftarrow> fold_ops (rhr_pending pr). op_key q \<in> set lateHeaders]"
    by (simp add: br(2) red'(2) ms(1))
qed

text \<open>
  Whatever target \<open>R\<close> the adapter stored on the header result (the folded route, or the one
  authorization pinned), a request-body evaluation that does not block returns a route with
  the same upstream, and its operations on the headers that name the target and the method
  are those of the header phase.
\<close>

lemma request_body_keeps_the_target:
  assumes "EvalRequestHeaders e st units None = (hr, None, st1)" and "request_NeedsBody hr"
    and "R = rhr_Route hr \<or> R = Some pinned"
    and "EvalRequestBody e st2 (Some (hr\<lparr>rhr_Route := R\<rparr>)) b = (br, None, st3)"
    and "rbr_Disposition br \<noteq> DispositionBlocked"
  shows "upstream_of (rbr_Route br) = upstream_of R \<and>
     [q \<leftarrow> rbr_HeaderOps br. op_key q \<in> set lateHeaders] = [q \<leftarrow> rhr_HeaderOps hr. op_key q \<in> set lateHeaders]"
proof -
  obtain werr w where walk: "walkRequest e st units = (werr, w)" by fastforce
  have "foldRoute (rhr_pending hr) = Inr (rhr_Route hr) \<and> rhr_HeaderOps hr = fold_ops (rhr_pending hr)"
    using assms(1)
    by (auto simp: EvalRequestHeaders_def walk walk_result_def foldPending_def Let_def split: option.splits sum.splits)
  with EvalRequestBody_target [OF assms(4) _ assms(5), of "rhr_Route hr"] assms(2,3) show ?thesis
    by (auto simp: request_NeedsBody_def)
qed

end
