(* ===== verification/Extproc_Wire.thy ===== *)
theory Extproc_Wire
  imports Engine_Safety Complex_Main "HOL-Library.AList"
begin

section \<open>From results to the wire\<close>

text \<open>
  \<open>extensions/epe/pkg/extproc/translate.go\<close>, \<open>route.go\<close>, \<open>outcome.go\<close> and \<open>responses.go\<close>:
  the messages sent to the proxy, as far as the adapter writes or reads them.  A oneof is a
  datatype, a message pointer an option, and the field map of a \<open>structpb.Struct\<close> an
  association list; \<open>ValueNil\<close> is a nil value or one whose kind is unset, which every getter
  treats alike, and a number is a rational, as every finite float64 is.
\<close>

subsection \<open>Messages\<close>

datatype AppendAction = APPEND_IF_EXISTS_OR_ADD | OVERWRITE_IF_EXISTS_OR_ADD

record HeaderValueOption =
  hvo_Key :: string
  hvo_RawValue :: bytes
  hvo_AppendAction :: AppendAction

record HeaderMutation =
  hm_SetHeaders :: "HeaderValueOption list"
  hm_RemoveHeaders :: "string list"

datatype BodyMutation = BodyMutationUnset | BodyMutation_Body bytes

datatype ResponseStatus = CONTINUE | CONTINUE_AND_REPLACE

record CommonResponse =
  cr_Status :: ResponseStatus
  cr_HeaderMutation :: "HeaderMutation option"
  cr_BodyMutation :: "BodyMutation option"
  cr_ClearRouteCache :: bool

record ImmediateResponse =
  im_Status :: "32 word"
  im_Headers :: "HeaderMutation option"
  im_Body :: bytes
  im_Details :: string

datatype Value =
    ValueNil
  | NullValue
  | NumberValue rat
  | StringValue string
  | BoolValue bool
  | StructValue "(string \<times> Value) list"
  | ListValue "Value list"

type_synonym Struct = "(string \<times> Value) list"

datatype BodySendMode = MODE_NONE | MODE_BUFFERED

datatype HeaderSendMode = MODE_DEFAULT | MODE_SEND

record ProcessingMode =
  pm_ResponseHeaderMode :: HeaderSendMode
  pm_RequestBodyMode :: BodySendMode
  pm_ResponseBodyMode :: BodySendMode

datatype ResponseArm =
    RequestHeaders "CommonResponse option"
  | RequestBody "CommonResponse option"
  | RequestTrailers
  | ResponseHeaders "CommonResponse option"
  | ResponseBody "CommonResponse option"
  | ResponseTrailers
  | Immediate ImmediateResponse

record ProcessingResponse =
  pr_Response :: ResponseArm
  pr_DynamicMetadata :: "Struct option"
  pr_ModeOverride :: "ProcessingMode option"

definition CommonResponseZero :: CommonResponse where
  "CommonResponseZero =
     \<lparr>cr_Status = CONTINUE, cr_HeaderMutation = None, cr_BodyMutation = None, cr_ClearRouteCache = False\<rparr>"

definition respond :: "ResponseArm \<Rightarrow> ProcessingResponse" where
  "respond arm = \<lparr>pr_Response = arm, pr_DynamicMetadata = None, pr_ModeOverride = None\<rparr>"

fun GetStringValue :: "Value \<Rightarrow> string" where
  "GetStringValue (StringValue s) = s"
| "GetStringValue _ = []"

fun GetNumberValue :: "Value \<Rightarrow> rat" where
  "GetNumberValue (NumberValue n) = n"
| "GetNumberValue _ = 0"

fun GetStructValue :: "Value \<Rightarrow> Struct option" where
  "GetStructValue (StructValue fs) = Some fs"
| "GetStructValue _ = None"

subsection \<open>Header mutations and local replies\<close>

definition routeAffectingHeaders :: "string list" where
  "routeAffectingHeaders = ['':authority'', '':method'', '':scheme'', ''host'']"

definition header_value_option :: "AppendAction \<Rightarrow> HeaderOp \<Rightarrow> HeaderValueOption" where
  "header_value_option a p = \<lparr>hvo_Key = op_Name p, hvo_RawValue = op_Value p, hvo_AppendAction = a\<rparr>"

fun header_mutation_step :: "HeaderMutation \<times> bool \<Rightarrow> HeaderOp \<Rightarrow> HeaderMutation \<times> bool" where
  "header_mutation_step (mut, clear) p =
     (case op_Kind p of
        HeaderSet \<Rightarrow> mut\<lparr>hm_SetHeaders := hm_SetHeaders mut @ [header_value_option OVERWRITE_IF_EXISTS_OR_ADD p]\<rparr>
      | HeaderAdd \<Rightarrow> mut\<lparr>hm_SetHeaders := hm_SetHeaders mut @ [header_value_option APPEND_IF_EXISTS_OR_ADD p]\<rparr>
      | HeaderRemove \<Rightarrow> mut\<lparr>hm_RemoveHeaders := hm_RemoveHeaders mut @ [op_Name p]\<rparr>,
      clear \<or> op_Name p \<in> set routeAffectingHeaders)"

definition headerMutationFromOps :: "HeaderOp list \<Rightarrow> HeaderMutation \<times> bool" where
  "headerMutationFromOps ops =
     foldl header_mutation_step (\<lparr>hm_SetHeaders = [], hm_RemoveHeaders = []\<rparr>, False) ops"

definition overwriteHeader :: "string \<Rightarrow> string \<Rightarrow> HeaderValueOption" where
  "overwriteHeader name v = \<lparr>hvo_Key = name, hvo_RawValue = v, hvo_AppendAction = OVERWRITE_IF_EXISTS_OR_ADD\<rparr>"

definition immediateFromReply :: "Reply \<Rightarrow> ProcessingResponse" where
  "immediateFromReply r =
     respond (Immediate
       \<lparr>im_Status = word_of_int (reply_Status r),
        im_Headers = (if reply_HeaderOps r \<noteq> [] then Some (fst (headerMutationFromOps (reply_HeaderOps r))) else None),
        im_Body = reply_Body r, im_Details = reply_Details r\<rparr>)"

definition commonResponse ::
  "HeaderOp list \<Rightarrow> bytes option \<Rightarrow> int option \<Rightarrow> bool \<Rightarrow> bool \<Rightarrow> bool \<Rightarrow> CommonResponse" where
  "commonResponse ops body statusCode clearRouteCache headersPhase requestDirection =
     (let (mut, routeAffecting) = headerMutationFromOps ops;
          status = (case statusCode of None \<Rightarrow> [] | Some c \<Rightarrow> [overwriteHeader '':status'' (Itoa c)]);
          len = (case body of None \<Rightarrow> [] | Some b \<Rightarrow> [overwriteHeader ''content-length'' (Itoa (int (length b)))])
      in \<lparr>cr_Status = (if body \<noteq> None \<and> headersPhase then CONTINUE_AND_REPLACE else CONTINUE),
          cr_HeaderMutation = Some (mut\<lparr>hm_SetHeaders := hm_SetHeaders mut @ status @ len\<rparr>),
          cr_BodyMutation = map_option BodyMutation_Body body,
          cr_ClearRouteCache = (requestDirection \<and> (clearRouteCache \<or> routeAffecting))\<rparr>)"

subsection \<open>Fixed responses (\<open>responses.go\<close>)\<close>

definition connectBodyUnsupportedStatus :: int where
  "connectBodyUnsupportedStatus = 500"

definition missingIdentityStatus :: int where
  "missingIdentityStatus = 403"

definition local_reply :: "int \<Rightarrow> string \<Rightarrow> Reply" where
  "local_reply status details = ReplyZero\<lparr>reply_Status := status, reply_Details := details\<rparr>"

definition defaultPassThrough :: "ProcessingResponse list" where
  "defaultPassThrough = [respond (RequestHeaders None)]"

definition connectRequestBodyUnsupportedReply :: Reply where
  "connectRequestBodyUnsupportedReply =
     local_reply connectBodyUnsupportedStatus ''epe_connect_request_body_unsupported''"

definition connectResponseBodyUnsupportedReply :: Reply where
  "connectResponseBodyUnsupportedReply =
     local_reply connectBodyUnsupportedStatus ''epe_connect_response_body_unsupported''"

definition missingIdentityDeny :: "ProcessingResponse list" where
  "missingIdentityDeny = [immediateFromReply (local_reply missingIdentityStatus ''epe_missing_source_identity'')]"

definition invalidRouteUpstreamDeny :: "ProcessingResponse list" where
  "invalidRouteUpstreamDeny = [immediateFromReply (local_reply 500 ''epe_invalid_route_upstream'')]"

definition policyUnavailableDeny :: "ProcessingResponse list" where
  "policyUnavailableDeny = [immediateFromReply (local_reply 503 ''epe_policy_unavailable'')]"

definition emptyRequestTrailersAck :: "ProcessingResponse list" where
  "emptyRequestTrailersAck = [respond RequestTrailers]"

definition emptyResponseTrailersAck :: "ProcessingResponse list" where
  "emptyResponseTrailersAck = [respond ResponseTrailers]"

definition defaultPassThroughBody :: "ProcessingResponse list" where
  "defaultPassThroughBody = [respond (RequestBody None)]"

definition defaultPassThroughResponseBody :: "ProcessingResponse list" where
  "defaultPassThroughResponseBody = [respond (ResponseBody None)]"

definition emptyResponseHeadersAck :: "ProcessingResponse list" where
  "emptyResponseHeadersAck = [respond (ResponseHeaders None)]"

definition invalidRouteMutationDeny :: ProcessingResponse where
  "invalidRouteMutationDeny = immediateFromReply (local_reply 500 ''epe_invalid_route_mutation'')"

definition conflictingUpstreamTargetDeny :: ProcessingResponse where
  "conflictingUpstreamTargetDeny = immediateFromReply (local_reply 500 ''epe_conflicting_upstream_target'')"

subsection \<open>Route metadata (\<open>route.go\<close>)\<close>

text \<open>
  \<open>metadataObject\<close> returns the object its caller goes on to fill; the caller's writes into
  the nested objects are the \<open>AList.update\<close>s at the end of \<open>applyRouteMutation\<close>.  A copy made
  by \<open>cloneResponse\<close> is the value itself.
\<close>

definition metadataObject :: "Struct \<Rightarrow> string \<Rightarrow> Struct option" where
  "metadataObject parent key =
     (case map_of parent key of Some v \<Rightarrow> GetStructValue v | None \<Rightarrow> Some [])"

definition encode_upstream :: "AddrPort \<Rightarrow> Struct \<Rightarrow> Struct" where
  "encode_upstream address upstream =
     AList.update ''port'' (StringValue (Itoa (uint (ap_Port address))))
       (AList.update ''ip'' (StringValue (Addr_String (ap_Addr address)))
         (AList.update ''address'' (StringValue (AddrPort_String address)) upstream))"

definition publish_upstream :: "AddrPort \<Rightarrow> ProcessingResponse \<Rightarrow> ProcessingResponse" where
  "publish_upstream address out =
     (let meta = (case pr_DynamicMetadata out of None \<Rightarrow> [] | Some fs \<Rightarrow> fs) in
      case metadataObject meta ''agentio.route'' of
        None \<Rightarrow> invalidRouteMutationDeny
      | Some namespace \<Rightarrow>
        (case metadataObject namespace ''upstream'' of
           None \<Rightarrow> invalidRouteMutationDeny
         | Some upstream \<Rightarrow>
             if (case map_of upstream ''address'' of
                   None \<Rightarrow> False | Some v \<Rightarrow> GetStringValue v \<noteq> AddrPort_String address)
             then conflictingUpstreamTargetDeny
             else out\<lparr>pr_DynamicMetadata := Some (AList.update ''agentio.route''
                       (StructValue (AList.update ''upstream''
                          (StructValue (encode_upstream address upstream)) namespace)) meta)\<rparr>))"

definition clear_common :: "bool \<Rightarrow> CommonResponse option \<Rightarrow> CommonResponse" where
  "clear_common clear common =
     (let c = (case common of None \<Rightarrow> CommonResponseZero | Some c \<Rightarrow> c)
      in c\<lparr>cr_ClearRouteCache := cr_ClearRouteCache c \<or> clear\<rparr>)"

definition applyRouteMutation :: "ProcessingResponse \<Rightarrow> RouteMutation option \<Rightarrow> ProcessingResponse" where
  "applyRouteMutation response route =
     (case route of
        None \<Rightarrow> response
      | Some rt \<Rightarrow>
        (case pr_Response response of
           Immediate im \<Rightarrow> response
         | arm \<Rightarrow>
             if Route_Validate (Some rt) \<noteq> None then invalidRouteMutationDeny
             else if rt_Upstream rt = None \<and> \<not> rt_ClearCache rt then response
             else
               (case (case arm of
                        RequestHeaders c \<Rightarrow> Some (RequestHeaders (Some (clear_common (rt_ClearCache rt) c)))
                      | RequestBody c \<Rightarrow> Some (RequestBody (Some (clear_common (rt_ClearCache rt) c)))
                      | _ \<Rightarrow> None) of
                  None \<Rightarrow> invalidRouteMutationDeny
                | Some arm' \<Rightarrow>
                    let out = response\<lparr>pr_Response := arm'\<rparr> in
                    (case rt_Upstream rt of
                       None \<Rightarrow> out
                     | Some u \<Rightarrow> publish_upstream (the (up_Address u)) out))))"

definition responseUpstream :: "ProcessingResponse \<Rightarrow> Struct option" where
  "responseUpstream response =
     (case pr_DynamicMetadata response of
        None \<Rightarrow> None
      | Some meta \<Rightarrow>
        (case map_of meta ''agentio.route'' of
           None \<Rightarrow> None
         | Some v \<Rightarrow>
           (case GetStructValue v of
              None \<Rightarrow> None
            | Some namespace \<Rightarrow>
              (case map_of namespace ''upstream'' of None \<Rightarrow> None | Some u \<Rightarrow> GetStructValue u))))"

subsection \<open>Results (\<open>translate.go\<close>)\<close>

definition route_clears :: "RouteMutation option \<Rightarrow> bool" where
  "route_clears route = (case route of None \<Rightarrow> False | Some r \<Rightarrow> rt_ClearCache r)"

definition translateRequestHeadersResult :: "('c, 'f) RequestHeadersResult \<Rightarrow> ProcessingResponse list" where
  "translateRequestHeadersResult res =
     (if rhr_Disposition res = DispositionBlocked then [immediateFromReply (rhr_Reply res)]
      else if request_NeedsBody res then [applyRouteMutation (hd defaultPassThrough) (rhr_Route res)]
      else
        let clearCache = route_clears (rhr_Route res) in
        if rhr_HeaderOps res = [] \<and> rhr_Body res = None \<and> \<not> clearCache
        then [applyRouteMutation (hd defaultPassThrough) (rhr_Route res)]
        else [applyRouteMutation
               (respond (RequestHeaders (Some
                  (commonResponse (rhr_HeaderOps res) (rhr_Body res) None clearCache True True))))
               (rhr_Route res)])"

definition translateRequestBodyResult :: "RequestBodyResult \<Rightarrow> ProcessingResponse list" where
  "translateRequestBodyResult res =
     (if rbr_Disposition res = DispositionBlocked then [immediateFromReply (rbr_Reply res)]
      else
        let clearCache = route_clears (rbr_Route res) in
        if rbr_HeaderOps res = [] \<and> rbr_Body res = None \<and> \<not> clearCache
        then [applyRouteMutation (hd defaultPassThroughBody) (rbr_Route res)]
        else [applyRouteMutation
               (respond (RequestBody (Some
                  (commonResponse (rbr_HeaderOps res) (rbr_Body res) None clearCache False True))))
               (rbr_Route res)])"

definition translateResponseHeadersResult :: "('c, 'f) ResponseHeadersResult \<Rightarrow> ProcessingResponse list" where
  "translateResponseHeadersResult res =
     (if phr_Disposition res = DispositionBlocked then [immediateFromReply (phr_Reply res)]
      else if phr_HeaderOps res = [] \<and> phr_Body res = None \<and> phr_StatusCode res = None then emptyResponseHeadersAck
      else [respond (ResponseHeaders (Some
              (commonResponse (phr_HeaderOps res) (phr_Body res) (phr_StatusCode res) False True False)))])"

definition translateResponseBodyResult :: "ResponseBodyResult \<Rightarrow> ProcessingResponse list" where
  "translateResponseBodyResult res =
     (if pbr_Disposition res = DispositionBlocked then [immediateFromReply (pbr_Reply res)]
      else if pbr_HeaderOps res = [] \<and> pbr_Body res = None \<and> pbr_StatusCode res = None
      then defaultPassThroughResponseBody
      else [respond (ResponseBody (Some
              (commonResponse (pbr_HeaderOps res) (pbr_Body res) (pbr_StatusCode res) False False False)))])"

subsection \<open>The audit outcome (\<open>outcome.go\<close>)\<close>

datatype messageEffect = effectNone | effectMutated | effectBlocked

instantiation messageEffect :: linorder
begin

definition less_eq_messageEffect :: "messageEffect \<Rightarrow> messageEffect \<Rightarrow> bool" where
  "less_eq_messageEffect a b \<longleftrightarrow> a = effectNone \<or> b = effectBlocked \<or> a = b"

definition less_messageEffect :: "messageEffect \<Rightarrow> messageEffect \<Rightarrow> bool" where
  "less_messageEffect a b \<longleftrightarrow> a \<le> b \<and> \<not> b \<le> (a :: messageEffect)"

instance
  by standard (auto simp: less_eq_messageEffect_def less_messageEffect_def intro: messageEffect.exhaust)

end

definition observe :: "messageEffect \<Rightarrow> messageEffect \<Rightarrow> messageEffect" where
  "observe e other = (if other > e then other else e)"

definition commonEffect :: "CommonResponse option \<Rightarrow> messageEffect" where
  "commonEffect common =
     (case common of
        None \<Rightarrow> effectNone
      | Some c \<Rightarrow>
          if (case cr_HeaderMutation c of
                None \<Rightarrow> False | Some mut \<Rightarrow> hm_SetHeaders mut \<noteq> [] \<or> hm_RemoveHeaders mut \<noteq> [])
          then effectMutated
          else (case cr_BodyMutation c of
                  Some (BodyMutation_Body b) \<Rightarrow> effectMutated
                | _ \<Rightarrow> effectNone))"

definition classifyResponse :: "ProcessingResponse \<Rightarrow> bool \<Rightarrow> messageEffect" where
  "classifyResponse resp upstreamMutation =
     (case pr_Response resp of
        Immediate im \<Rightarrow> effectBlocked
      | RequestHeaders c \<Rightarrow>
          if upstreamMutation \<and> responseUpstream resp \<noteq> None then effectMutated else commonEffect c
      | RequestBody c \<Rightarrow>
          if upstreamMutation \<and> responseUpstream resp \<noteq> None then effectMutated else commonEffect c
      | ResponseHeaders c \<Rightarrow> commonEffect c
      | ResponseBody c \<Rightarrow> commonEffect c
      | RequestTrailers \<Rightarrow> effectNone
      | ResponseTrailers \<Rightarrow> effectNone)"

definition deriveOutcome :: "messageEffect \<Rightarrow> bool \<Rightarrow> nat \<Rightarrow> Disposition" where
  "deriveOutcome effect streamFailed matchedUnits =
     (if streamFailed then DispositionError
      else if effect = effectBlocked then DispositionBlocked
      else if effect = effectMutated then DispositionMutated
      else if matchedUnits > 0 then DispositionBypassed
      else DispositionPassthrough)"

subsection \<open>The header mutation means the folded operations\<close>

text \<open>The operations a header mutation asks for, in the order the proxy executes them.\<close>

definition set_op :: "HeaderValueOption \<Rightarrow> HeaderOp" where
  "set_op o' =
     \<lparr>op_Kind = (case hvo_AppendAction o' of OVERWRITE_IF_EXISTS_OR_ADD \<Rightarrow> HeaderSet | APPEND_IF_EXISTS_OR_ADD \<Rightarrow> HeaderAdd),
      op_Name = hvo_Key o', op_Value = hvo_RawValue o'\<rparr>"


lemma headerMutationFromOps_parts:
  "map set_op (hm_SetHeaders (fst (headerMutationFromOps ops))) = [p \<leftarrow> ops. op_Kind p \<noteq> HeaderRemove]"
  "hm_RemoveHeaders (fst (headerMutationFromOps ops)) = map op_Name [p \<leftarrow> ops. op_Kind p = HeaderRemove]"
  "snd (headerMutationFromOps ops) \<longleftrightarrow> (\<exists>p\<in>set ops. op_Name p \<in> set routeAffectingHeaders)"
proof -
  have set: "set_op (header_value_option OVERWRITE_IF_EXISTS_OR_ADD p) = p" if "op_Kind p = HeaderSet" for p
    using that by (cases p) (simp add: set_op_def header_value_option_def)
  have add: "set_op (header_value_option APPEND_IF_EXISTS_OR_ADD p) = p" if "op_Kind p = HeaderAdd" for p
    using that by (cases p) (simp add: set_op_def header_value_option_def)
  have step: "map set_op (hm_SetHeaders (fst (header_mutation_step (m, b) p))) =
        map set_op (hm_SetHeaders m) @ (if op_Kind p \<noteq> HeaderRemove then [p] else [])"
      "hm_RemoveHeaders (fst (header_mutation_step (m, b) p)) =
        hm_RemoveHeaders m @ (if op_Kind p = HeaderRemove then [op_Name p] else [])"
      "snd (header_mutation_step (m, b) p) \<longleftrightarrow> b \<or> op_Name p \<in> set routeAffectingHeaders" for m b p
    using set add by (auto split: HeaderOpKind.split)
  have "map set_op (hm_SetHeaders (fst (foldl header_mutation_step (m, b) ops))) =
        map set_op (hm_SetHeaders m) @ [p \<leftarrow> ops. op_Kind p \<noteq> HeaderRemove] \<and>
      hm_RemoveHeaders (fst (foldl header_mutation_step (m, b) ops)) =
        hm_RemoveHeaders m @ map op_Name [p \<leftarrow> ops. op_Kind p = HeaderRemove] \<and>
      (snd (foldl header_mutation_step (m, b) ops) \<longleftrightarrow> b \<or> (\<exists>p\<in>set ops. op_Name p \<in> set routeAffectingHeaders))" for m b
  proof (induction ops arbitrary: m b)
    case (Cons p ops)
    obtain m' b' where mb: "header_mutation_step (m, b) p = (m', b')" by fastforce
    with step [of m b p] have "map set_op (hm_SetHeaders m') = map set_op (hm_SetHeaders m) @ (if op_Kind p \<noteq> HeaderRemove then [p] else [])"
      "hm_RemoveHeaders m' = hm_RemoveHeaders m @ (if op_Kind p = HeaderRemove then [op_Name p] else [])"
      "b' \<longleftrightarrow> b \<or> op_Name p \<in> set routeAffectingHeaders"
      by (simp_all only: fst_conv snd_conv)
    with Cons.IH [of m' b'] mb show ?case by (simp del: header_mutation_step.simps)
  qed simp
  from this [of "\<lparr>hm_SetHeaders = [], hm_RemoveHeaders = []\<rparr>" False]
  show "map set_op (hm_SetHeaders (fst (headerMutationFromOps ops))) = [p \<leftarrow> ops. op_Kind p \<noteq> HeaderRemove]"
    "hm_RemoveHeaders (fst (headerMutationFromOps ops)) = map op_Name [p \<leftarrow> ops. op_Kind p = HeaderRemove]"
    "snd (headerMutationFromOps ops) \<longleftrightarrow> (\<exists>p\<in>set ops. op_Name p \<in> set routeAffectingHeaders)"
    by (simp_all add: headerMutationFromOps_def)
qed




subsection \<open>The target is published\<close>

lemma map_of_update: "map_of (AList.update k v al) k' = (if k' = k then Some v else map_of al k')"
  by (simp add: update_conv')

lemma Route_Validate_address:
  "Route_Validate (Some rt) = None \<Longrightarrow> rt_Upstream rt = Some u \<Longrightarrow> \<exists>a. up_Address u = Some a"
  by (cases "up_Address u") (simp_all add: Route_Validate_def)

text \<open>The upstream object of a response that named no target before.\<close>

definition published :: "AddrPort \<Rightarrow> Struct" where
  "published a = encode_upstream a []"

lemma applyRouteMutation_upstream:
  assumes "Route_Validate (Some rt) = None" and "rt_Upstream rt = Some u" and "up_Address u = Some a"
  shows "applyRouteMutation (respond (RequestHeaders c)) (Some rt) =
           (respond (RequestHeaders (Some (clear_common (rt_ClearCache rt) c))))
             \<lparr>pr_DynamicMetadata := Some [(''agentio.route'', StructValue [(''upstream'', StructValue (published a))])]\<rparr>"
    and "applyRouteMutation (respond (RequestBody c)) (Some rt) =
           (respond (RequestBody (Some (clear_common (rt_ClearCache rt) c))))
             \<lparr>pr_DynamicMetadata := Some [(''agentio.route'', StructValue [(''upstream'', StructValue (published a))])]\<rparr>"
  using assms
  by (simp_all add: applyRouteMutation_def respond_def publish_upstream_def metadataObject_def published_def)

lemma applyRouteMutation_plain:
  assumes "Route_Validate (Some rt) = None" and "rt_Upstream rt = None"
  shows "applyRouteMutation (respond (RequestHeaders c)) (Some rt) =
           respond (RequestHeaders (if rt_ClearCache rt then Some (clear_common True c) else c))"
    and "applyRouteMutation (respond (RequestBody c)) (Some rt) =
           respond (RequestBody (if rt_ClearCache rt then Some (clear_common True c) else c))"
  using assms by (simp_all add: applyRouteMutation_def respond_def)

lemmas applyRouteMutation_simps = applyRouteMutation_upstream applyRouteMutation_plain

definition upstream_address :: "RouteMutation option \<Rightarrow> AddrPort option" where
  "upstream_address route = Option.bind (upstream_of route) up_Address"

lemma responseUpstream_simps [simp]:
  "responseUpstream (respond arm) = None"
  "responseUpstream ((respond arm)\<lparr>pr_DynamicMetadata :=
      Some [(''agentio.route'', StructValue [(''upstream'', StructValue up)])]\<rparr>) = Some up"
  by (simp_all add: responseUpstream_def respond_def)

lemma pr_Response_respond [simp]: "pr_Response (respond arm) = arm"
  by (simp add: respond_def)

lemma published_fields:
  "map_of (published a) ''address'' = Some (StringValue (AddrPort_String a))"
  "map_of (published a) ''ip'' = Some (StringValue (Addr_String (ap_Addr a)))"
  "map_of (published a) ''port'' = Some (StringValue (Itoa (uint (ap_Port a))))"
  by (simp_all add: published_def encode_upstream_def)

text \<open>
  What applying a valid routing change to a fresh request-direction response does: the arm
  stays, the metadata names the selected address if there is one, and the response keeps its
  mutation.
\<close>

lemma applyRouteMutation_fresh:
  assumes "Route_Validate route = None" and "arm = RequestHeaders c \<or> arm = RequestBody c"
  shows "\<exists>c'. pr_Response (applyRouteMutation (respond arm) route) =
             (case arm of RequestBody _ \<Rightarrow> RequestBody c' | _ \<Rightarrow> RequestHeaders c') \<and>
           responseUpstream (applyRouteMutation (respond arm) route) = map_option published (upstream_address route) \<and>
           commonEffect c' = commonEffect c"
proof (cases route)
  case None
  then show ?thesis
    using assms(2) by (auto simp: applyRouteMutation_def upstream_address_def upstream_of_def)
next
  case (Some rt)
  have effect: "commonEffect (Some (clear_common b c)) = commonEffect c" for b
    by (cases c) (simp_all add: clear_common_def commonEffect_def CommonResponseZero_def)
  show ?thesis
  proof (cases "rt_Upstream rt")
    case None
    then show ?thesis
      using assms applyRouteMutation_plain [of rt c] Some effect
      by (auto simp: upstream_address_def upstream_of_def)
  next
    case (Some u)
    then obtain a where a: "up_Address u = Some a"
      using Route_Validate_address assms(1) \<open>route = Some rt\<close> by blast
    then show ?thesis
      using assms applyRouteMutation_upstream [OF _ Some a] \<open>route = Some rt\<close> effect
      by (auto simp: upstream_address_def upstream_of_def Some)
  qed
qed

lemma commonEffect_None [simp]: "commonEffect None = effectNone"
  by (simp add: commonEffect_def)

lemma commonResponse_effect:
  "commonEffect (Some (commonResponse ops body None clear hp rd)) =
     (if ops \<noteq> [] \<or> body \<noteq> None then effectMutated else effectNone)"
proof -
  obtain mut ra where mut: "headerMutationFromOps ops = (mut, ra)" by fastforce
  have "hm_SetHeaders mut \<noteq> [] \<or> hm_RemoveHeaders mut \<noteq> [] \<longleftrightarrow> ops \<noteq> []"
    using headerMutationFromOps_parts(1,2) [of ops] mut
    by (cases ops) (auto simp: headerMutationFromOps_def)
  then show ?thesis
    by (cases body) (auto simp: commonResponse_def commonEffect_def mut)
qed

lemma translateRequestHeadersResult_cases:
  assumes "rhr_Disposition res \<noteq> DispositionBlocked"
  obtains c where "translateRequestHeadersResult res = [applyRouteMutation (respond (RequestHeaders c)) (rhr_Route res)]"
    and "commonEffect c =
      (if \<not> request_NeedsBody res \<and> (rhr_HeaderOps res \<noteq> [] \<or> rhr_Body res \<noteq> None) then effectMutated else effectNone)"
proof -
  let ?plain = "request_NeedsBody res \<or> rhr_HeaderOps res = [] \<and> rhr_Body res = None \<and> \<not> route_clears (rhr_Route res)"
  let ?common = "commonResponse (rhr_HeaderOps res) (rhr_Body res) None (route_clears (rhr_Route res)) True True"
  have "commonEffect (Some ?common) =
      (if rhr_HeaderOps res \<noteq> [] \<or> rhr_Body res \<noteq> None then effectMutated else effectNone)"
    using commonResponse_effect by simp
  then show ?thesis
    using assms that [of None] that [of "Some ?common"]
    by (cases ?plain) (auto simp: translateRequestHeadersResult_def defaultPassThrough_def Let_def)
qed

lemma translateRequestBodyResult_cases:
  assumes "rbr_Disposition res \<noteq> DispositionBlocked"
  obtains c where "translateRequestBodyResult res = [applyRouteMutation (respond (RequestBody c)) (rbr_Route res)]"
    and "commonEffect c = (if rbr_HeaderOps res \<noteq> [] \<or> rbr_Body res \<noteq> None then effectMutated else effectNone)"
proof -
  let ?plain = "rbr_HeaderOps res = [] \<and> rbr_Body res = None \<and> \<not> route_clears (rbr_Route res)"
  let ?common = "commonResponse (rbr_HeaderOps res) (rbr_Body res) None (route_clears (rbr_Route res)) False True"
  have "commonEffect (Some ?common) =
      (if rbr_HeaderOps res \<noteq> [] \<or> rbr_Body res \<noteq> None then effectMutated else effectNone)"
    using commonResponse_effect by simp
  then show ?thesis
    using assms that [of None] that [of "Some ?common"]
    by (cases ?plain) (auto simp: translateRequestBodyResult_def defaultPassThroughBody_def Let_def)
qed

text \<open>
  C20: the selected target reaches the proxy.  For a result that does not block, with a valid
  route, the headers response and the body response are a single continuing message whose
  routing metadata names exactly the selected address, its IP and its port, and names none
  when no upstream was selected; also while the rule mutations are still held back for the
  body.
\<close>

theorem selected_target_is_published:
  assumes "Route_Validate (rhr_Route hr) = None" and "rhr_Disposition hr \<noteq> DispositionBlocked"
    and "Route_Validate (rbr_Route br) = None" and "rbr_Disposition br \<noteq> DispositionBlocked"
  shows "(\<exists>resp c. translateRequestHeadersResult hr = [resp] \<and> pr_Response resp = RequestHeaders c \<and>
            responseUpstream resp = map_option published (upstream_address (rhr_Route hr))) \<and>
         (\<exists>resp c. translateRequestBodyResult br = [resp] \<and> pr_Response resp = RequestBody c \<and>
            responseUpstream resp = map_option published (upstream_address (rbr_Route br))) \<and>
         (\<forall>a. map_of (published a) ''address'' = Some (StringValue (AddrPort_String a)) \<and>
              map_of (published a) ''ip'' = Some (StringValue (Addr_String (ap_Addr a))) \<and>
              map_of (published a) ''port'' = Some (StringValue (Itoa (uint (ap_Port a)))))"
proof (intro conjI)
  obtain c where h: "translateRequestHeadersResult hr = [applyRouteMutation (respond (RequestHeaders c)) (rhr_Route hr)]"
    using translateRequestHeadersResult_cases [OF assms(2)] .
  show "\<exists>resp c. translateRequestHeadersResult hr = [resp] \<and> pr_Response resp = RequestHeaders c \<and>
            responseUpstream resp = map_option published (upstream_address (rhr_Route hr))"
    using applyRouteMutation_fresh [OF assms(1), of "RequestHeaders c" c] h by auto
  obtain c where b: "translateRequestBodyResult br = [applyRouteMutation (respond (RequestBody c)) (rbr_Route br)]"
    using translateRequestBodyResult_cases [OF assms(4)] .
  show "\<exists>resp c. translateRequestBodyResult br = [resp] \<and> pr_Response resp = RequestBody c \<and>
            responseUpstream resp = map_option published (upstream_address (rbr_Route br))"
    using applyRouteMutation_fresh [OF assms(3), of "RequestBody c" c] b by auto
qed (simp_all add: published_fields)

definition example_route :: RouteMutation where
  "example_route = \<lparr>rt_Upstream = Some \<lparr>up_Address = Some (AddrPort (Addr4 0x0A000001) 443)\<rparr>, rt_ClearCache = False\<rparr>"

theorem selected_target_is_published_witness:
  "\<exists>resp c. translateRequestHeadersResult ((RequestHeadersResultZero :: (Script, Script) RequestHeadersResult)\<lparr>rhr_Route := Some example_route\<rparr>) = [resp] \<and>
     pr_Response resp = RequestHeaders c \<and>
     responseUpstream resp = Some (published (AddrPort (Addr4 0x0A000001) 443))"
proof -
  let ?hr = "(RequestHeadersResultZero :: (Script, Script) RequestHeadersResult)\<lparr>rhr_Route := Some example_route\<rparr>"
  have "Route_Validate (rhr_Route ?hr) = None" "rhr_Disposition ?hr \<noteq> DispositionBlocked"
    "Route_Validate (rbr_Route RequestBodyResultZero) = None" "rbr_Disposition RequestBodyResultZero \<noteq> DispositionBlocked"
    by code_simp+
  from conjunct1 [OF selected_target_is_published [OF this]] show ?thesis
    by (simp add: example_route_def upstream_address_def upstream_of_def)
qed

subsection \<open>The audit tells what was sent\<close>

text \<open>
  C21: the audited effect of a response is the decision behind it.  For a valid route, the
  effect classified from the headers response and from the body response is \<open>Blocked\<close> exactly
  for a blocked result, \<open>Mutated\<close> exactly when header operations or a body were sent, or a
  policy selected an upstream, and nothing otherwise; a result waiting for the body sends no
  rule mutation and is not reported as one.
\<close>

theorem audited_effect_is_the_decision:
  assumes "Route_Validate (rhr_Route hr) = None" and "Route_Validate (rbr_Route br) = None"
  shows "map (\<lambda>r. classifyResponse r um) (translateRequestHeadersResult hr) =
           [if rhr_Disposition hr = DispositionBlocked then effectBlocked
            else if um \<and> upstream_address (rhr_Route hr) \<noteq> None \<or>
                    \<not> request_NeedsBody hr \<and> (rhr_HeaderOps hr \<noteq> [] \<or> rhr_Body hr \<noteq> None)
            then effectMutated else effectNone] \<and>
         map (\<lambda>r. classifyResponse r um) (translateRequestBodyResult br) =
           [if rbr_Disposition br = DispositionBlocked then effectBlocked
            else if um \<and> upstream_address (rbr_Route br) \<noteq> None \<or> rbr_HeaderOps br \<noteq> [] \<or> rbr_Body br \<noteq> None
            then effectMutated else effectNone]"
proof (intro conjI)
  have fresh: "classifyResponse (applyRouteMutation (respond arm) route) um =
      (if um \<and> upstream_address route \<noteq> None then effectMutated else commonEffect c)"
    if "Route_Validate route = None" "arm = RequestHeaders c \<or> arm = RequestBody c" for route arm c
    using applyRouteMutation_fresh [OF that] that(2) by (auto simp: classifyResponse_def)
  have blocked: "classifyResponse (immediateFromReply r) um = effectBlocked" for r
    by (simp add: classifyResponse_def immediateFromReply_def)
  show "map (\<lambda>r. classifyResponse r um) (translateRequestHeadersResult hr) =
           [if rhr_Disposition hr = DispositionBlocked then effectBlocked
            else if um \<and> upstream_address (rhr_Route hr) \<noteq> None \<or>
                    \<not> request_NeedsBody hr \<and> (rhr_HeaderOps hr \<noteq> [] \<or> rhr_Body hr \<noteq> None)
            then effectMutated else effectNone]"
  proof (cases "rhr_Disposition hr = DispositionBlocked")
    case False
    then obtain c where "translateRequestHeadersResult hr = [applyRouteMutation (respond (RequestHeaders c)) (rhr_Route hr)]"
      "commonEffect c =
        (if \<not> request_NeedsBody hr \<and> (rhr_HeaderOps hr \<noteq> [] \<or> rhr_Body hr \<noteq> None) then effectMutated else effectNone)"
      by (rule translateRequestHeadersResult_cases)
    with False fresh [OF assms(1), of "RequestHeaders c" c] show ?thesis by simp
  qed (simp add: translateRequestHeadersResult_def blocked)
  show "map (\<lambda>r. classifyResponse r um) (translateRequestBodyResult br) =
           [if rbr_Disposition br = DispositionBlocked then effectBlocked
            else if um \<and> upstream_address (rbr_Route br) \<noteq> None \<or> rbr_HeaderOps br \<noteq> [] \<or> rbr_Body br \<noteq> None
            then effectMutated else effectNone]"
  proof (cases "rbr_Disposition br = DispositionBlocked")
    case False
    then obtain c where "translateRequestBodyResult br = [applyRouteMutation (respond (RequestBody c)) (rbr_Route br)]"
      "commonEffect c = (if rbr_HeaderOps br \<noteq> [] \<or> rbr_Body br \<noteq> None then effectMutated else effectNone)"
      by (rule translateRequestBodyResult_cases)
    with False fresh [OF assms(2), of "RequestBody c" c] show ?thesis by simp
  qed (simp add: translateRequestBodyResult_def blocked)
qed

theorem audited_effect_is_the_decision_witness:
  "map (\<lambda>r. classifyResponse r True)
     (translateRequestHeadersResult ((RequestHeadersResultZero :: (Script, Script) RequestHeadersResult)\<lparr>rhr_Route := Some example_route\<rparr>)) = [effectMutated]"
proof -
  let ?hr = "(RequestHeadersResultZero :: (Script, Script) RequestHeadersResult)\<lparr>rhr_Route := Some example_route\<rparr>"
  have "Route_Validate (rhr_Route ?hr) = None" "Route_Validate (rbr_Route RequestBodyResultZero) = None"
    by code_simp+
  from conjunct1 [OF audited_effect_is_the_decision [OF this, of True]] show ?thesis
    by (simp add: RequestHeadersResultZero_def example_route_def upstream_address_def upstream_of_def)
qed

end
