(* ===== verification/Netip_Parse.thy ===== *)
theory Netip_Parse
  imports Netip
begin

section \<open>Parsing IP addresses\<close>

text \<open>
  \<open>netip.ParseAddr\<close> and \<open>netip.ParseAddrPort\<close> on the addresses of \<open>Netip\<close>.  An IPv6 address
  is parsed as its 16-bit groups, with the position of the ellipsis, the way the library's
  loop fills its array.  The theorems show that parsing inverts rendering, for IPv4, IPv6
  with and without compression, IPv4-mapped and zoned addresses.
\<close>

subsection \<open>Groups and octets\<close>

definition is_hex :: "char \<Rightarrow> bool" where
  "is_hex c \<longleftrightarrow> is_digit c \<or> (let n = (of_char c :: nat) in (97 \<le> n \<and> n \<le> 102) \<or> (65 \<le> n \<and> n \<le> 70))"

definition hex_value :: "char \<Rightarrow> nat" where
  "hex_value c = (let n = of_char c in if n \<le> 57 then n - 48 else if n \<le> 70 then n - 55 else n - 87)"

definition hex_number :: "string \<Rightarrow> nat" where
  "hex_number s = foldl (\<lambda>acc c. 16 * acc + hex_value c) 0 s"

definition be_nat :: "nat \<Rightarrow> nat list \<Rightarrow> nat" where
  "be_nat base gs = foldl (\<lambda>acc g. acc * base + g) 0 gs"

text \<open>One decimal octet: no leading zero, at most 255.\<close>

definition parse_octet :: "string \<Rightarrow> nat option" where
  "parse_octet s =
     (if s = [] \<or> \<not> list_all is_digit s \<or> (hd s = CHR ''0'' \<and> length s > 1) \<or> digits_value 0 s > 255
      then None else Some (digits_value 0 s))"

definition parseIPv4Fields :: "string \<Rightarrow> nat list option" where
  "parseIPv4Fields s =
     (let parts = map parse_octet (SplitByte s CHR ''.'')
      in if length parts = 4 \<and> None \<notin> set parts then Some (map the parts) else None)"

definition parseIPv4 :: "string \<Rightarrow> Addr option" where
  "parseIPv4 s = map_option (\<lambda>fs. Addr4 (of_nat (be_nat 256 fs))) (parseIPv4Fields s)"

fun parse6_loop :: "nat \<Rightarrow> nat list \<Rightarrow> nat option \<Rightarrow> string \<Rightarrow> (nat list \<times> nat option) option" where
  "parse6_loop 0 acc ellipsis s = (if s = [] then Some (acc, ellipsis) else None)"
| "parse6_loop (Suc n) acc ellipsis s =
     (let h = takeWhile is_hex s; rest = drop (length h) s; acc' = acc @ [hex_number h] in
      if h = [] \<or> length h > 4 then None
      else
        (case rest of
           [] \<Rightarrow> Some (acc', ellipsis)
         | c # r \<Rightarrow>
             if c = CHR ''.'' then
               (if (ellipsis = None \<and> length acc \<noteq> 6) \<or> length acc > 6 then None
                else (case parseIPv4Fields s of
                        Some [a, b, c, d] \<Rightarrow> Some (acc @ [a * 256 + b, c * 256 + d], ellipsis)
                      | _ \<Rightarrow> None))
             else if c \<noteq> CHR '':'' \<or> r = [] then None
             else if hd r = CHR '':'' then
               (if ellipsis \<noteq> None then None
                else if tl r = [] then Some (acc', Some (length acc'))
                else parse6_loop n acc' (Some (length acc')) (tl r))
             else parse6_loop n acc' ellipsis r))"

definition expand6 :: "nat list \<times> nat option \<Rightarrow> nat list option" where
  "expand6 p =
     (case p of (gs, ellipsis) \<Rightarrow>
        if length gs < 8
        then map_option (\<lambda>e. take e gs @ replicate (8 - length gs) 0 @ drop e gs) ellipsis
        else if ellipsis \<noteq> None then None else Some gs)"

definition parse6_groups :: "string \<Rightarrow> nat list option" where
  "parse6_groups s =
     (if take 2 s = ''::''
      then (if drop 2 s = [] then Some (replicate 8 0)
            else Option.bind (parse6_loop 8 [] (Some 0) (drop 2 s)) expand6)
      else Option.bind (parse6_loop 8 [] None s) expand6)"

definition parseIPv6 :: "string \<Rightarrow> Addr option" where
  "parseIPv6 s =
     (case IndexByte s CHR ''%'' of
        None \<Rightarrow> map_option (\<lambda>gs. Addr6 (of_nat (be_nat 65536 gs)) []) (parse6_groups s)
      | Some i \<Rightarrow>
          if drop (Suc i) s = [] then None
          else map_option (\<lambda>gs. Addr6 (of_nat (be_nat 65536 gs)) (drop (Suc i) s)) (parse6_groups (take i s)))"

definition ParseAddr :: "string \<Rightarrow> Addr option" where
  "ParseAddr s =
     (case find (\<lambda>c. c = CHR ''.'' \<or> c = CHR '':'' \<or> c = CHR ''%'') s of
        None \<Rightarrow> None
      | Some c \<Rightarrow>
          if c = CHR ''.'' then parseIPv4 s
          else if c = CHR '':'' then parseIPv6 s
          else None)"

subsection \<open>Addresses with ports\<close>

text \<open>\<open>strconv.ParseUint(s, 10, 16)\<close>.\<close>

definition ParseUint16 :: "string \<Rightarrow> 16 word option" where
  "ParseUint16 s =
     (if s = [] \<or> \<not> list_all is_digit s \<or> digits_value 0 s > 65535 then None
      else Some (of_nat (digits_value 0 s)))"

definition splitAddrPort :: "string \<Rightarrow> (string \<times> string \<times> bool) option" where
  "splitAddrPort s =
     (case LastIndexByte s CHR '':'' of
        None \<Rightarrow> None
      | Some i \<Rightarrow>
          let ip = take i s; port = drop (Suc i) s in
          if ip = [] \<or> port = [] then None
          else if hd ip = CHR ''['' then
            (if length ip < 2 \<or> last ip \<noteq> CHR '']'' then None else Some (butlast (tl ip), port, True))
          else Some (ip, port, False))"

definition ParseAddrPort :: "string \<Rightarrow> AddrPort option" where
  "ParseAddrPort s =
     (case splitAddrPort s of
        None \<Rightarrow> None
      | Some (ip, port, v6) \<Rightarrow>
        (case ParseUint16 port of
           None \<Rightarrow> None
         | Some p \<Rightarrow>
           (case ParseAddr ip of
              None \<Rightarrow> None
            | Some a \<Rightarrow> if v6 = Addr_Is4 a then None else Some (AddrPort a p))))"

subsection \<open>Decimal and hexadecimal digits\<close>

lemma of_char_char_of [simp]: "n < 256 \<Longrightarrow> (of_char (char_of n :: char) :: nat) = n"
  by (simp add: of_char_mod_256)

lemma digit_char_simps:
  assumes "d < 10"
  shows "is_digit (digit_char d)" "digit_value (digit_char d) = d" "digit_char d = CHR ''0'' \<longleftrightarrow> d = 0"
proof -
  have "(of_char (digit_char d) :: nat) = 48 + d"
    using assms by (simp add: digit_char_def)
  then show "is_digit (digit_char d)" "digit_value (digit_char d) = d"
    using assms by (simp_all add: is_digit_def digit_value_def)
  have "(of_char CHR ''0'' :: nat) = 48"
    by code_simp
  with \<open>(of_char (digit_char d) :: nat) = 48 + d\<close> show "digit_char d = CHR ''0'' \<longleftrightarrow> d = 0"
    by (metis add_cancel_left_right char_of_char)
qed

lemma digits_value_append: "digits_value acc (xs @ ys) = digits_value (digits_value acc xs) ys"
  by (induction acc xs rule: digits_value.induct) auto

lemma nat_digits_facts:
  "nat_digits n \<noteq> [] \<and> list_all is_digit (nat_digits n) \<and> digits_value 0 (nat_digits n) = n \<and>
   (hd (nat_digits n) = CHR ''0'' \<longleftrightarrow> n = 0)"
proof (induction n rule: nat_digits.induct)
  case (1 n)
  show ?case
  proof (cases "n < 10")
    case True
    then show ?thesis
      by (subst (1 2 3 4) nat_digits.simps) (simp add: digit_char_simps)
  next
    case False
    with 1 have IH: "nat_digits (n div 10) \<noteq> []" "list_all is_digit (nat_digits (n div 10))"
      "digits_value 0 (nat_digits (n div 10)) = n div 10" "hd (nat_digits (n div 10)) \<noteq> CHR ''0''"
      by (auto simp: div_eq_0_iff)
    from False have "nat_digits n = nat_digits (n div 10) @ [digit_char (n mod 10)]"
      by (subst nat_digits.simps) simp
    with IH False show ?thesis
      by (simp add: digits_value_append digit_char_simps)
  qed
qed

lemma parse_octet_digits: "n < 256 \<Longrightarrow> parse_octet (nat_digits n) = Some n"
  using nat_digits_facts [of n]
  by (auto simp: parse_octet_def nat_digits.simps [of 0])

lemma ParseUint16_digits: "ParseUint16 (nat_digits (unat (p :: 16 word))) = Some p"
proof -
  have "unat p < 2 ^ LENGTH(16)"
    by (rule unsigned_less)
  with nat_digits_facts [of "unat p"] show ?thesis
    by (simp add: ParseUint16_def)
qed

lemma hex_char_facts:
  assumes "d < 16"
  shows "is_hex (hex_char d)" "hex_value (hex_char d) = d"
proof -
  have "(of_char (hex_char d) :: nat) = (if d < 10 then 48 + d else 87 + d)"
    using assms by (simp add: hex_char_def)
  then show "is_hex (hex_char d)" "hex_value (hex_char d) = d"
    using assms by (simp_all add: is_hex_def is_digit_def hex_value_def Let_def)
qed

lemma hex_digits_facts:
  "list_all is_hex (hex_digits n) \<and> hex_digits n \<noteq> [] \<and> hex_number (hex_digits n) = n"
proof (induction n rule: hex_digits.induct)
  case (1 n)
  show ?case
  proof (cases "n < 16")
    case True
    then show ?thesis
      by (subst (1 2 3) hex_digits.simps) (simp add: hex_char_facts hex_number_def)
  next
    case False
    then have "hex_digits n = hex_digits (n div 16) @ [hex_char (n mod 16)]"
      by (subst hex_digits.simps) simp
    with 1 False show ?thesis
      by (simp add: hex_char_facts hex_number_def)
  qed
qed

lemma hex_digits_length: "n < 16 ^ Suc k \<Longrightarrow> length (hex_digits n) \<le> Suc k"
proof (induction k arbitrary: n)
  case (Suc k)
  show ?case
  proof (cases "n < 16")
    case False
    then have "hex_digits n = hex_digits (n div 16) @ [hex_char (n mod 16)]"
      by (subst hex_digits.simps) simp
    moreover have "n div 16 < 16 ^ Suc k"
      using Suc.prems by (simp add: less_mult_imp_div_less)
    ultimately show ?thesis
      using Suc.IH [of "n div 16"] by simp
  qed (simp add: hex_digits.simps [of n])
qed (simp add: hex_digits.simps)

lemma not_hex_separators [simp]: "\<not> is_hex CHR '':''" "\<not> is_hex CHR ''.''" "\<not> is_hex CHR ''%''"
  "\<not> is_digit CHR '':''" "\<not> is_digit CHR ''.''" "\<not> is_digit CHR ''%''" "\<not> is_digit CHR '']''"
  by code_simp+

subsection \<open>Words from their groups\<close>

lemma be_nat_digits:
  "be_nat base (map (\<lambda>i. n div base ^ (k - Suc i) mod base) [0..<k]) = n mod base ^ k"
proof (induction k arbitrary: n)
  case (Suc k)
  have "map (\<lambda>i. n div base ^ (k - i) mod base) [0..<k] =
      map (\<lambda>i. n div base div base ^ (k - Suc i) mod base) [0..<k]"
    by (rule map_cong) (auto simp: div_mult2_eq [symmetric] Suc_diff_Suc simp flip: power_Suc)
  then have "be_nat base (map (\<lambda>i. n div base ^ (k - i) mod base) [0..<k]) = n div base mod base ^ k"
    by (simp only: Suc.IH [of "n div base"])
  then show ?case
    by (simp add: be_nat_def mod_mult2_eq mult.commute)
qed (simp add: be_nat_def)

lemma octets_word: "of_nat (be_nat 256 (map (octet w) [0..<4])) = w"
proof -
  have "octet w = (\<lambda>i. unat w div 256 ^ (4 - Suc i) mod 256)"
    unfolding fun_eq_iff octet_def unsigned_take_bit_eq unat_drop_bit_eq by (simp add: take_bit_eq_mod drop_bit_eq_div power_mult)
  then have "be_nat 256 (map (octet w) [0..<4]) = unat w mod 256 ^ 4"
    by (simp only: be_nat_digits)
  also have "\<dots> = unat w"
    using unsigned_less [of w, where 'a = nat] by simp
  finally show ?thesis by simp
qed

lemma groups_word: "of_nat (be_nat 65536 (map (group6 w) [0..<8])) = w"
proof -
  have "group6 w = (\<lambda>i. unat w div 65536 ^ (8 - Suc i) mod 65536)"
    unfolding fun_eq_iff group6_def unsigned_take_bit_eq unat_drop_bit_eq by (simp add: take_bit_eq_mod drop_bit_eq_div power_mult)
  then have "be_nat 65536 (map (group6 w) [0..<8]) = unat w mod 65536 ^ 8"
    by (simp only: be_nat_digits)
  also have "\<dots> = unat w"
    using unsigned_less [of w, where 'a = nat] by simp
  finally show ?thesis by simp
qed

subsection \<open>Dotted quads\<close>

lemma nat_digits_length: "n < 10 ^ Suc k \<Longrightarrow> length (nat_digits n) \<le> Suc k"
proof (induction k arbitrary: n)
  case (Suc k)
  show ?case
  proof (cases "n < 10")
    case False
    then have "nat_digits n = nat_digits (n div 10) @ [digit_char (n mod 10)]"
      by (subst nat_digits.simps) simp
    moreover have "n div 10 < 10 ^ Suc k"
      using Suc.prems by (simp add: less_mult_imp_div_less)
    ultimately show ?thesis
      using Suc.IH [of "n div 10"] by simp
  qed (simp add: nat_digits.simps [of n])
qed (simp add: nat_digits.simps)

lemma SplitByte_no_sep: "c \<notin> set x \<Longrightarrow> SplitByte x c = [x]"
  by (induction x) auto

lemma SplitByte_append_sep: "c \<notin> set x \<Longrightarrow> SplitByte (x @ c # y) c = x # SplitByte y c"
  by (induction x) auto

lemma SplitByte_join:
  "xs \<noteq> [] \<Longrightarrow> \<forall>x\<in>set xs. c \<notin> set x \<Longrightarrow> SplitByte (join [c] xs) c = xs"
  by (induction "[c]" xs rule: join.induct) (auto simp: SplitByte_no_sep SplitByte_append_sep)

lemma upt_four: "[0..<4] = [0, 1, 2, 3]"
  by code_simp

lemma octet_less: "octet w i < 256"
proof -
  have "unat (take_bit 8 x) < 2 ^ 8" for x :: "32 word"
    unfolding unsigned_take_bit_eq by (rule take_bit_nat_less_exp)
  then show ?thesis by (simp add: octet_def)
qed

lemma group6_less: "group6 w i < 65536"
proof -
  have "unat (take_bit 16 x) < 2 ^ 16" for x :: "128 word"
    unfolding unsigned_take_bit_eq by (rule take_bit_nat_less_exp)
  then show ?thesis by (simp add: group6_def)
qed

lemma nat_digits_set: "c \<in> set (nat_digits n) \<Longrightarrow> is_digit c"
  using nat_digits_facts [of n] by (simp add: list_all_iff)

lemma hex_digits_set: "c \<in> set (hex_digits n) \<Longrightarrow> is_hex c"
  using hex_digits_facts [of n] by (simp add: list_all_iff)

lemma parseIPv4Fields_string4: "parseIPv4Fields (string4 w) = Some (map (octet w) [0..<4])"
proof -
  have "SplitByte (string4 w) CHR ''.'' = map (\<lambda>i. nat_digits (octet w i)) [0..<4]"
    unfolding string4_def by (rule SplitByte_join) (auto dest: nat_digits_set)
  then have "map parse_octet (SplitByte (string4 w) CHR ''.'') = map Some (map (octet w) [0..<4])"
    by (simp add: parse_octet_digits octet_less)
  then show ?thesis
    by (auto simp: parseIPv4Fields_def)
qed

abbreviation special :: "char \<Rightarrow> bool" where
  "special c \<equiv> c = CHR ''.'' \<or> c = CHR '':'' \<or> c = CHR ''%''"

lemma find_first: "\<forall>x\<in>set xs. \<not> P x \<Longrightarrow> P c \<Longrightarrow> find P (xs @ c # ys) = Some c"
  by (induction xs) auto

lemma string4_Cons: "\<exists>rest. string4 w = nat_digits (octet w 0) @ CHR ''.'' # rest \<and> rest \<noteq> []"
  using nat_digits_facts by (simp add: string4_def upt_conv_Cons)

lemma ParseAddr_string4: "ParseAddr (string4 w) = Some (Addr4 w)"
proof -
  obtain rest where "string4 w = nat_digits (octet w 0) @ CHR ''.'' # rest"
    using string4_Cons by blast
  then have "find special (string4 w) = Some CHR ''.''"
    by (auto intro!: find_first dest!: nat_digits_set)
  then show ?thesis
    by (simp add: ParseAddr_def parseIPv4_def parseIPv4Fields_string4 octets_word)
qed

subsection \<open>Groups in hexadecimal\<close>

abbreviation hex_text :: "nat list \<Rightarrow> string" where
  "hex_text gs \<equiv> join '':'' (map hex_digits gs)"

lemma takeWhile_hex:
  "takeWhile is_hex (hex_digits g) = hex_digits g"
  "takeWhile is_hex (hex_digits g @ CHR '':'' # r) = hex_digits g"
  using hex_digits_set by (auto simp: takeWhile_eq_all_conv takeWhile_append2)

lemma hex_text_Cons: "gs \<noteq> [] \<Longrightarrow> hex_text (g # gs) = hex_digits g @ CHR '':'' # hex_text gs"
  by (cases gs) auto

lemma hex_text_hd: "gs \<noteq> [] \<Longrightarrow> hex_text gs \<noteq> [] \<and> hd (hex_text gs) \<noteq> CHR '':''"
proof (induction gs)
  case (Cons g gs)
  have "is_hex (hd (hex_digits g))"
    using hex_digits_facts [of g] by (metis hex_digits_set list.set_sel(1))
  then have "hd (hex_digits g) \<noteq> CHR '':''"
    by auto
  then show ?case
    using hex_digits_facts [of g] by (cases gs) auto
qed simp

text \<open>One group followed by a colon, and the last group.\<close>

lemma parse6_loop_step:
  assumes "g < 65536" and "r \<noteq> []" and "hd r \<noteq> CHR '':''"
  shows "parse6_loop (Suc n) acc ell (hex_digits g @ CHR '':'' # r) = parse6_loop n (acc @ [g]) ell r"
  using assms hex_digits_facts [of g] hex_digits_length [of g 3]
  by (simp add: takeWhile_hex Let_def)

lemma parse6_loop_last:
  "g < 65536 \<Longrightarrow> parse6_loop (Suc n) acc ell (hex_digits g) = Some (acc @ [g], ell)"
  using hex_digits_facts [of g] hex_digits_length [of g 3] by (simp add: takeWhile_hex Let_def)

lemma parse6_loop_text:
  "gs \<noteq> [] \<Longrightarrow> \<forall>g\<in>set gs. g < 65536 \<Longrightarrow> length gs \<le> n \<Longrightarrow>
   parse6_loop n acc ell (hex_text gs) = Some (acc @ gs, ell)"
proof (induction gs arbitrary: n acc)
  case (Cons g gs)
  then obtain m where n: "n = Suc m" by (cases n) auto
  show ?case
  proof (cases "gs = []")
    case True
    then show ?thesis
      using Cons.prems by (simp add: n parse6_loop_last del: parse6_loop.simps)
  next
    case False
    then have "parse6_loop n acc ell (hex_text (g # gs)) = parse6_loop m (acc @ [g]) ell (hex_text gs)"
      unfolding n hex_text_Cons [OF False]
      using Cons.prems hex_text_hd [OF False] by (intro parse6_loop_step) simp_all
    with Cons.IH [of m "acc @ [g]"] Cons.prems False n show ?thesis by simp
  qed
qed simp

lemma parse6_loop_ellipsis:
  "pre \<noteq> [] \<Longrightarrow> \<forall>g\<in>set (pre @ post). g < 65536 \<Longrightarrow> length pre + length post \<le> n \<Longrightarrow>
   parse6_loop n acc None (hex_text pre @ ''::'' @ hex_text post) =
     Some (acc @ pre @ post, Some (length acc + length pre))"
proof (induction pre arbitrary: n acc)
  case (Cons g pre)
  then obtain m where n: "n = Suc m" by (cases n) auto
  show ?case
  proof (cases "pre = []")
    case True
    have "parse6_loop (Suc m) acc None (hex_digits g @ CHR '':'' # CHR '':'' # hex_text post) =
        (if hex_text post = [] then Some (acc @ [g], Some (Suc (length acc)))
         else parse6_loop m (acc @ [g]) (Some (Suc (length acc))) (hex_text post))"
      using Cons.prems hex_digits_facts [of g] hex_digits_length [of g 3]
      by (simp add: takeWhile_hex Let_def)
    then show ?thesis
      using Cons.prems True parse6_loop_text [of post m "acc @ [g]"] hex_text_hd [of post]
      by (cases "post = []") (auto simp: n simp del: parse6_loop.simps)
  next
    case False
    then have "parse6_loop n acc None (hex_text (g # pre) @ ''::'' @ hex_text post) =
        parse6_loop m (acc @ [g]) None (hex_text pre @ ''::'' @ hex_text post)"
      unfolding n hex_text_Cons [OF False] append_assoc append_Cons
      using Cons.prems hex_text_hd [OF False] by (intro parse6_loop_step) simp_all
    with Cons.IH [of m "acc @ [g]"] Cons.prems False n show ?thesis by simp
  qed
qed simp

subsection \<open>Compressed addresses\<close>

definition run_ok :: "nat list \<Rightarrow> nat \<times> nat \<Rightarrow> bool" where
  "run_ok gs p \<longleftrightarrow> p = (255, 255) \<or>
     (fst p + 2 \<le> snd p \<and> snd p \<le> length gs \<and> (\<forall>k. fst p \<le> k \<and> k < snd p \<longrightarrow> gs ! k = 0))"

lemma zero_run_from_facts:
  assumes "i \<le> length gs"
  shows "zero_run_from gs i \<le> length gs" and "i \<le> k \<Longrightarrow> k < zero_run_from gs i \<Longrightarrow> gs ! k = 0"
proof -
  let ?z = "takeWhile (\<lambda>g. g = 0) (drop i gs)"
  have "length ?z \<le> length gs - i"
    using length_takeWhile_le [of "\<lambda>g. g = 0" "drop i gs"] by simp
  with assms show "zero_run_from gs i \<le> length gs"
    by (simp add: zero_run_from_def)
  assume k: "i \<le> k" "k < zero_run_from gs i"
  then have "k - i < length ?z"
    by (simp add: zero_run_from_def)
  then have "?z ! (k - i) = 0" and "?z ! (k - i) = drop i gs ! (k - i)"
    using nth_mem set_takeWhileD by (fastforce, simp add: takeWhile_nth)
  with k assms \<open>k - i < length ?z\<close> \<open>length ?z \<le> length gs - i\<close> show "gs ! k = 0"
    by simp
qed

lemma zero_run_ok: "run_ok gs (zero_run gs)"
proof -
  let ?f = "\<lambda>(s, e) i. let j = zero_run_from gs i in if 2 \<le> j - i \<and> e - s < j - i then (i, j) else (s, e)"
  have "run_ok gs p \<Longrightarrow> \<forall>i\<in>set is. i \<le> length gs \<Longrightarrow> run_ok gs (foldl ?f p is)" for p "is"
  proof (induction "is" arbitrary: p)
    case (Cons i "is")
    have "run_ok gs (?f p i)"
      using Cons.prems zero_run_from_facts [of i gs]
      by (cases p) (auto simp: Let_def run_ok_def)
    with Cons show ?case by simp
  qed simp
  then show ?thesis
    unfolding zero_run_def by (simp add: run_ok_def)
qed

lemma zeros_between:
  assumes "fst p + 2 \<le> snd p" "snd p \<le> length gs" "\<forall>k. fst p \<le> k \<and> k < snd p \<longrightarrow> gs ! k = (0 :: nat)"
  shows "gs = take (fst p) gs @ replicate (snd p - fst p) 0 @ drop (snd p) gs"
  using assms
  by (intro nth_equalityI) (auto simp: nth_append)

lemma parse6_groups_plain:
  assumes "\<forall>g\<in>set gs. g < 65536" and "length gs = 8"
  shows "parse6_groups (hex_text gs) = Some gs"
proof -
  have ne: "gs \<noteq> []" using assms(2) by auto
  have "take 2 (hex_text gs) \<noteq> ''::''"
    using hex_text_hd [OF ne] by (cases "hex_text gs") auto
  then show ?thesis
    using parse6_loop_text [OF ne assms(1), of 8 "[]" None] assms(2)
    by (simp add: parse6_groups_def expand6_def)
qed

lemma parse6_groups_compressed:
  assumes "\<forall>g\<in>set (pre @ post). g < 65536" and "length pre + length post + 2 \<le> 8"
  shows "parse6_groups (hex_text pre @ ''::'' @ hex_text post) =
           Some (pre @ replicate (8 - length pre - length post) 0 @ post)"
proof (cases "pre = []")
  case True
  show ?thesis
  proof (cases "post = []")
    case False
    with True assms parse6_loop_text [of post 8 "[]" "Some 0"] hex_text_hd [OF False] show ?thesis
      by (simp add: parse6_groups_def expand6_def)
  qed (simp add: True parse6_groups_def)
next
  case False
  have "take 2 (hex_text pre @ t) \<noteq> ''::''" for t
    using hex_text_hd [OF False] by (cases "hex_text pre") auto
  then show ?thesis
    using parse6_loop_ellipsis [OF False assms(1), of 8 "[]"] assms(2)
    by (simp add: parse6_groups_def expand6_def)
qed

lemma parse6_groups_string6: "parse6_groups (string6 w) = Some (map (group6 w) [0..<8])"
proof -
  let ?gs = "map (group6 w) [0..<8]"
  obtain s e where run: "zero_run ?gs = (s, e)" by fastforce
  have less: "\<forall>g\<in>set ?gs. g < 65536"
    using group6_less by auto
  show ?thesis
  proof (cases "s = 255")
    case True
    then show ?thesis
      using parse6_groups_plain [OF less] by (simp add: string6_def run Let_def)
  next
    case False
    then have run': "s + 2 \<le> e" "e \<le> 8" "\<forall>k. s \<le> k \<and> k < e \<longrightarrow> ?gs ! k = 0"
      using zero_run_ok [of ?gs] by (auto simp: run run_ok_def)
    then have "?gs = take s ?gs @ replicate (e - s) 0 @ drop e ?gs"
      using zeros_between [of "(s, e)" ?gs] by simp
    moreover have "parse6_groups (hex_text (take s ?gs) @ ''::'' @ hex_text (drop e ?gs)) =
        Some (take s ?gs @ replicate (8 - length (take s ?gs) - length (drop e ?gs)) 0 @ drop e ?gs)"
    proof (rule parse6_groups_compressed)
      have "set (take s ?gs @ drop e ?gs) \<subseteq> set ?gs"
        by (auto dest: in_set_takeD in_set_dropD simp del: set_map)
      with less show "\<forall>g\<in>set (take s ?gs @ drop e ?gs). g < 65536" by blast
    qed (use run' in simp)
    moreover have "8 - length (take s ?gs) - length (drop e ?gs) = e - s"
      using run' by simp
    ultimately show ?thesis
      using False by (simp add: string6_def run Let_def)
  qed
qed

lemma parse6_groups_mapped:
  "parse6_groups (''::ffff:'' @ string4 v) =
     Some ([0, 0, 0, 0, 0, 65535, octet v 0 * 256 + octet v 1, octet v 2 * 256 + octet v 3])"
proof -
  obtain rest where v: "string4 v = nat_digits (octet v 0) @ CHR ''.'' # rest"
    using string4_Cons by blast
  have hex: "\<forall>c\<in>set (nat_digits n). is_hex c" for n
    by (auto dest: nat_digits_set simp: is_hex_def)
  have short: "length (nat_digits (octet v 0)) \<le> 4"
    using octet_less [of v 0] nat_digits_length [of "octet v 0" 3] by simp
  have "takeWhile is_hex (string4 v) = nat_digits (octet v 0)"
    unfolding v using hex by (simp add: takeWhile_append2)
  moreover have "drop (length (nat_digits (octet v 0))) (string4 v) = CHR ''.'' # rest"
    by (simp add: v)
  moreover have "nat_digits (octet v 0) \<noteq> []"
    using nat_digits_facts by blast
  moreover have "parseIPv4Fields (string4 v) = Some [octet v 0, octet v 1, octet v 2, octet v 3]"
    using parseIPv4Fields_string4 [of v] by (simp add: upt_four)
  ultimately have tail: "parse6_loop (Suc n) [65535] (Some 0) (string4 v) =
      Some ([65535, octet v 0 * 256 + octet v 1, octet v 2 * 256 + octet v 3], Some 0)" for n
    using short by (simp add: Let_def)
  have digit: "is_digit (hd (nat_digits (octet v 0)))"
    using nat_digits_facts [of "octet v 0"] by (metis nat_digits_set list.set_sel(1))
  have "hd (string4 v) \<noteq> CHR '':''" "string4 v \<noteq> []"
    using digit nat_digits_facts [of "octet v 0"] by (auto simp: v hd_append)
  then have "parse6_loop (Suc (Suc n)) [] (Some 0) (hex_digits 65535 @ CHR '':'' # string4 v) =
      parse6_loop (Suc n) ([] @ [65535]) (Some 0) (string4 v)" for n
    by (intro parse6_loop_step) simp_all
  moreover have "hex_char 15 = CHR ''f''"
    by code_simp
  then have "hex_digits 65535 = ''ffff''"
    by (simp add: hex_digits.simps)
  ultimately have "parse6_loop (Suc (Suc n)) [] (Some 0) (''ffff:'' @ string4 v) =
      Some ([65535, octet v 0 * 256 + octet v 1, octet v 2 * 256 + octet v 3], Some 0)" for n
    by (simp only: tail append_Cons append_Nil)
  from this [of 6] have "parse6_loop 8 [] (Some 0) (''ffff:'' @ string4 v) =
      Some ([65535, octet v 0 * 256 + octet v 1, octet v 2 * 256 + octet v 3], Some 0)"
    by (simp only: add_2_eq_Suc [symmetric] arith_simps)
  moreover have "replicate 5 0 = [0, 0, 0, 0, 0 :: nat]"
    by code_simp
  ultimately show ?thesis
    by (simp add: parse6_groups_def expand6_def del: parse6_loop.simps)
qed

lemma mapped_word:
  assumes "Addr_Is4In6 (Addr6 w z)"
  defines "v \<equiv> ucast w :: 32 word"
  shows "of_nat (be_nat 65536 [0, 0, 0, 0, 0, 65535, octet v 0 * 256 + octet v 1, octet v 2 * 256 + octet v 3]) = w"
proof -
  have low: "unat v = unat w mod 2 ^ 32"
    unfolding v_def by (simp add: unsigned_ucast_eq take_bit_eq_mod)
  have "unat (drop_bit 32 w) = 65535"
    using assms(1) by simp
  then have high: "unat w div 2 ^ 32 = 65535"
    unfolding unat_drop_bit_eq by (simp add: drop_bit_eq_div)
  have "be_nat 256 (map (octet v) [0..<4]) = unat v"
  proof -
    have "octet v = (\<lambda>i. unat v div 256 ^ (4 - Suc i) mod 256)"
      unfolding fun_eq_iff octet_def unsigned_take_bit_eq unat_drop_bit_eq
      by (simp add: take_bit_eq_mod drop_bit_eq_div power_mult)
    then have "be_nat 256 (map (octet v) [0..<4]) = unat v mod 256 ^ 4"
      by (simp only: be_nat_digits)
    also have "\<dots> = unat v"
      using unsigned_less [of v, where 'a = nat] by simp
    finally show ?thesis .
  qed
  then have "be_nat 65536 [0, 0, 0, 0, 0, 65535, octet v 0 * 256 + octet v 1, octet v 2 * 256 + octet v 3] =
      65535 * 2 ^ 32 + unat v"
    by (simp add: be_nat_def upt_four)
  also have "\<dots> = unat w"
    using low high div_mult_mod_eq [of "unat w" "2 ^ 32"] by simp
  finally show ?thesis by simp
qed

text \<open>The text of an address without its zone, its octets and its first separator.\<close>

definition bare6 :: "128 word \<Rightarrow> string" where
  "bare6 w = (if Addr_Is4In6 (Addr6 w []) then ''::ffff:'' @ string4 (ucast w) else string6 w)"

lemma Addr_String_bare6: "Addr_String (Addr6 w z) = bare6 w @ zone_suffix z"
  by (simp add: bare6_def)

lemma parse_bare6: "map_option (\<lambda>gs. of_nat (be_nat 65536 gs)) (parse6_groups (bare6 w)) = Some w"
  using parse6_groups_string6 [of w] groups_word [of w] parse6_groups_mapped [of "ucast w"] mapped_word [of w "[]"]
  by (auto simp: bare6_def)

lemma hex_text_set: "c \<in> set (hex_text gs) \<Longrightarrow> is_hex c \<or> c = CHR '':''"
proof (induction gs)
  case (Cons g gs)
  show ?case
  proof (cases "gs = []")
    case False
    with Cons show ?thesis
      unfolding hex_text_Cons [OF False] by (auto dest: hex_digits_set)
  qed (use Cons.prems in \<open>simp add: hex_digits_set\<close>)
qed simp

lemma bare6_set: "c \<in> set (bare6 w) \<Longrightarrow> is_hex c \<or> c = CHR '':'' \<or> c = CHR ''.''"
proof -
  have four: "c \<in> set (string4 v) \<Longrightarrow> is_hex c \<or> c = CHR ''.''" for v
    by (auto simp: string4_def upt_conv_Cons is_hex_def dest: nat_digits_set)
  have six: "c \<in> set (string6 w) \<Longrightarrow> is_hex c \<or> c = CHR '':''"
    by (auto simp: string6_def Let_def simp del: map_map dest: hex_text_set split: prod.splits if_splits)
  have f: "is_hex CHR ''f''" by code_simp
  from four six f show "c \<in> set (bare6 w) \<Longrightarrow> is_hex c \<or> c = CHR '':'' \<or> c = CHR ''.''"
    by (auto simp: bare6_def split: if_splits)
qed

lemma bare6_first: "\<exists>h rest. bare6 w = h @ CHR '':'' # rest \<and> (\<forall>c\<in>set h. is_hex c)"
proof (cases "Addr_Is4In6 (Addr6 w [])")
  case True
  then show ?thesis
    by (intro exI [of _ "[]"] exI [of _ "'':ffff:'' @ string4 (ucast w)"]) (simp add: bare6_def)
next
  case False
  let ?gs = "map (group6 w) [0..<8]"
  obtain s e where run: "zero_run ?gs = (s, e)" by fastforce
  have split: "\<exists>h rest. hex_text gs @ t = h @ CHR '':'' # rest \<and> (\<forall>c\<in>set h. is_hex c)"
    if "t = [] \<longrightarrow> length gs > 1" and "t \<noteq> [] \<longrightarrow> hd t = CHR '':''" for gs t
  proof (cases gs)
    case (Cons g gs')
    have "\<exists>rest. hex_text gs @ t = hex_digits g @ CHR '':'' # rest"
    proof (cases "gs' = []")
      case True
      with that Cons show ?thesis by (cases t) auto
    next
      case False
      then show ?thesis unfolding Cons hex_text_Cons [OF False] by simp
    qed
    with hex_digits_set show ?thesis by blast
  next
    case Nil
    with that have "hex_text gs @ t = [] @ CHR '':'' # tl t" by (cases t) auto
    then show ?thesis by (metis empty_iff list.set(1))
  qed
  show ?thesis
    using False split [of "[]" ?gs] split [of "''::'' @ hex_text (drop e ?gs)" "take s ?gs"]
    by (auto simp: bare6_def string6_def run Let_def)
qed

lemma ParseAddr_bare6: "ParseAddr (bare6 w @ zone_suffix z) = Some (Addr6 w z)"
proof -
  obtain h rest where "bare6 w = h @ CHR '':'' # rest" and "\<forall>c\<in>set h. is_hex c"
    using bare6_first by blast
  then have "find special (bare6 w @ zone_suffix z) = Some CHR '':''"
    by (auto intro!: find_first)
  moreover have no: "CHR ''%'' \<notin> set (bare6 w)"
    using bare6_set by fastforce
  moreover obtain gs where gs: "parse6_groups (bare6 w) = Some gs" "of_nat (be_nat 65536 gs) = w"
    using parse_bare6 [of w] by auto
  moreover have "IndexByte (bare6 w) CHR ''%'' = None"
    using no by (simp add: IndexByte_None)
  ultimately show ?thesis
    by (auto simp: ParseAddr_def parseIPv6_def zone_suffix_def IndexByte_append_sep)
qed

lemma ParseAddr_String: "Addr_IsValid a \<Longrightarrow> ParseAddr (Addr_String a) = Some a"
proof (cases a)
  case (Addr6 w z)
  then show ?thesis
    by (simp only: Addr_String_bare6 ParseAddr_bare6)
qed (simp_all add: ParseAddr_string4)

lemma LastIndexByte_append: "c \<notin> set q \<Longrightarrow> LastIndexByte (p @ c # q) c = Some (length p)"
  using IndexByte_append_sep [of c "rev q" "rev p"] by (simp add: LastIndexByte_def)

text \<open>
  An address and port survive rendering and parsing, for every valid address, be it IPv4,
  IPv6 in any compressed form, IPv4-mapped or zoned.
\<close>

lemma ParseAddrPort_String:
  assumes "AddrPort_IsValid ap"
  shows "ParseAddrPort (AddrPort_String ap) = Some ap"
proof -
  obtain a p where ap: "ap = AddrPort a p" by (cases ap)
  have digits: "CHR '':'' \<notin> set (nat_digits (unat p))" "nat_digits (unat p) \<noteq> []"
    using nat_digits_facts [of "unat p"] by (auto dest: nat_digits_set)
  show ?thesis
  proof (cases a)
    case AddrZero
    with assms ap show ?thesis by (simp add: AddrPort_IsValid_def)
  next
    case (Addr4 w)
    have "is_digit (hd (string4 w))" "string4 w \<noteq> []"
      using string4_Cons [of w] nat_digits_facts [of "octet w 0"]
      by (metis append_is_Nil_conv hd_append2 list.set_sel(1) nat_digits_set)+
    moreover have "\<not> is_digit CHR ''[''" by code_simp
    ultimately have "splitAddrPort (string4 w @ CHR '':'' # nat_digits (unat p)) = Some (string4 w, nat_digits (unat p), False)"
      using digits by (auto simp: splitAddrPort_def LastIndexByte_append Let_def)
    then show ?thesis
      by (simp add: ap Addr4 ParseAddrPort_def ParseUint16_digits ParseAddr_string4)
  next
    case (Addr6 w z)
    let ?s = "bare6 w @ zone_suffix z"
    have "splitAddrPort ((CHR ''['' # ?s @ [CHR '']'']) @ CHR '':'' # nat_digits (unat p)) = Some (?s, nat_digits (unat p), True)"
      unfolding splitAddrPort_def LastIndexByte_append [OF digits(1)]
      using digits(2) by (simp add: butlast_append)
    then show ?thesis
      by (simp add: ap Addr6 ParseAddrPort_def ParseUint16_digits ParseAddr_bare6 Addr_String_bare6
          del: Addr_String.simps)
  qed
qed

end
