(* ===== verification/Attributes.thy ===== *)
theory Attributes
  imports Extproc_Wire Netip_Parse
begin

section \<open>Request attributes\<close>

text \<open>
  \<open>extensions/epe/pkg/extproc/attributes\<close> and \<open>pkg/labels\<close>: the caller, the request and the
  gateway-selected target as read from the proxy's headers and attributes, and the request
  as it will look after the routing headers were rewritten.  The standard library functions
  on the way (\<open>url.ParseQuery\<close>, \<open>base64.StdEncoding\<close>, \<open>netip\<close>) are modelled on octets.  A
  port is an \<open>int32\<close>; the \<open>int64\<close> of a numeric attribute is an \<^typ>\<open>int\<close>, which agrees with
  every conversion the callers accept, since they discard what is outside the port range.
\<close>

subsection \<open>Standard library\<close>

text \<open>\<open>strings.Cut\<close> on one octet: the text after the separator is empty without one.\<close>

definition CutByte :: "string \<Rightarrow> char \<Rightarrow> string \<times> string" where
  "CutByte s c = (case IndexByte s c of None \<Rightarrow> (s, []) | Some i \<Rightarrow> (take i s, drop (Suc i) s))"

fun QueryUnescape :: "string \<Rightarrow> string option" where
  "QueryUnescape [] = Some []"
| "QueryUnescape (c # cs) =
     (if c = CHR ''%'' then
        (case cs of
           a # b # rest \<Rightarrow>
             if is_hex a \<and> is_hex b
             then map_option (\<lambda>t. char_of (16 * hex_value a + hex_value b) # t) (QueryUnescape rest)
             else None
         | _ \<Rightarrow> None)
      else map_option (\<lambda>t. (if c = CHR ''+'' then CHR '' '' else c) # t) (QueryUnescape cs))"

definition query_pair :: "(string \<rightharpoonup> string list) \<Rightarrow> string \<Rightarrow> (string \<rightharpoonup> string list)" where
  "query_pair m part =
     (if CHR '';'' \<in> set part \<or> part = [] then m
      else
        (case CutByte part CHR ''='' of (k, v) \<Rightarrow>
           (case QueryUnescape k of
              None \<Rightarrow> m
            | Some key \<Rightarrow>
              (case QueryUnescape v of
                 None \<Rightarrow> m
               | Some val \<Rightarrow> m(key \<mapsto> (case m key of None \<Rightarrow> [] | Some vs \<Rightarrow> vs) @ [val])))))"

text \<open>
  The values \<open>url.ParseQuery\<close> collects, also when it reports an error; a query of more than
  10000 parts is refused before any is read.
\<close>

definition ParseQuery :: "string \<Rightarrow> (string \<rightharpoonup> string list)" where
  "ParseQuery q =
     (if length (SplitByte q CHR ''&'') > 10000 then Map.empty
      else foldl query_pair Map.empty (SplitByte q CHR ''&''))"

definition base64_value :: "char \<Rightarrow> nat option" where
  "base64_value c =
     (let n = of_char c in
      if 65 \<le> n \<and> n \<le> 90 then Some (n - 65)
      else if 97 \<le> n \<and> n \<le> 122 then Some (n - 71)
      else if 48 \<le> n \<and> n \<le> 57 then Some (n + 4)
      else if n = 43 then Some 62
      else if n = 47 then Some 63
      else None)"

definition base64_octets :: "nat \<Rightarrow> string" where
  "base64_octets v = [char_of (v div 65536), char_of (v div 256 mod 256), char_of (v mod 256)]"

fun base64_quanta :: "string \<Rightarrow> string option" where
  "base64_quanta [] = Some []"
| "base64_quanta (a # b # c # d # rest) =
     (case (base64_value a, base64_value b) of
        (Some x, Some y) \<Rightarrow>
          (if c = CHR ''='' then
             (if d = CHR ''='' \<and> rest = [] then Some (take 1 (base64_octets (x * 262144 + y * 4096))) else None)
           else
             (case base64_value c of
                None \<Rightarrow> None
              | Some z \<Rightarrow>
                  if d = CHR ''='' then
                    (if rest = [] then Some (take 2 (base64_octets (x * 262144 + y * 4096 + z * 64))) else None)
                  else
                    (case base64_value d of
                       None \<Rightarrow> None
                     | Some u \<Rightarrow>
                         map_option (\<lambda>t. base64_octets (x * 262144 + y * 4096 + z * 64 + u) @ t) (base64_quanta rest))))
      | _ \<Rightarrow> None)"
| "base64_quanta _ = None"

text \<open>\<open>base64.StdEncoding.DecodeString\<close>: line ends are skipped, padding is required.\<close>

definition base64_DecodeString :: "string \<Rightarrow> string option" where
  "base64_DecodeString s =
     base64_quanta [c \<leftarrow> s. (of_char c :: nat) \<noteq> 10 \<and> (of_char c :: nat) \<noteq> 13]"

subsection \<open>Labels (\<open>labels.go\<close>)\<close>

definition label_pair :: "(string \<rightharpoonup> string) \<Rightarrow> string \<Rightarrow> (string \<rightharpoonup> string)" where
  "label_pair m raw =
     (let pair = TrimSpace raw in
      case IndexByte pair CHR ''='' of
        None \<Rightarrow> m
      | Some i \<Rightarrow> m(take i pair \<mapsto> drop (Suc i) pair))"

definition ParseLabelPairs :: "string \<Rightarrow> (string \<rightharpoonup> string)" where
  "ParseLabelPairs raw =
     (if raw = [] then Map.empty else foldl label_pair Map.empty (SplitByte raw CHR '',''))"

definition ParseSandboxLabels :: "string \<Rightarrow> (string \<rightharpoonup> string)" where
  "ParseSandboxLabels encoded =
     (case base64_DecodeString encoded of None \<Rightarrow> Map.empty | Some decoded \<Rightarrow> ParseLabelPairs decoded)"

subsection \<open>Messages from the proxy\<close>

record ProtoHeaderValue =
  hv_Key :: string
  hv_Value :: string
  hv_RawValue :: bytes

record HttpHeaders =
  hh_Headers :: "ProtoHeaderValue list option"
  hh_EndOfStream :: bool

type_synonym Attrs = "string \<rightharpoonup> Struct"

definition HeaderValue :: "ProtoHeaderValue \<Rightarrow> string" where
  "HeaderValue h = (if hv_RawValue h \<noteq> [] then hv_RawValue h else hv_Value h)"

definition GetHeaders :: "HttpHeaders option \<Rightarrow> ProtoHeaderValue list option" where
  "GetHeaders headers = Option.bind headers hh_Headers"

definition extractHeaderMap :: "HttpHeaders option \<Rightarrow> (string \<rightharpoonup> string)" where
  "extractHeaderMap headers =
     (case GetHeaders headers of
        None \<Rightarrow> Map.empty
      | Some hs \<Rightarrow>
          foldl (\<lambda>m h. if hv_Key h \<noteq> [] then m(ToLower (hv_Key h) \<mapsto> HeaderValue h) else m) Map.empty hs)"

subsection \<open>The request tuple (\<open>httprequest.go\<close>)\<close>

definition parsePort :: "string \<Rightarrow> 32 word" where
  "parsePort s =
     (if s = [] then 0
      else (case Atoi s of
              None \<Rightarrow> 0
            | Some v \<Rightarrow> if v \<le> 0 \<or> v > 65535 then 0 else word_of_int v))"

definition splitHostPort :: "string \<Rightarrow> string \<times> 32 word" where
  "splitHostPort authority =
     (if authority = [] then ([], 0)
      else if hd authority = CHR ''['' then
        (case IndexByte authority CHR '']'' of
           None \<Rightarrow> (authority, 0)
         | Some e \<Rightarrow>
             if e = 0 then (authority, 0)
             else
               let host = take (e - 1) (tl authority) in
               if e + 1 < length authority \<and> authority ! (e + 1) = CHR '':''
               then (host, parsePort (drop (e + 2) authority)) else (host, 0))
      else
        (case IndexByte authority CHR '':'' of
           Some i \<Rightarrow> (take i authority, parsePort (drop (Suc i) authority))
         | None \<Rightarrow> (authority, 0)))"

definition splitPathAndQuery :: "string \<Rightarrow> string \<times> string" where
  "splitPathAndQuery rawPath =
     (case IndexByte rawPath CHR ''?'' of
        Some i \<Rightarrow> (take i rawPath, drop (Suc i) rawPath)
      | None \<Rightarrow> (rawPath, []))"

definition inferPortFromScheme :: "string \<Rightarrow> 32 word" where
  "inferPortFromScheme scheme =
     (if ToLower scheme = ''http'' then 80 else if ToLower scheme = ''https'' then 443 else 0)"

definition map_get :: "(string \<rightharpoonup> string) \<Rightarrow> string \<Rightarrow> string" where
  "map_get m k = (case m k of None \<Rightarrow> [] | Some v \<Rightarrow> v)"

definition parseHTTPRequest :: "(string \<rightharpoonup> string) \<Rightarrow> HTTPRequest" where
  "parseHTTPRequest headers =
     (let authority =
            (if map_get headers '':authority'' \<noteq> [] then map_get headers '':authority'' else map_get headers ''host'');
          (host, port0) = (if authority \<noteq> [] then splitHostPort authority else ([], 0));
          port = (if port0 = 0 \<and> \<not> EqualFold (map_get headers '':method'') ''CONNECT''
                  then inferPortFromScheme (map_get headers '':scheme'') else port0);
          (path, rawQuery) =
            (case headers '':path'' of None \<Rightarrow> ([], []) | Some p \<Rightarrow> splitPathAndQuery p)
      in \<lparr>req_Host = host, req_Port = port, req_OriginalDestination = AddrPortZero, req_Path = path,
          req_Query = (if rawQuery \<noteq> [] then ParseQuery rawQuery else Map.empty), req_RawQuery = rawQuery,
          req_Method = map_get headers '':method'', req_Scheme = map_get headers '':scheme'',
          req_Headers = headers\<rparr>)"

definition routing_header :: "string \<Rightarrow> bool" where
  "routing_header name \<longleftrightarrow> name \<in> {'':authority'', ''host'', '':scheme'', '':method''}"

definition project_op :: "(string \<rightharpoonup> string) \<Rightarrow> HeaderOp \<Rightarrow> (string \<rightharpoonup> string)" where
  "project_op headers p =
     (let name = ToLower (op_Name p) in
      if \<not> routing_header name \<or> op_Kind p \<noteq> HeaderSet then headers
      else headers((if name = ''host'' then '':authority'' else name) \<mapsto> op_Value p))"

text \<open>The request is returned unchanged when no operation replaces a routing header.\<close>

definition RequestAfterMutations :: "HTTPRequest \<Rightarrow> HeaderOp list \<Rightarrow> HTTPRequest" where
  "RequestAfterMutations request ops =
     (if list_ex (\<lambda>p. routing_header (ToLower (op_Name p)) \<and> op_Kind p = HeaderSet) ops
      then
        let result = parseHTTPRequest (foldl project_op (req_Headers request) ops) in
        if req_Host result = req_Host request \<and> req_Port result = req_Port request
        then result\<lparr>req_OriginalDestination := req_OriginalDestination request\<rparr> else result
      else request)"

subsection \<open>Attributes (\<open>extract.go\<close>)\<close>

definition ExtProcAttrsKey :: string where
  "ExtProcAttrsKey = ''envoy.filters.http.ext_proc''"

definition filter_state :: "string \<Rightarrow> string" where
  "filter_state key = ''filter_state['' @ [CHR 0x27] @ key @ [CHR 0x27] @ '']''"

definition AttrSourceAddress :: string where "AttrSourceAddress = ''source.address''"
definition AttrDestinationPort :: string where "AttrDestinationPort = ''destination.port''"
definition AttrDestinationAddress :: string where "AttrDestinationAddress = ''destination.address''"

definition FilterStateDownstreamPeerName :: string where
  "FilterStateDownstreamPeerName = filter_state ''downstream_peer'' @ ''.name''"
definition FilterStateDownstreamPeerNamespace :: string where
  "FilterStateDownstreamPeerNamespace = filter_state ''downstream_peer'' @ ''.namespace''"
definition FilterStateWorkloadName :: string where
  "FilterStateWorkloadName = filter_state ''agentio.workload.name''"
definition FilterStateWorkloadNamespace :: string where
  "FilterStateWorkloadNamespace = filter_state ''agentio.workload.namespace''"
definition FilterStateWorkloadUID :: string where
  "FilterStateWorkloadUID = filter_state ''agentio.workload.uid''"
definition FilterStateSandboxID :: string where
  "FilterStateSandboxID = filter_state ''agentio.sandbox.id''"
definition FilterStateSandboxLabels :: string where
  "FilterStateSandboxLabels = filter_state ''sandbox.labels''"
definition FilterStateSandboxToken :: string where
  "FilterStateSandboxToken = filter_state ''sandbox.token''"
definition FilterStateSandboxMetadata :: string where
  "FilterStateSandboxMetadata = filter_state ''agentio.sandbox.metadata''"
definition FilterStateRouteUpstream :: string where
  "FilterStateRouteUpstream = filter_state ''agentio.route.upstream''"

definition getExtProcStruct :: "Attrs \<Rightarrow> Struct option" where
  "getExtProcStruct attrs = attrs ExtProcAttrsKey"

definition attr_field :: "Attrs \<Rightarrow> string \<Rightarrow> Value option" where
  "attr_field attrs key = Option.bind (getExtProcStruct attrs) (\<lambda>fields. map_of fields key)"

definition valueToString :: "Value \<Rightarrow> string" where
  "valueToString v =
     (if GetStringValue v \<noteq> [] then GetStringValue v
      else (case GetStructValue v of
              None \<Rightarrow> []
            | Some fs \<Rightarrow> (case map_of fs ''value'' of None \<Rightarrow> [] | Some inner \<Rightarrow> GetStringValue inner)))"

definition extractFilterStateString :: "Attrs \<Rightarrow> string \<Rightarrow> string" where
  "extractFilterStateString attrs key =
     (case attr_field attrs key of
        Some v \<Rightarrow> valueToString v
      | None \<Rightarrow>
        (case attr_field attrs (filter_state key) of
           Some v \<Rightarrow> valueToString v
         | None \<Rightarrow> []))"

text \<open>Go's conversion of a floating-point number to an integer truncates toward zero.\<close>

definition truncate_rat :: "rat \<Rightarrow> int" where
  "truncate_rat n = (if n \<ge> 0 then \<lfloor>n\<rfloor> else \<lceil>n\<rceil>)"

definition extractAttributeInt :: "Attrs \<Rightarrow> string \<Rightarrow> int" where
  "extractAttributeInt attrs key =
     (case attr_field attrs key of None \<Rightarrow> 0 | Some v \<Rightarrow> truncate_rat (GetNumberValue v))"

definition extractWorkloadIP :: "Attrs \<Rightarrow> string" where
  "extractWorkloadIP attrs =
     (let raw = extractFilterStateString attrs AttrSourceAddress in
      if raw = [] then []
      else if hd raw = CHR ''['' then
        (case IndexByte raw CHR '']'' of
           Some e \<Rightarrow> if e > 0 then take (e - 1) (tl raw) else raw
         | None \<Rightarrow> raw)
      else (case LastIndexByte raw CHR '':'' of Some i \<Rightarrow> take i raw | None \<Rightarrow> raw))"

definition extractOriginalDestination :: "Attrs \<Rightarrow> AddrPort" where
  "extractOriginalDestination attrs =
     (let raw = extractFilterStateString attrs AttrDestinationAddress;
          port = extractAttributeInt attrs AttrDestinationPort;
          parsed = (case ParseAddrPort raw of
                      Some address \<Rightarrow> Some address
                    | None \<Rightarrow>
                        (case ParseAddr raw of
                           None \<Rightarrow> None
                         | Some ip \<Rightarrow> if port \<le> 0 \<or> port > 65535 then None else Some (AddrPort ip (word_of_int port))))
      in case parsed of
           None \<Rightarrow> AddrPortZero
         | Some address \<Rightarrow>
             if ap_Port address = 0 \<or> Addr_Zone (ap_Addr address) \<noteq> [] \<or>
                (port \<noteq> 0 \<and> (port < 0 \<or> port > 65535 \<or> port \<noteq> uint (ap_Port address)))
             then AddrPortZero
             else AddrPort (Unmap (ap_Addr address)) (ap_Port address))"

definition extractCaller :: "Attrs \<Rightarrow> CallerContext" where
  "extractCaller attrs =
     (let orElse = (\<lambda>a b. if extractFilterStateString attrs a = []
                          then extractFilterStateString attrs b else extractFilterStateString attrs a);
          workload =
            \<lparr>wl_UID = extractFilterStateString attrs FilterStateWorkloadUID,
             wl_Namespace = orElse FilterStateWorkloadNamespace FilterStateDownstreamPeerNamespace,
             wl_Name = orElse FilterStateWorkloadName FilterStateDownstreamPeerName,
             wl_IP = extractWorkloadIP attrs,
             wl_Labels = ParseSandboxLabels (extractFilterStateString attrs FilterStateSandboxLabels),
             wl_SecurityProfileReferences = None\<rparr>;
          uid = extractFilterStateString attrs FilterStateSandboxID
      in \<lparr>cc_Subject = \<lparr>subj_Workload = workload, subj_Sandbox = (if uid \<noteq> [] then Some \<lparr>sandbox_UID = uid\<rparr> else None)\<rparr>,
          cc_Token = (if attr_field attrs FilterStateSandboxMetadata \<noteq> None
                      then NewSandboxMetadataToken (extractFilterStateString attrs FilterStateSandboxMetadata)
                      else NewSandboxToken (extractFilterStateString attrs FilterStateSandboxToken))\<rparr>)"

definition isCONNECT :: "HTTPRequest \<Rightarrow> bool" where
  "isCONNECT r = EqualFold (req_Method r) ''CONNECT''"

definition pinPort :: "Attrs \<Rightarrow> HTTPRequest \<Rightarrow> HTTPRequest" where
  "pinPort attrs req =
     (let dstPort = extractAttributeInt attrs AttrDestinationPort;
          req1 = (if \<not> isCONNECT req \<and> dstPort > 0 \<and> dstPort \<le> 65535
                  then req\<lparr>req_Port := word_of_int dstPort\<rparr> else req)
      in if isCONNECT req1 then req1
         else
           let original = extractOriginalDestination attrs;
               req2 = req1\<lparr>req_OriginalDestination := original\<rparr>
           in if AddrPort_IsValid original then req2\<lparr>req_Port := ucast (ap_Port original)\<rparr> else req2)"

definition Extract :: "HttpHeaders option \<Rightarrow> Attrs \<Rightarrow> CallerContext \<times> HTTPRequest" where
  "Extract headers attrs =
     (extractCaller attrs, pinPort attrs (parseHTTPRequest (extractHeaderMap headers)))"

datatype UpstreamError = UnparsableUpstream | InvalidUpstream RouteError

definition ExtractUpstream :: "Attrs \<Rightarrow> UpstreamError + UpstreamTarget option" where
  "ExtractUpstream attrs =
     (case attr_field attrs FilterStateRouteUpstream of
        None \<Rightarrow> Inr None
      | Some v \<Rightarrow>
        (case ParseAddrPort (GetStringValue v) of
           None \<Rightarrow> Inl UnparsableUpstream
         | Some address \<Rightarrow>
             let target = \<lparr>up_Address = Some address\<rparr> in
             (case Route_Validate (Some \<lparr>rt_Upstream = Some target, rt_ClearCache = False\<rparr>) of
                Some e \<Rightarrow> Inl (InvalidUpstream e)
              | None \<Rightarrow> Inr (Some target))))"

subsection \<open>Ports\<close>

abbreviation port_ok :: "32 word \<Rightarrow> bool" where
  "port_ok p \<equiv> 0 \<le> sint p \<and> sint p \<le> 65535"

lemma sint_word_of_int_small: "0 \<le> v \<Longrightarrow> v \<le> 65535 \<Longrightarrow> sint (word_of_int v :: 32 word) = v"
  by (simp add: signed_of_int signed_take_bit_int_eq_self)

lemma sint_ucast_port: "sint (ucast (p :: 16 word) :: 32 word) = uint p"
proof -
  have "uint p < 2 ^ LENGTH(16)" "0 \<le> uint p"
    by (rule unsigned_less) simp
  then have "signed_take_bit 31 (uint p) = uint p"
    by (intro signed_take_bit_int_eq_self) (rule order_trans [of _ 0], simp_all)
  then show ?thesis
    by (simp add: signed_ucast_eq)
qed

lemma parsePort_ok: "port_ok (parsePort s)"
  by (auto simp: parsePort_def sint_word_of_int_small split: option.splits)

lemma splitHostPort_ok: "port_ok (snd (splitHostPort s))"
  using parsePort_ok by (auto simp: splitHostPort_def Let_def split: option.splits)

lemma parseHTTPRequest_ok: "port_ok (req_Port (parseHTTPRequest headers))"
  using splitHostPort_ok
  by (auto simp: parseHTTPRequest_def inferPortFromScheme_def Let_def case_prod_beta)

lemma pinPort_ok: "port_ok (req_Port r) \<Longrightarrow> port_ok (req_Port (pinPort attrs r))"
proof -
  have "uint (p :: 16 word) < 2 ^ LENGTH(16)" for p
    by (rule unsigned_less)
  then have "uint (p :: 16 word) \<le> 65535" for p
    by (simp add: less_le_trans add1_zle_eq [symmetric])
  then show "port_ok (req_Port r) \<Longrightarrow> port_ok (req_Port (pinPort attrs r))"
    by (auto simp: pinPort_def Let_def sint_ucast_port sint_word_of_int_small)
qed

text \<open>
  C25: a request port is 0 or a TCP port.  Whatever the authority, the scheme and the proxy's
  attributes contain, the port of an extracted request lies between 0 and 65535 as an
  \<open>int32\<close>, so the later conversion to 16 bits loses nothing, and so does the port of the
  request seen after any rewrite of its routing headers.
\<close>

theorem request_ports_in_range:
  "port_ok (req_Port (snd (Extract headers attrs))) \<and>
   port_ok (req_Port (RequestAfterMutations (snd (Extract headers attrs)) ops))"
proof -
  have "port_ok (req_Port (snd (Extract headers attrs)))"
    unfolding Extract_def snd_conv by (intro pinPort_ok parseHTTPRequest_ok)
  moreover have "port_ok (req_Port (RequestAfterMutations r ops))" if "port_ok (req_Port r)" for r
    using that parseHTTPRequest_ok by (simp add: RequestAfterMutations_def Let_def)
  ultimately show ?thesis by blast
qed

text \<open>
  C24: a forged authority cannot choose the port.  Unless the method is CONNECT, a destination
  port reported by the proxy is the port of the request, whatever the \<open>:authority\<close> or \<open>host\<close>
  header says; for CONNECT the attributes change nothing and the target of the tunnel stays
  the one in the authority.
\<close>

theorem proxy_port_overrides_authority:
  "(isCONNECT (parseHTTPRequest (extractHeaderMap headers)) \<longrightarrow>
      snd (Extract headers attrs) = parseHTTPRequest (extractHeaderMap headers)) \<and>
   (\<not> isCONNECT (parseHTTPRequest (extractHeaderMap headers)) \<and> 0 < extractAttributeInt attrs AttrDestinationPort \<and>
    extractAttributeInt attrs AttrDestinationPort \<le> 65535 \<longrightarrow>
      sint (req_Port (snd (Extract headers attrs))) = extractAttributeInt attrs AttrDestinationPort)"
proof -
  let ?d = "extractAttributeInt attrs AttrDestinationPort"
  have "uint (ap_Port (extractOriginalDestination attrs)) = ?d"
    if "AddrPort_IsValid (extractOriginalDestination attrs)" "0 < ?d"
    using that by (auto simp: extractOriginalDestination_def Let_def AddrPort_IsValid_def split: option.splits if_splits)
  then show ?thesis
    by (auto simp: Extract_def pinPort_def Let_def isCONNECT_def sint_ucast_port sint_word_of_int_small)
qed

definition example_headers :: "HttpHeaders option" where
  "example_headers = Some
     \<lparr>hh_Headers = Some [\<lparr>hv_Key = '':method'', hv_Value = [], hv_RawValue = ''GET''\<rparr>,
                         \<lparr>hv_Key = '':Authority'', hv_Value = ''a.example:22'', hv_RawValue = []\<rparr>],
      hh_EndOfStream = True\<rparr>"

definition example_attrs :: Attrs where
  "example_attrs = [ExtProcAttrsKey \<mapsto>
     [(AttrDestinationPort, NumberValue 80), (AttrDestinationAddress, StringValue ''10.0.0.1:80'')]]"

theorem proxy_port_overrides_authority_witness:
  "sint (req_Port (snd (Extract example_headers example_attrs))) = 80"
proof -
  have d: "extractAttributeInt example_attrs AttrDestinationPort = 80"
    by (simp add: extractAttributeInt_def attr_field_def getExtProcStruct_def example_attrs_def truncate_rat_def)
  have "\<not> isCONNECT (parseHTTPRequest (extractHeaderMap example_headers))"
    by code_simp
  with conjunct2 [OF proxy_port_overrides_authority [of example_headers example_attrs]] d show ?thesis
    by simp
qed

subsection \<open>The request after its mutations\<close>

lemma routing_header_late: "routing_header name \<longleftrightarrow> name \<in> set lateHeaders"
  by (auto simp: routing_header_def lateHeaders_def)

lemma foldl_project_filter:
  "foldl project_op h ops = foldl project_op h [q \<leftarrow> ops. op_key q \<in> set lateHeaders]"
  by (induction ops arbitrary: h) (auto simp: project_op_def routing_header_late Let_def)

lemma list_ex_filter:
  "list_ex (\<lambda>p. routing_header (ToLower (op_Name p)) \<and> op_Kind p = HeaderSet) ops \<longleftrightarrow>
   list_ex (\<lambda>p. op_Kind p = HeaderSet) [q \<leftarrow> ops. op_key q \<in> set lateHeaders]"
  by (auto simp: list_ex_iff routing_header_late)

lemma RequestAfterMutations_late:
  assumes "[q \<leftarrow> as. op_key q \<in> set lateHeaders] = [q \<leftarrow> bs. op_key q \<in> set lateHeaders]"
  shows "RequestAfterMutations r as = RequestAfterMutations r bs"
  unfolding RequestAfterMutations_def list_ex_filter foldl_project_filter [of _ as] foldl_project_filter [of _ bs] assms ..

text \<open>
  C22: the request that is authorized is the request that is sent.  Authorization runs once,
  after the header phase, on the request with the header phase's routing headers and on the
  target stored then, be it the folded route or one the authorizer pinned; the body phase may
  still add header operations, but if it does not block, the target and the projected request
  (host, port, method, scheme) of the final result are the ones that were authorized.
\<close>

theorem authorized_request_is_the_sent_request:
  assumes "EvalRequestHeaders e st units None = (hr, None, st1)" and "request_NeedsBody hr"
    and "R = rhr_Route hr \<or> R = Some pinned"
    and "EvalRequestBody e st2 (Some (hr\<lparr>rhr_Route := R\<rparr>)) b = (br, None, st3)"
    and "rbr_Disposition br \<noteq> DispositionBlocked"
  shows "upstream_of (rbr_Route br) = upstream_of R \<and>
     RequestAfterMutations request (rbr_HeaderOps br) = RequestAfterMutations request (rhr_HeaderOps hr)"
  using request_body_keeps_the_target [OF assms] by (blast intro: RequestAfterMutations_late)

theorem authorized_request_is_the_sent_request_witness:
  "let units = [scripted_unit ''a'' (script0\<lparr>script_rh := Inr (NeedBody [SetHeader ''Host'' ''h'']),
                  script_rb := Inr (Continue [SetHeader ''x'' ''1''])\<rparr>)];
       hr = fst (EvalRequestHeaders scripted_engine scripted_stream units None);
       br = fst (EvalRequestBody scripted_engine scripted_stream (Some hr) body0)
   in RequestAfterMutations HTTPRequestZero (rbr_HeaderOps br) = RequestAfterMutations HTTPRequestZero (rhr_HeaderOps hr)"
proof -
  let ?units = "[scripted_unit ''a'' (script0\<lparr>script_rh := Inr (NeedBody [SetHeader ''Host'' ''h'']),
                  script_rb := Inr (Continue [SetHeader ''x'' ''1''])\<rparr>)]"
  let ?H = "EvalRequestHeaders scripted_engine scripted_stream ?units None"
  let ?B = "EvalRequestBody scripted_engine scripted_stream (Some ((fst ?H)\<lparr>rhr_Route := rhr_Route (fst ?H)\<rparr>)) body0"
  have "fst (snd ?H) = None" "request_NeedsBody (fst ?H)" "fst (snd ?B) = None"
    "rbr_Disposition (fst ?B) \<noteq> DispositionBlocked"
    by code_simp+
  then have h: "?H = (fst ?H, None, snd (snd ?H))" "request_NeedsBody (fst ?H)"
    and b: "?B = (fst ?B, None, snd (snd ?B))" "rbr_Disposition (fst ?B) \<noteq> DispositionBlocked"
    by (simp_all only: prod_eq_iff fst_conv snd_conv simp_thms)
  from authorized_request_is_the_sent_request [OF h _ b, of undefined] show ?thesis
    by (simp add: Let_def)
qed

text \<open>
  C26: a rewritten destination does not inherit the old destination's address.  The request
  projected from a rewrite keeps the original destination only when host and port are still
  those of the request; otherwise it carries none.
\<close>

theorem rewritten_destination_drops_original_address:
  "req_OriginalDestination (RequestAfterMutations r ops) =
     (if req_Host (RequestAfterMutations r ops) = req_Host r \<and> req_Port (RequestAfterMutations r ops) = req_Port r
      then req_OriginalDestination r else AddrPortZero)"
proof -
  have "req_OriginalDestination (parseHTTPRequest h) = AddrPortZero" for h
    by (simp add: parseHTTPRequest_def Let_def case_prod_beta)
  then show ?thesis
    by (auto simp: RequestAfterMutations_def Let_def)
qed

subsection \<open>Targets on the wire\<close>

lemma Route_Validate_target:
  "Route_Validate (Some rt) = None \<Longrightarrow> rt_Upstream rt = Some u \<Longrightarrow>
   Route_Validate (Some \<lparr>rt_Upstream = Some u, rt_ClearCache = False\<rparr>) = None"
  by (simp add: Route_Validate_def split: option.splits)

text \<open>
  C23: a target survives the way through the proxy.  The address text that
  \<open>applyRouteMutation\<close> publishes for a valid route, handed back in the route attribute, is
  read by \<open>ExtractUpstream\<close> as exactly the same target, for IPv4, IPv6 and IPv4-mapped
  addresses.
\<close>

theorem published_target_reads_back:
  assumes "Route_Validate (Some rt) = None" and "rt_Upstream rt = Some u"
    and "responseUpstream (applyRouteMutation (respond (RequestHeaders c)) (Some rt)) = Some up"
    and "map_of up ''address'' = Some v"
  shows "ExtractUpstream [ExtProcAttrsKey \<mapsto> [(FilterStateRouteUpstream, v)]] = Inr (Some u)"
proof -
  obtain a where a: "up_Address u = Some a"
    using Route_Validate_address [OF assms(1,2)] by blast
  have "AddrPort_IsValid a"
    using assms(1,2) a by (auto simp: Route_Validate_def split: if_splits)
  moreover have "v = StringValue (AddrPort_String a)"
    using assms(3,4) applyRouteMutation_upstream(1) [OF assms(1,2) a] by (auto simp: published_fields)
  moreover have "u = \<lparr>up_Address = Some a\<rparr>"
    using a by (cases u) simp
  ultimately show ?thesis
    using Route_Validate_target [OF assms(1,2)]
    by (simp add: ExtractUpstream_def attr_field_def getExtProcStruct_def ParseAddrPort_String)
qed

theorem published_target_reads_back_witness:
  "ExtractUpstream [ExtProcAttrsKey \<mapsto> [(FilterStateRouteUpstream, StringValue ''10.0.0.1:80'')]] =
     Inr (Some \<lparr>up_Address = Some (AddrPort (Addr4 0x0A000001) 80)\<rparr>)"
proof -
  let ?u = "\<lparr>up_Address = Some (AddrPort (Addr4 0x0A000001) 80)\<rparr>"
  let ?rt = "\<lparr>rt_Upstream = Some ?u, rt_ClearCache = False\<rparr>"
  have valid: "Route_Validate (Some ?rt) = None" by code_simp
  have "AddrPort_String (AddrPort (Addr4 0x0A000001) 80) = ''10.0.0.1:80''" by code_simp
  then have "map_of (published (AddrPort (Addr4 0x0A000001) 80)) ''address'' = Some (StringValue ''10.0.0.1:80'')"
    by (simp add: published_fields)
  moreover have "responseUpstream (applyRouteMutation (respond (RequestHeaders None)) (Some ?rt)) =
      Some (published (AddrPort (Addr4 0x0A000001) 80))"
    using applyRouteMutation_upstream(1) [OF valid, of ?u "AddrPort (Addr4 0x0A000001) 80"] by simp
  ultimately show ?thesis
    using published_target_reads_back [OF valid, of ?u None] by simp
qed

end
