(* ===== verification/Ttl_Cache.thy ===== *)
theory Ttl_Cache
  imports Go_Prelude
begin

section \<open>The expiring cache\<close>

text \<open>
  \<open>pkg/cache\<close>: a value cache with deadlines and an optional capacity.  Time is the number of
  nanoseconds on the clock and \<open>None\<close> is Go's zero time, which never expires.  The clock is
  read once per operation, so the time is an argument of each operation; the lock makes each
  operation atomic.  The bounded storage is \<open>simplelru\<close> of \<open>hashicorp/golang-lru\<close>, which is
  not part of the program: its operations are the record \<open>simplelru\<close>, an argument of the
  definitions, and what its documentation promises is the locale \<open>lru_laws\<close>.
\<close>

subsection \<open>Storage\<close>

record 'v entry =
  e_value :: 'v
  e_expiresAt :: "int option"

definition expired :: "'v entry \<Rightarrow> int \<Rightarrow> bool" where
  "expired e now = (case e_expiresAt e of None \<Rightarrow> False | Some t \<Rightarrow> \<not> now < t)"

record ('k, 'e, 's) simplelru =
  lru_New :: "nat \<Rightarrow> 's"
  lru_Add :: "'k \<Rightarrow> 'e \<Rightarrow> 's \<Rightarrow> 's"
  lru_Get :: "'k \<Rightarrow> 's \<Rightarrow> 's"
  lru_Peek :: "'k \<Rightarrow> 's \<Rightarrow> 'e option"
  lru_Remove :: "'k \<Rightarrow> 's \<Rightarrow> 's"
  lru_Keys :: "'s \<Rightarrow> 'k list"

type_synonym ('k, 'v, 's) lru = "('k, 'v entry, 's) simplelru"

record ('k, 'v, 's) Cache =
  c_lru :: "'s option"
  c_items :: "('k \<times> 'v entry) list"
  c_ttl :: int

datatype CacheError = NegativeSetting

record Builder =
  b_capacity :: int
  b_ttl :: int

definition NewBuilder :: Builder where
  "NewBuilder = \<lparr>b_capacity = 0, b_ttl = 0\<rparr>"

definition WithLRU :: "int \<Rightarrow> Builder \<Rightarrow> Builder" where
  "WithLRU capacity b = b\<lparr>b_capacity := capacity\<rparr>"

definition WithTTL :: "int \<Rightarrow> Builder \<Rightarrow> Builder" where
  "WithTTL ttl b = b\<lparr>b_ttl := ttl\<rparr>"

definition cache_Build :: "('k, 'v, 's) lru \<Rightarrow> Builder \<Rightarrow> CacheError + ('k, 'v, 's) Cache" where
  "cache_Build L b =
     (if b_capacity b < 0 \<or> b_ttl b < 0 then Inl NegativeSetting
      else Inr \<lparr>c_lru = (if b_capacity b > 0 then Some (lru_New L (nat (b_capacity b))) else None),
                c_items = [], c_ttl = b_ttl b\<rparr>)"

definition cache_peek :: "('k, 'v, 's) lru \<Rightarrow> 'k \<Rightarrow> ('k, 'v, 's) Cache \<Rightarrow> 'v entry option" where
  "cache_peek L key c =
     (case c_lru c of Some s \<Rightarrow> lru_Peek L key s | None \<Rightarrow> map_of (c_items c) key)"

definition cache_remove :: "('k, 'v, 's) lru \<Rightarrow> 'k \<Rightarrow> ('k, 'v, 's) Cache \<Rightarrow> ('k, 'v, 's) Cache" where
  "cache_remove L key c =
     (case c_lru c of
        Some s \<Rightarrow> c\<lparr>c_lru := Some (lru_Remove L key s)\<rparr>
      | None \<Rightarrow> c\<lparr>c_items := [p \<leftarrow> c_items c. fst p \<noteq> key]\<rparr>)"

definition setLocked ::
  "('k, 'v, 's) lru \<Rightarrow> 'k \<Rightarrow> 'v \<Rightarrow> int option \<Rightarrow> ('k, 'v, 's) Cache \<Rightarrow> ('k, 'v, 's) Cache" where
  "setLocked L key v expiresAt c =
     (let e = \<lparr>e_value = v, e_expiresAt = expiresAt\<rparr> in
      case c_lru c of
        Some s \<Rightarrow> c\<lparr>c_lru := Some (lru_Add L key e s)\<rparr>
      | None \<Rightarrow> c\<lparr>c_items := (key, e) # [p \<leftarrow> c_items c. fst p \<noteq> key]\<rparr>)"

subsection \<open>Operations\<close>

definition cache_Get ::
  "('k, 'v, 's) lru \<Rightarrow> int \<Rightarrow> 'k \<Rightarrow> ('k, 'v, 's) Cache \<Rightarrow> 'v option \<times> ('k, 'v, 's) Cache" where
  "cache_Get L now key c =
     (case cache_peek L key c of
        None \<Rightarrow> (None, c)
      | Some e \<Rightarrow>
          if expired e now then (None, cache_remove L key c)
          else (Some (e_value e),
                case c_lru c of Some s \<Rightarrow> c\<lparr>c_lru := Some (lru_Get L key s)\<rparr> | None \<Rightarrow> c))"

definition cache_Set :: "('k, 'v, 's) lru \<Rightarrow> int \<Rightarrow> 'k \<Rightarrow> 'v \<Rightarrow> ('k, 'v, 's) Cache \<Rightarrow> ('k, 'v, 's) Cache" where
  "cache_Set L now key v c = setLocked L key v (if c_ttl c > 0 then Some (now + c_ttl c) else None) c"

definition SetWithExpiration ::
  "('k, 'v, 's) lru \<Rightarrow> int \<Rightarrow> 'k \<Rightarrow> 'v \<Rightarrow> int option \<Rightarrow> ('k, 'v, 's) Cache \<Rightarrow> bool \<times> ('k, 'v, 's) Cache" where
  "SetWithExpiration L now key v expiresAt c =
     (if (case expiresAt of None \<Rightarrow> False | Some t \<Rightarrow> \<not> now < t) then (False, c)
      else (True, setLocked L key v expiresAt c))"

definition cache_Remove :: "('k, 'v, 's) lru \<Rightarrow> 'k \<Rightarrow> ('k, 'v, 's) Cache \<Rightarrow> ('k, 'v, 's) Cache" where
  "cache_Remove L key c = cache_remove L key c"

definition cache_Keys :: "('k, 'v, 's) lru \<Rightarrow> ('k, 'v, 's) Cache \<Rightarrow> 'k list" where
  "cache_Keys L c = (case c_lru c of Some s \<Rightarrow> lru_Keys L s | None \<Rightarrow> map fst (c_items c))"

definition cache_Len :: "('k, 'v, 's) lru \<Rightarrow> ('k, 'v, 's) Cache \<Rightarrow> nat" where
  "cache_Len L c = length (cache_Keys L c)"

subsection \<open>Contracts\<close>

text \<open>What a client of an expiring cache relies on: \<open>holds c k v t\<close> says that \<open>c\<close> retains \<open>v\<close>.\<close>

locale expiring_cache =
  fixes get :: "int \<Rightarrow> 'k \<Rightarrow> 'c \<Rightarrow> 'v option \<times> 'c"
    and put :: "int \<Rightarrow> 'k \<Rightarrow> 'v \<Rightarrow> int option \<Rightarrow> 'c \<Rightarrow> bool \<times> 'c"
    and drop_key :: "'k \<Rightarrow> 'c \<Rightarrow> 'c"
    and holds :: "'c \<Rightarrow> 'k \<Rightarrow> 'v \<Rightarrow> int option \<Rightarrow> bool"
  assumes get_live: "get now k c = (Some v, c') \<Longrightarrow> \<exists>t. holds c k v t \<and> (t = None \<or> now < the t)"
    and get_holds: "get now k c = (r, c') \<Longrightarrow> holds c' k' v t \<Longrightarrow> holds c k' v t"
    and put_holds: "put now k v t c = (b, c') \<Longrightarrow> holds c' k' v' t' \<Longrightarrow>
           holds c k' v' t' \<or> (b \<and> k' = k \<and> v' = v \<and> t' = t)"
    and put_get: "put now k v t c = (True, c') \<Longrightarrow> t = None \<or> now' < the t \<Longrightarrow> fst (get now' k c') = Some v"
    and drop_holds: "holds (drop_key k c) k' v t \<Longrightarrow> k' \<noteq> k \<and> holds c k' v t"

text \<open>The documented behaviour of \<open>simplelru\<close>: eviction may forget entries, but never invents one.\<close>

locale lru_laws =
  fixes L :: "('k, 'v, 's) lru"
  assumes peek_New: "lru_Peek L k (lru_New L n) = None"
    and peek_Add: "lru_Peek L k (lru_Add L k e s) = Some e"
    and peek_Add_other: "k' \<noteq> k \<Longrightarrow> lru_Peek L k' (lru_Add L k e s) = Some e' \<Longrightarrow> lru_Peek L k' s = Some e'"
    and peek_Get: "lru_Peek L k' (lru_Get L k s) = lru_Peek L k' s"
    and peek_Remove: "lru_Peek L k' (lru_Remove L k s) = (if k' = k then None else lru_Peek L k' s)"

definition cache_holds :: "('k, 'v, 's) lru \<Rightarrow> ('k, 'v, 's) Cache \<Rightarrow> 'k \<Rightarrow> 'v \<Rightarrow> int option \<Rightarrow> bool" where
  "cache_holds L c k v t \<longleftrightarrow> cache_peek L k c = Some \<lparr>e_value = v, e_expiresAt = t\<rparr>"

lemma map_of_filter_key: "map_of [p \<leftarrow> xs. fst p \<noteq> k] k' = (if k' = k then None else map_of xs k')"
  by (induction xs) auto

context lru_laws
begin

lemma cache_peek_remove:
  "cache_peek L k' (cache_remove L k c) = (if k' = k then None else cache_peek L k' c)"
  by (cases "c_lru c") (simp_all add: cache_peek_def cache_remove_def peek_Remove map_of_filter_key)

lemma cache_peek_setLocked_same:
  "cache_peek L k (setLocked L k v t c) = Some \<lparr>e_value = v, e_expiresAt = t\<rparr>"
  by (cases "c_lru c") (simp_all add: cache_peek_def setLocked_def Let_def peek_Add)

lemma cache_peek_setLocked_other:
  "k' \<noteq> k \<Longrightarrow> cache_peek L k' (setLocked L k v t c) = Some e \<Longrightarrow> cache_peek L k' c = Some e"
  by (cases "c_lru c") (auto simp: cache_peek_def setLocked_def Let_def map_of_filter_key dest: peek_Add_other)

lemma cache_Get_peek:
  "cache_Get L now k c = (r, c') \<Longrightarrow> cache_peek L k' c' = Some e \<Longrightarrow> cache_peek L k' c = Some e"
  by (auto simp: cache_Get_def cache_peek_remove split: option.splits if_splits)
     (simp_all add: cache_peek_def peek_Get)

end

lemma entry_eta: "\<lparr>e_value = e_value e, e_expiresAt = e_expiresAt e\<rparr> = e"
  by (cases e) simp

sublocale lru_laws \<subseteq> cached: expiring_cache "cache_Get L" "SetWithExpiration L" "cache_Remove L" "cache_holds L"
proof unfold_locales
  fix now k c v c'
  assume "cache_Get L now k c = (Some v, c')"
  then obtain e where "cache_peek L k c = Some e" "\<not> expired e now" "v = e_value e"
    by (auto simp: cache_Get_def split: option.splits if_splits)
  then show "\<exists>t. cache_holds L c k v t \<and> (t = None \<or> now < the t)"
    by (intro exI [of _ "e_expiresAt e"]) (auto simp: cache_holds_def entry_eta expired_def split: option.splits)
next
  fix now k c r c' k' v t
  assume "cache_Get L now k c = (r, c')" and "cache_holds L c' k' v t"
  then show "cache_holds L c k' v t"
    unfolding cache_holds_def by (rule cache_Get_peek)
next
  fix now k v t c b c' k' v' t'
  assume "SetWithExpiration L now k v t c = (b, c')" and "cache_holds L c' k' v' t'"
  then show "cache_holds L c k' v' t' \<or> (b \<and> k' = k \<and> v' = v \<and> t' = t)"
    by (cases "k' = k")
       (auto simp: SetWithExpiration_def cache_holds_def cache_peek_setLocked_same
          dest: cache_peek_setLocked_other split: if_splits)
next
  fix now k v t c c' now'
  assume "SetWithExpiration L now k v t c = (True, c')" and "t = None \<or> now' < the t"
  then show "fst (cache_Get L now' k c') = Some v"
    by (auto simp: SetWithExpiration_def cache_Get_def cache_peek_setLocked_same expired_def
        split: if_splits option.splits)
next
  fix k c k' v t
  assume "cache_holds L (cache_Remove L k c) k' v t"
  then show "k' \<noteq> k \<and> cache_holds L c k' v t"
    by (auto simp: cache_holds_def cache_Remove_def cache_peek_remove split: if_splits)
qed

text \<open>A least-recently-used store by its recency list: the instance on which the laws are exercised.\<close>

definition recency_lru :: "('k, 'e, nat \<times> ('k \<times> 'e) list) simplelru" where
  "recency_lru =
     \<lparr>lru_New = (\<lambda>n. (n, [])),
      lru_Add = (\<lambda>k e (n, xs). (n, (k, e) # take (n - 1) [p \<leftarrow> xs. fst p \<noteq> k])),
      lru_Get = (\<lambda>k (n, xs). (n, [p \<leftarrow> xs. fst p = k] @ [p \<leftarrow> xs. fst p \<noteq> k])),
      lru_Peek = (\<lambda>k (n, xs). map_of xs k),
      lru_Remove = (\<lambda>k (n, xs). (n, [p \<leftarrow> xs. fst p \<noteq> k])),
      lru_Keys = (\<lambda>(n, xs). map fst xs)\<rparr>"

lemma map_of_take: "map_of (take n xs) k = Some e \<Longrightarrow> map_of xs k = Some e"
  by (induction xs arbitrary: n) (auto simp: take_Cons split: nat.splits if_splits)

lemma map_of_filter_same: "map_of [p \<leftarrow> xs. fst p = k] k' = (if k' = k then map_of xs k' else None)"
  by (induction xs) auto

lemma map_of_promote:
  "(map_of [p \<leftarrow> xs. fst p \<noteq> k] ++ map_of [p \<leftarrow> xs. fst p = k]) k' = map_of xs k'"
  by (simp add: map_add_def map_of_filter_key map_of_filter_same split: option.splits)

interpretation recency: lru_laws recency_lru
  by unfold_locales
     (auto simp: recency_lru_def map_of_filter_key map_of_promote dest!: map_of_take split: prod.splits if_splits)

end
