(* ===== verification/Dns_Client.thy ===== *)
theory Dns_Client
  imports Ttl_Cache Netip
begin

section \<open>The DNS client\<close>

text \<open>
  \<open>pkg/dns\<close>: custom records, the bounded cache of answers, and the protocol lookup.  The
  cache's lock makes \<open>get\<close>, \<open>store\<close> and \<open>update\<close> atomic steps, while a lookup runs without it;
  the lemmas on sequences of such steps speak about every interleaving.  The exchange of one
  message with one server is done by \<open>miekg/dns\<close> over the network and is a parameter.
  Contexts and timeouts are not modelled: an expired context is one of the errors a lookup
  may report.
\<close>

subsection \<open>Types (\<open>types.go\<close>)\<close>

type_synonym Family = "8 word"

abbreviation DualStack :: Family where "DualStack \<equiv> 0"
abbreviation IPv4Only :: Family where "IPv4Only \<equiv> 1"
abbreviation IPv6Only :: Family where "IPv6Only \<equiv> 2"

datatype Source = SourceDNS | SourceCustom

record Result =
  res_Addresses :: "Addr list"
  res_ExpiresAt :: "int option"
  res_Source :: Source

record LookupResult =
  lr_Addresses :: "Addr list"
  lr_TTL :: int
  lr_NameError :: bool

datatype DnsError =
    ErrInvalidHost
  | ErrInvalidFamily
  | ErrNoAddresses
  | InvalidCustomAddress Addr
  | NoServers
  | TruncatedTCP string
  | BadRcode string int
  | ExchangeFailed string
  | QueryFailed string "DnsError option"
  | ResolveFailed DnsError

definition DefaultCacheCapacity :: int where
  "DefaultCacheCapacity = 1024"

subsection \<open>Names and addresses (\<open>records.go\<close>)\<close>

definition TrimSuffixDot :: "string \<Rightarrow> string" where
  "TrimSuffixDot s = (if s \<noteq> [] \<and> last s = CHR ''.'' then butlast s else s)"

definition host_char :: "char \<Rightarrow> bool" where
  "host_char c \<longleftrightarrow> (let n = (of_char c :: nat) in (97 \<le> n \<and> n \<le> 122) \<or> is_digit c \<or> c = CHR ''-'')"

definition label_ok :: "string \<Rightarrow> bool" where
  "label_ok l \<longleftrightarrow>
     l \<noteq> [] \<and> length l \<le> 63 \<and> hd l \<noteq> CHR ''-'' \<and> last l \<noteq> CHR ''-'' \<and> list_all host_char l"

definition normalizeHost :: "string \<Rightarrow> DnsError + string" where
  "normalizeHost raw =
     (let host = ToLower (TrimSuffixDot raw) in
      if host = [] \<or> length host > 253 \<or> list_all (\<lambda>c. is_digit c \<or> c = CHR ''.'') host then Inl ErrInvalidHost
      else if list_all label_ok (SplitByte host CHR ''.'') then Inr host
      else Inl ErrInvalidHost)"

definition family_ok :: "Family \<Rightarrow> Addr \<Rightarrow> bool" where
  "family_ok family ip \<longleftrightarrow>
     Addr_IsValid ip \<and> Addr_Zone ip = [] \<and> \<not> (family = IPv4Only \<and> \<not> Addr_Is4 ip) \<and>
     \<not> (family = IPv6Only \<and> Addr_BitLen ip \<noteq> 128)"

fun select_from :: "Family \<Rightarrow> Addr list \<Rightarrow> Addr list \<Rightarrow> Addr list" where
  "select_from family seen [] = []"
| "select_from family seen (ip # ips) =
     (let ip = Unmap ip in
      if \<not> family_ok family ip \<or> ip \<in> set seen then select_from family seen ips
      else ip # select_from family (ip # seen) ips)"

definition selectAddresses :: "Addr list \<Rightarrow> Family \<Rightarrow> Addr list" where
  "selectAddresses addresses family = select_from family [] addresses"

subsection \<open>The resolution cache (\<open>cache.go\<close>)\<close>

record cacheKey =
  ck_host :: string
  ck_family :: Family

type_synonym 's answers = "(cacheKey, Result, 's) Cache"

record 's resolutionCache =
  rc_dns :: "'s answers option"
  rc_records :: "string \<rightharpoonup> Addr list"
  rc_revision :: "64 word"

type_synonym 's answers_lru = "(cacheKey, Result, 's) lru"

definition newResolutionCache :: "'s answers_lru \<Rightarrow> int \<Rightarrow> 's resolutionCache" where
  "newResolutionCache L capacity =
     \<lparr>rc_dns = (if capacity > 0
                then (case cache_Build L (WithLRU capacity NewBuilder) of Inr store \<Rightarrow> Some store | Inl _ \<Rightarrow> None)
                else None),
      rc_records = Map.empty, rc_revision = 0\<rparr>"

definition customResult :: "Addr list \<Rightarrow> Family \<Rightarrow> Result" where
  "customResult addresses family =
     \<lparr>res_Addresses = selectAddresses addresses family, res_ExpiresAt = None, res_Source = SourceCustom\<rparr>"

text \<open>
  \<open>get\<close> also returns the start time it read from the clock; the answer cache reads the clock
  again, which is the time \<open>now\<close> here, and the start time is an argument of the caller.
\<close>

definition rc_get ::
  "'s answers_lru \<Rightarrow> int \<Rightarrow> cacheKey \<Rightarrow> 's resolutionCache \<Rightarrow> Result option \<times> 64 word \<times> 's resolutionCache" where
  "rc_get L now key c =
     (case rc_records c (ck_host key) of
        Some addresses \<Rightarrow> (Some (customResult addresses (ck_family key)), rc_revision c, c)
      | None \<Rightarrow>
        (case rc_dns c of
           None \<Rightarrow> (None, rc_revision c, c)
         | Some d \<Rightarrow>
           (case cache_Get L now key d of (r, d') \<Rightarrow> (r, rc_revision c, c\<lparr>rc_dns := Some d'\<rparr>))))"

definition rc_store ::
  "'s answers_lru \<Rightarrow> int \<Rightarrow> cacheKey \<Rightarrow> Result \<Rightarrow> 64 word \<Rightarrow> 's resolutionCache \<Rightarrow> Result \<times> 's resolutionCache" where
  "rc_store L now key result revision c =
     (case rc_records c (ck_host key) of
        Some addresses \<Rightarrow> (customResult addresses (ck_family key), c)
      | None \<Rightarrow>
          (result,
           case rc_dns c of
             Some d \<Rightarrow>
               if rc_revision c = revision \<and> res_Addresses result \<noteq> []
               then c\<lparr>rc_dns := Some (snd (SetWithExpiration L now key result (res_ExpiresAt result) d))\<rparr>
               else c
           | None \<Rightarrow> c))"

definition rc_update :: "'s answers_lru \<Rightarrow> string \<Rightarrow> Addr list \<Rightarrow> 's resolutionCache \<Rightarrow> 's resolutionCache" where
  "rc_update L host addresses c =
     c\<lparr>rc_revision := rc_revision c + 1,
       rc_records := (if addresses = [] then (rc_records c)(host := None) else (rc_records c)(host \<mapsto> addresses)),
       rc_dns := map_option
         (\<lambda>d. fold (\<lambda>family. cache_Remove L \<lparr>ck_host = host, ck_family = family\<rparr>) [DualStack, IPv4Only, IPv6Only] d)
         (rc_dns c)\<rparr>"

subsection \<open>The client (\<open>client.go\<close>, \<open>records.go\<close>)\<close>

type_synonym Lookup = "string \<Rightarrow> Family \<Rightarrow> DnsError + LookupResult"

definition requireAddresses :: "Result \<Rightarrow> DnsError + Result" where
  "requireAddresses result = (if res_Addresses result = [] then Inl ErrNoAddresses else Inr result)"

definition dns_Resolve ::
  "'s answers_lru \<Rightarrow> Lookup \<Rightarrow> int \<Rightarrow> int \<Rightarrow> int \<Rightarrow> string \<Rightarrow> Family \<Rightarrow> 's resolutionCache \<Rightarrow>
   (DnsError + Result) \<times> 's resolutionCache" where
  "dns_Resolve L lookup started looked finished rawHost family c =
     (if family > IPv6Only then (Inl ErrInvalidFamily, c)
      else
        (case normalizeHost rawHost of
           Inl e \<Rightarrow> (Inl e, c)
         | Inr host \<Rightarrow>
             let key = \<lparr>ck_host = host, ck_family = family\<rparr> in
             (case rc_get L looked key c of
                (Some result, revision, c1) \<Rightarrow> (requireAddresses result, c1)
              | (None, revision, c1) \<Rightarrow>
                (case lookup host family of
                   Inl e \<Rightarrow> (Inl (ResolveFailed e), c1)
                 | Inr answer \<Rightarrow>
                   (case rc_store L finished key
                           \<lparr>res_Addresses = selectAddresses (lr_Addresses answer) family,
                            res_ExpiresAt = Some (started + max 0 (lr_TTL answer)), res_Source = SourceDNS\<rparr>
                           revision c1 of
                      (result, c2) \<Rightarrow> (requireAddresses result, c2))))))"

definition SetRecord ::
  "'s answers_lru \<Rightarrow> string \<Rightarrow> Addr list \<Rightarrow> 's resolutionCache \<Rightarrow> DnsError option \<times> 's resolutionCache" where
  "SetRecord L rawHost addresses c =
     (case normalizeHost rawHost of
        Inl e \<Rightarrow> (Some e, c)
      | Inr host \<Rightarrow>
          if addresses = [] then (Some ErrNoAddresses, c)
          else
            (case find (\<lambda>ip. \<not> Addr_IsValid ip \<or> Addr_Zone ip \<noteq> []) addresses of
               Some ip \<Rightarrow> (Some (InvalidCustomAddress ip), c)
             | None \<Rightarrow> (None, rc_update L host (selectAddresses addresses DualStack) c)))"

definition DeleteRecord ::
  "'s answers_lru \<Rightarrow> string \<Rightarrow> 's resolutionCache \<Rightarrow> DnsError option \<times> 's resolutionCache" where
  "DeleteRecord L rawHost c =
     (case normalizeHost rawHost of
        Inl e \<Rightarrow> (Some e, c)
      | Inr host \<Rightarrow> (None, rc_update L host [] c))"

subsection \<open>The protocol lookup (\<open>transport.go\<close>)\<close>

text \<open>
  A resource record as far as it is read: an address record carries the octets of its
  address, whose rendering and parsing by the standard library is \<open>AddrFromSlice\<close> with an
  IPv4-mapped address unmapped.
\<close>

datatype QueryType = TypeA | TypeAAAA

datatype RR = RR_CNAME (rr_ttl: "32 word") | RR_A "32 word" bytes | RR_AAAA "32 word" bytes
  | RR_SOA "32 word" "32 word" | RR_Other "32 word"

record Msg =
  msg_Truncated :: bool
  msg_Rcode :: int
  msg_Answer :: "RR list"
  msg_Ns :: "RR list"

definition second :: int where
  "second = 1000000000"

text \<open>\<open>exchange tcp server host queryType\<close>: one message over UDP or TCP.\<close>

type_synonym Exchange = "bool \<Rightarrow> string \<Rightarrow> string \<Rightarrow> QueryType \<Rightarrow> string + Msg"

definition record_address :: "QueryType \<Rightarrow> RR \<Rightarrow> (32 word \<times> Addr) option" where
  "record_address queryType rr =
     (case (rr, queryType) of
        (RR_A ttl bs, TypeA) \<Rightarrow> map_option (\<lambda>a. (ttl, Unmap a)) (AddrFromSlice bs)
      | (RR_AAAA ttl bs, TypeAAAA) \<Rightarrow> map_option (\<lambda>a. (ttl, Unmap a)) (AddrFromSlice bs)
      | _ \<Rightarrow> None)"

definition includeTTL :: "32 word \<Rightarrow> int option \<Rightarrow> int option" where
  "includeTTL seconds ttl =
     (let v = uint seconds * second in
      case ttl of None \<Rightarrow> Some v | Some t \<Rightarrow> if v < t then Some v else Some t)"

fun read_answers :: "QueryType \<Rightarrow> RR list \<Rightarrow> Addr list \<Rightarrow> int option \<Rightarrow> Addr list \<times> int option" where
  "read_answers queryType [] addresses ttl = (addresses, ttl)"
| "read_answers queryType (rr # rrs) addresses ttl =
     (case rr of
        RR_CNAME t \<Rightarrow> read_answers queryType rrs addresses (includeTTL t ttl)
      | _ \<Rightarrow>
        (case record_address queryType rr of
           None \<Rightarrow> read_answers queryType rrs addresses ttl
         | Some (t, a) \<Rightarrow> read_answers queryType rrs (addresses @ [a]) (includeTTL t ttl)))"

definition negativeTTL :: "Msg \<Rightarrow> int" where
  "negativeTTL response =
     foldl (\<lambda>ttl rr. case rr of
              RR_SOA hdr minttl \<Rightarrow>
                let candidate = uint (min hdr minttl) * second
                in if ttl = 0 \<or> candidate < ttl then candidate else ttl
            | _ \<Rightarrow> ttl) 0 (msg_Ns response)"

definition exchange_any :: "Exchange \<Rightarrow> string \<Rightarrow> string \<Rightarrow> QueryType \<Rightarrow> DnsError + Msg" where
  "exchange_any exchange server host queryType =
     (case exchange False server host queryType of
        Inl e \<Rightarrow> Inl (ExchangeFailed e)
      | Inr response \<Rightarrow>
          if msg_Truncated response then
            (case exchange True server host queryType of
               Inl e \<Rightarrow> Inl (ExchangeFailed e)
             | Inr response \<Rightarrow> if msg_Truncated response then Inl (TruncatedTCP server) else Inr response)
          else Inr response)"

fun try_servers :: "Exchange \<Rightarrow> string \<Rightarrow> QueryType \<Rightarrow> DnsError option \<Rightarrow> string list \<Rightarrow> DnsError + LookupResult" where
  "try_servers exchange host queryType lastErr [] = Inl (QueryFailed host lastErr)"
| "try_servers exchange host queryType lastErr (server # servers) =
     (case exchange_any exchange server host queryType of
        Inl e \<Rightarrow> try_servers exchange host queryType (Some e) servers
      | Inr response \<Rightarrow>
          if msg_Rcode response = 3
          then Inr \<lparr>lr_Addresses = [], lr_TTL = negativeTTL response, lr_NameError = True\<rparr>
          else if msg_Rcode response \<noteq> 0
          then try_servers exchange host queryType (Some (BadRcode server (msg_Rcode response))) servers
          else
            (case read_answers queryType (msg_Answer response) [] None of (addresses, ttl) \<Rightarrow>
               Inr \<lparr>lr_Addresses = addresses,
                    lr_TTL = (if addresses = [] then negativeTTL response
                              else (case ttl of None \<Rightarrow> 0 | Some t \<Rightarrow> t)),
                    lr_NameError = False\<rparr>))"

definition queryServers :: "Exchange \<Rightarrow> string list \<Rightarrow> string \<Rightarrow> QueryType \<Rightarrow> DnsError + LookupResult" where
  "queryServers exchange servers host queryType =
     (if servers = [] then Inl NoServers else try_servers exchange host queryType None servers)"

fun lookup_types :: "Exchange \<Rightarrow> string list \<Rightarrow> string \<Rightarrow> LookupResult option \<Rightarrow> QueryType list \<Rightarrow> DnsError + LookupResult" where
  "lookup_types exchange servers host acc [] =
     Inr (case acc of None \<Rightarrow> \<lparr>lr_Addresses = [], lr_TTL = 0, lr_NameError = False\<rparr> | Some r \<Rightarrow> r)"
| "lookup_types exchange servers host acc (t # ts) =
     (case queryServers exchange servers host t of
        Inl e \<Rightarrow> Inl e
      | Inr answer \<Rightarrow>
          if lr_NameError answer then Inr answer
          else lookup_types exchange servers host
                 (Some (case acc of
                          None \<Rightarrow> \<lparr>lr_Addresses = lr_Addresses answer, lr_TTL = lr_TTL answer, lr_NameError = False\<rparr>
                        | Some r \<Rightarrow>
                            r\<lparr>lr_Addresses := lr_Addresses r @ lr_Addresses answer,
                              lr_TTL := (if lr_TTL answer < lr_TTL r then lr_TTL answer else lr_TTL r)\<rparr>)) ts)"

definition Transport_Lookup :: "Exchange \<Rightarrow> string list \<Rightarrow> Lookup" where
  "Transport_Lookup exchange servers host family =
     (if family = IPv4Only then lookup_types exchange servers host None [TypeA]
      else if family = IPv6Only then lookup_types exchange servers host None [TypeAAAA]
      else if family = DualStack then lookup_types exchange servers host None [TypeA, TypeAAAA]
      else Inl ErrInvalidFamily)"

subsection \<open>Selected addresses\<close>

lemma select_from_facts:
  "distinct (select_from family seen as) \<and> set (select_from family seen as) \<inter> set seen = {} \<and>
   set (select_from family seen as) = {ip \<in> Unmap ` set as. family_ok family ip} - set seen"
proof (induction as arbitrary: seen)
  case (Cons a as)
  from Cons [of seen] Cons [of "Unmap a # seen"] show ?case
    by (auto simp: Let_def)
qed simp

lemma selectAddresses_facts:
  "distinct (selectAddresses as family)"
  "set (selectAddresses as family) = {ip \<in> Unmap ` set as. family_ok family ip}"
  using select_from_facts [of family "[]" as] by (simp_all add: selectAddresses_def)

definition addresses_ok :: "Family \<Rightarrow> Addr list \<Rightarrow> bool" where
  "addresses_ok family as \<longleftrightarrow> distinct as \<and> (\<forall>ip\<in>set as. family_ok family ip \<and> Unmap ip = ip)"

lemma selectAddresses_ok: "addresses_ok family (selectAddresses as family)"
  using selectAddresses_facts [of as family] by (auto simp: addresses_ok_def)

subsection \<open>Canonical names\<close>

lemma ToLower_eq_Nil [simp]: "ToLower s = [] \<longleftrightarrow> s = []"
  by (simp add: ToLower_def)








subsection \<open>Interleavings\<close>

datatype CacheOp =
    OpGet int cacheKey
  | OpStore int cacheKey Result "64 word"
  | OpUpdate string "Addr list"

fun cache_step :: "'s answers_lru \<Rightarrow> CacheOp \<Rightarrow> 's resolutionCache \<Rightarrow> 's resolutionCache" where
  "cache_step L (OpGet now key) c = snd (snd (rc_get L now key c))"
| "cache_step L (OpStore now key result revision) c = snd (rc_store L now key result revision c)"
| "cache_step L (OpUpdate host addresses) c = rc_update L host addresses c"

definition cache_run :: "'s answers_lru \<Rightarrow> CacheOp list \<Rightarrow> 's resolutionCache \<Rightarrow> 's resolutionCache" where
  "cache_run L ops c = fold (cache_step L) ops c"

fun is_update :: "CacheOp \<Rightarrow> bool" where
  "is_update (OpUpdate host addresses) = True"
| "is_update _ = False"

lemma cache_step_revision:
  "rc_revision (cache_step L opn c) = rc_revision c + (if is_update opn then 1 else 0)"
  by (cases opn) (auto simp: rc_get_def rc_store_def rc_update_def split: option.splits prod.splits)

lemma cache_run_revision:
  "rc_revision (cache_run L ops c) = rc_revision c + of_nat (length [u \<leftarrow> ops. is_update u])"
  unfolding cache_run_def
  by (induction ops arbitrary: c) (auto simp: cache_step_revision)

lemma rc_get_revision: "fst (snd (rc_get L now key c)) = rc_revision c"
  "rc_revision (snd (snd (rc_get L now key c))) = rc_revision c"
  by (auto simp: rc_get_def split: option.splits prod.splits)

text \<open>
  C10: an answer to a query older than a record change is never cached.  A query reads the
  revision when it misses; if any record was set or deleted before its answer comes back,
  whatever else happened in between (hits, misses, other answers, further changes, up to the
  wrap-around of the 64-bit revision), storing the answer leaves the answer cache as it is.
\<close>

theorem stale_query_is_not_cached:
  assumes "0 < length [u \<leftarrow> ops. is_update u]" and "length [u \<leftarrow> ops. is_update u] < 2 ^ 64"
  shows "case rc_get L now key c of (r, revision, c1) \<Rightarrow>
     rc_dns (snd (rc_store L later key answer revision (cache_run L ops c1))) = rc_dns (cache_run L ops c1)"
proof -
  obtain r revision c1 where get: "rc_get L now key c = (r, revision, c1)"
    by (cases "rc_get L now key c")
  let ?n = "length [u \<leftarrow> ops. is_update u]"
  have "(of_nat ?n :: 64 word) \<noteq> 0"
    using assms by (simp add: word_of_nat_eq_0_iff nat_dvd_not_less)
  then have "rc_revision (cache_run L ops c1) \<noteq> revision"
    using rc_get_revision [of L now key c] get by (simp add: cache_run_revision)
  then show ?thesis
    by (auto simp: get rc_store_def split: option.splits)
qed

theorem stale_query_is_not_cached_witness:
  "let L = recency_lru; key = \<lparr>ck_host = ''a.b'', ck_family = IPv4Only\<rparr>; c = newResolutionCache L 8;
       answer = \<lparr>res_Addresses = [Addr4 1], res_ExpiresAt = Some 10, res_Source = SourceDNS\<rparr>
   in case rc_get L 0 key c of (r, revision, c1) \<Rightarrow>
        rc_dns (snd (rc_store L 1 key answer revision (cache_run L [OpUpdate ''a.b'' [Addr4 2], OpUpdate ''a.b'' []] c1))) =
        rc_dns (cache_run L [OpUpdate ''a.b'' [Addr4 2], OpUpdate ''a.b'' []] c1)"
  unfolding Let_def
  by (rule stale_query_is_not_cached) simp_all

subsection \<open>What the cache serves\<close>

locale dns_cache = lru_laws L for L :: "'s answers_lru"
begin

text \<open>Every retained answer keeps its own deadline and has the property \<open>P\<close>.\<close>

definition answers_inv :: "(cacheKey \<Rightarrow> Result \<Rightarrow> bool) \<Rightarrow> 's resolutionCache \<Rightarrow> bool" where
  "answers_inv P c \<longleftrightarrow>
     (\<forall>d k v t. rc_dns c = Some d \<longrightarrow> cache_holds L d k v t \<longrightarrow> t = res_ExpiresAt v \<and> P k v)"

definition op_ok :: "(cacheKey \<Rightarrow> Result \<Rightarrow> bool) \<Rightarrow> CacheOp \<Rightarrow> bool" where
  "op_ok P opn = (case opn of OpStore now key result revision \<Rightarrow> P key result | _ \<Rightarrow> True)"

lemma new_inv: "answers_inv P (newResolutionCache L capacity)"
  by (auto simp: answers_inv_def newResolutionCache_def cache_Build_def cache_holds_def cache_peek_def
      WithLRU_def NewBuilder_def peek_New)

lemma get_inv: "answers_inv P c \<Longrightarrow> answers_inv P (snd (snd (rc_get L now key c)))"
  by (auto simp: answers_inv_def rc_get_def dest: cached.get_holds split: option.splits prod.splits)

lemma store_inv:
  assumes "answers_inv P c" and "P key result"
  shows "answers_inv P (snd (rc_store L now key result revision c))"
proof -
  have "t = res_ExpiresAt v \<and> P k v"
    if "rc_dns c = Some d" "cache_holds L (snd (SetWithExpiration L now key result (res_ExpiresAt result) d)) k v t" for d k v t
  proof -
    obtain b d' where put: "SetWithExpiration L now key result (res_ExpiresAt result) d = (b, d')"
      by fastforce
    have "cache_holds L d' k v t"
      using that(2) by (simp only: put snd_conv)
    from cached.put_holds [OF put this] that(1) assms show ?thesis
      by (auto simp: answers_inv_def)
  qed
  with assms show ?thesis
    by (auto simp: answers_inv_def rc_store_def split: option.splits if_splits)
qed

lemma drop_all_holds: "cache_holds L (fold (\<lambda>f. cache_Remove L (key f)) fs d) k v t \<Longrightarrow> cache_holds L d k v t"
  by (induction fs arbitrary: d) (auto dest: cached.drop_holds)

lemma update_inv: "answers_inv P c \<Longrightarrow> answers_inv P (rc_update L host addresses c)"
  unfolding answers_inv_def rc_update_def
  by (auto simp del: fold.simps dest!: drop_all_holds)

lemma run_inv:
  assumes "list_all (op_ok P) ops" and "answers_inv P c"
  shows "answers_inv P (cache_run L ops c)"
proof -
  have "answers_inv P (cache_step L opn c)" if "op_ok P opn" "answers_inv P c" for opn c
    using that by (cases opn) (simp_all add: op_ok_def get_inv store_inv update_inv)
  then show ?thesis
    using assms unfolding cache_run_def by (induction ops arbitrary: c) simp_all
qed

lemma hit:
  assumes "answers_inv P c" and "rc_get L now key c = (Some r, revision, c')"
  shows "(\<exists>as. rc_records c (ck_host key) = Some as \<and> r = customResult as (ck_family key)) \<or>
     (rc_records c (ck_host key) = None \<and> (res_ExpiresAt r = None \<or> now < the (res_ExpiresAt r)) \<and> P key r)"
proof (cases "rc_records c (ck_host key)")
  case None
  with assms(2) obtain d d' where d: "rc_dns c = Some d" and get: "cache_Get L now key d = (Some r, d')"
    by (auto simp: rc_get_def split: option.splits prod.splits)
  from cached.get_live [OF get] assms(1) d None show ?thesis
    by (auto simp: answers_inv_def)
qed (use assms(2) in \<open>auto simp: rc_get_def\<close>)

definition usable :: "cacheKey \<Rightarrow> Result \<Rightarrow> bool" where
  "usable key result \<longleftrightarrow> addresses_ok (ck_family key) (res_Addresses result)"

lemma custom_usable: "usable key (customResult as (ck_family key))"
  by (simp add: usable_def customResult_def selectAddresses_ok)

lemma resolve_inv:
  assumes "answers_inv usable c"
  shows "answers_inv usable (snd (dns_Resolve L lookup t0 t1 t2 host family c))"
    and "fst (dns_Resolve L lookup t0 t1 t2 host family c) = Inr r \<Longrightarrow>
           res_Addresses r \<noteq> [] \<and> addresses_ok family (res_Addresses r)"
proof -
  have "answers_inv usable (snd (dns_Resolve L lookup t0 t1 t2 host family c)) \<and>
    (\<forall>r. fst (dns_Resolve L lookup t0 t1 t2 host family c) = Inr r \<longrightarrow>
       res_Addresses r \<noteq> [] \<and> addresses_ok family (res_Addresses r))"
  proof (cases "family > IPv6Only \<or> (\<exists>e. normalizeHost host = Inl e)")
    case True
    with assms show ?thesis by (auto simp: dns_Resolve_def)
  next
    case False
    then obtain h where h: "normalizeHost host = Inr h" and family: "\<not> family > IPv6Only"
      by (cases "normalizeHost host") auto
    let ?key = "\<lparr>ck_host = h, ck_family = family\<rparr>"
    obtain g revision c1 where get: "rc_get L t1 ?key c = (g, revision, c1)"
      by (cases "rc_get L t1 ?key c")
    have c1: "answers_inv usable c1"
      using get_inv [OF assms, of t1 ?key] by (simp add: get)
    show ?thesis
    proof (cases g)
      case (Some r)
      have "usable ?key r"
        using hit [OF assms get [unfolded Some]] custom_usable [of ?key] by auto
      with c1 show ?thesis
        by (auto simp: dns_Resolve_def h family get Some requireAddresses_def usable_def split: if_splits)
    next
      case None
      show ?thesis
      proof (cases "lookup h family")
        case (Inr answer)
        let ?r = "\<lparr>res_Addresses = selectAddresses (lr_Addresses answer) family,
            res_ExpiresAt = Some (t0 + max 0 (lr_TTL answer)), res_Source = SourceDNS\<rparr>"
        obtain r c2 where store: "rc_store L t2 ?key ?r revision c1 = (r, c2)"
          by fastforce
        have new: "usable ?key ?r"
          by (simp add: usable_def selectAddresses_ok)
        from store_inv [where P = usable, OF c1 this, of t2 revision] have "answers_inv usable c2"
          by (simp add: store)
        moreover have "usable ?key r"
          using store new custom_usable [of ?key] by (auto simp: rc_store_def split: option.splits)
        ultimately show ?thesis
          by (auto simp: dns_Resolve_def h family get None Inr store requireAddresses_def usable_def split: if_splits)
      qed (use c1 in \<open>simp add: dns_Resolve_def h family get None\<close>)
    qed
  qed
  then show "answers_inv usable (snd (dns_Resolve L lookup t0 t1 t2 host family c))"
    and "fst (dns_Resolve L lookup t0 t1 t2 host family c) = Inr r \<Longrightarrow>
           res_Addresses r \<noteq> [] \<and> addresses_ok family (res_Addresses r)"
    by blast+
qed

end

interpretation recency_dns: dns_cache recency_lru
  by (rule dns_cache.intro) (rule recency.lru_laws_axioms)

text \<open>
  C31: what the cache serves is a configured record or a live answer.  The bounded store is a
  parameter with the laws of \<open>lru_laws\<close>.  After any sequence of lookups, stored answers and
  record changes, a hit for a name with a record is exactly that record, restricted to the
  requested family, and any other hit is an answer whose deadline has not been reached: an
  expired answer is never served.
\<close>

theorem cached_answers_are_live:
  assumes "dns_cache L" and "rc_get L now key (cache_run L ops (newResolutionCache L capacity)) = (Some r, revision, c')"
  shows "case rc_records (cache_run L ops (newResolutionCache L capacity)) (ck_host key) of
           Some addresses \<Rightarrow> r = customResult addresses (ck_family key)
         | None \<Rightarrow> (case res_ExpiresAt r of None \<Rightarrow> True | Some t \<Rightarrow> now < t)"
proof -
  have "list_all (dns_cache.op_ok (\<lambda>k v. True)) ops"
    using dns_cache.op_ok_def [OF assms(1)] by (simp add: list_all_iff split: CacheOp.split)
  from dns_cache.hit [OF assms(1) dns_cache.run_inv [OF assms(1) this dns_cache.new_inv [OF assms(1)]] assms(2)]
  show ?thesis
    by (auto split: option.splits)
qed

theorem cached_answers_are_live_witness:
  "let L = recency_lru; key = \<lparr>ck_host = ''a.b'', ck_family = IPv4Only\<rparr>;
       answer = \<lparr>res_Addresses = [Addr4 1], res_ExpiresAt = Some 10, res_Source = SourceDNS\<rparr>;
       c = cache_run L [OpStore 1 key answer 0] (newResolutionCache L 8)
   in fst (rc_get L 5 key c) = Some answer \<and> fst (rc_get L 10 key c) = None \<and>
      (case rc_records c ''a.b'' of Some as \<Rightarrow> answer = customResult as IPv4Only | None \<Rightarrow> 5 < (10 :: int))"
proof -
  let ?key = "\<lparr>ck_host = ''a.b'', ck_family = IPv4Only\<rparr>"
  let ?answer = "\<lparr>res_Addresses = [Addr4 1], res_ExpiresAt = Some 10, res_Source = SourceDNS\<rparr>"
  let ?c = "cache_run recency_lru [OpStore 1 ?key ?answer 0] (newResolutionCache recency_lru 8)"
  let ?get = "rc_get recency_lru 5 ?key ?c"
  have hit: "fst ?get = Some ?answer" and miss: "fst (rc_get recency_lru 10 ?key ?c) = None"
    by code_simp+
  from hit have "?get = (Some ?answer, fst (snd ?get), snd (snd ?get))"
    by (simp add: prod_eq_iff)
  from cached_answers_are_live [OF recency_dns.dns_cache_axioms this] hit miss show ?thesis
    unfolding Let_def by (auto split: option.splits)
qed

datatype ClientOp =
    DoResolve Lookup int int int string Family
  | DoSet string "Addr list"
  | DoDelete string

fun client_step :: "'s answers_lru \<Rightarrow> ClientOp \<Rightarrow> 's resolutionCache \<Rightarrow> 's resolutionCache" where
  "client_step L (DoResolve lookup t0 t1 t2 host family) c = snd (dns_Resolve L lookup t0 t1 t2 host family c)"
| "client_step L (DoSet host addresses) c = snd (SetRecord L host addresses c)"
| "client_step L (DoDelete host) c = snd (DeleteRecord L host c)"

definition client_run :: "'s answers_lru \<Rightarrow> ClientOp list \<Rightarrow> 's resolutionCache \<Rightarrow> 's resolutionCache" where
  "client_run L ops c = fold (client_step L) ops c"

context dns_cache
begin

lemma client_inv: "answers_inv usable c \<Longrightarrow> answers_inv usable (client_run L ops c)"
proof -
  have "answers_inv usable (client_step L opn c)" if "answers_inv usable c" for opn c
    using that
    by (cases opn)
       (auto simp: resolve_inv SetRecord_def DeleteRecord_def update_inv split: sum.splits option.splits)
  then show "answers_inv usable c \<Longrightarrow> answers_inv usable (client_run L ops c)"
    unfolding client_run_def by (induction ops arbitrary: c) simp_all
qed

end

text \<open>
  C32: a resolved result is usable.  Starting from an empty client and after any sequence of
  record changes and other resolutions of any outcome, a successful \<open>Resolve\<close> returns at
  least one address, without duplicates, each valid, without zone, unmapped and of the
  requested family, whatever the lookup answered.
\<close>

theorem resolved_addresses_are_usable:
  assumes "dns_cache L" and "fst (dns_Resolve L lookup t0 t1 t2 host family (client_run L ops (newResolutionCache L capacity))) = Inr r"
  shows "res_Addresses r \<noteq> [] \<and> distinct (res_Addresses r) \<and>
     (\<forall>ip\<in>set (res_Addresses r). Addr_IsValid ip \<and> Addr_Zone ip = [] \<and> Unmap ip = ip \<and>
        (family = IPv4Only \<longrightarrow> Addr_Is4 ip) \<and> (family = IPv6Only \<longrightarrow> Addr_BitLen ip = 128))"
proof -
  from dns_cache.resolve_inv(2) [OF assms(1) dns_cache.client_inv [OF assms(1) dns_cache.new_inv [OF assms(1)]] assms(2)]
  show ?thesis
    by (auto simp: addresses_ok_def family_ok_def)
qed

theorem resolved_addresses_are_usable_witness:
  "let lookup = (\<lambda>host family. Inr \<lparr>lr_Addresses = [Addr4 7, Addr6 1 [], Addr4 7], lr_TTL = 60, lr_NameError = False\<rparr>);
       c = client_run recency_lru [DoSet ''x.y'' [Addr4 9], DoResolve lookup 0 0 1 ''a.b'' DualStack] (newResolutionCache recency_lru 8)
   in \<exists>r. fst (dns_Resolve recency_lru lookup 5 5 6 ''A.b.'' IPv4Only c) = Inr r \<and> distinct (res_Addresses r) \<and> res_Addresses r \<noteq> []"
proof -
  let ?lookup = "\<lambda>host family. Inr \<lparr>lr_Addresses = [Addr4 7, Addr6 1 [], Addr4 7], lr_TTL = 60, lr_NameError = False\<rparr>"
  let ?c = "client_run recency_lru [DoSet ''x.y'' [Addr4 9], DoResolve ?lookup 0 0 1 ''a.b'' DualStack] (newResolutionCache recency_lru 8)"
  have "\<exists>r. fst (dns_Resolve recency_lru ?lookup 5 5 6 ''A.b.'' IPv4Only ?c) = Inr r"
    by (rule exI [of _ "\<lparr>res_Addresses = [Addr4 7], res_ExpiresAt = Some 65, res_Source = SourceDNS\<rparr>"]) code_simp
  then obtain r where "fst (dns_Resolve recency_lru ?lookup 5 5 6 ''A.b.'' IPv4Only ?c) = Inr r"
    by blast
  with resolved_addresses_are_usable [OF recency_dns.dns_cache_axioms this] show ?thesis
    unfolding Let_def by blast
qed

end
