(* ===== verification/Egress_Authz.thy ===== *)
theory Egress_Authz
  imports Engine_Safety Dns_Client Netip_Parse "HOL-Library.FuncSet"
begin

section \<open>Authorizing the destination\<close>

text \<open>
  \<open>extensions/epe/pkg/filters/egressauthz\<close> and the policy authorizer of
  \<open>policy/trafficpolicy\<close>: the candidates a request may be sent to, the authorizers that filter
  them, and the selection of one.  \<open>filter.DestinationAuthorizer\<close> is an interface: an
  authorizer is a function on the stream and the candidates, and its contract is the locale
  \<open>destination_authorizer\<close>, interpreted for the two authorizers of the program.  The draws of
  \<open>rand.IntN\<close> are a parameter, as are the clock readings and the lookup of the DNS client.
\<close>

subsection \<open>Errors and authorizers\<close>

datatype AuthzError =
    DnsClientRequired
  | InvalidRequestPort int
  | ScopedUpstream
  | UpstreamInvalid RouteError
  | ResolutionFailed DnsError
  | SnapshotNotPrepared
  | AuthorizerFailed string

type_synonym 'c Authorizer = "'c Stream \<Rightarrow> AddrPort list \<Rightarrow> (AuthzError + AddrPort list) \<times> 'c Stream"

abbreviation AuthorizationReasonMissingIdentity :: string where
  "AuthorizationReasonMissingIdentity \<equiv> ''missing_source_identity''"
abbreviation AuthorizationReasonPolicyDenied :: string where
  "AuthorizationReasonPolicyDenied \<equiv> ''traffic_policy_denied''"
abbreviation AuthorizationReasonResolutionFailed :: string where
  "AuthorizationReasonResolutionFailed \<equiv> ''target_resolution_failed''"
abbreviation AuthorizationReasonPolicyLoadFailed :: string where
  "AuthorizationReasonPolicyLoadFailed \<equiv> ''policy_load_failed''"

definition on_info :: "(StreamInfo option \<Rightarrow> StreamInfo option) \<Rightarrow> 'c Stream \<Rightarrow> 'c Stream" where
  "on_info f st = st\<lparr>st_Info := f (st_Info st)\<rparr>"

definition decision :: "string \<Rightarrow> string \<Rightarrow> AuthorizationDecision" where
  "decision action reason = AuthorizationDecisionZero\<lparr>ad_Action := action, ad_Reason := reason\<rparr>"

definition DecisionZero :: Decision where
  "DecisionZero = \<lparr>dec_Action = [], dec_PolicyName = [], dec_RuleIndex = 0\<rparr>"

definition recordDenial :: "AddrPort \<Rightarrow> Decision \<Rightarrow> 'c Stream \<Rightarrow> 'c Stream" where
  "recordDenial address d st =
     (let record = (decision ''deny'' AuthorizationReasonPolicyDenied)\<lparr>ad_Destination := AddrPort_String address\<rparr>;
          record' = (if dec_PolicyName d \<noteq> []
                     then record\<lparr>ad_Policy := dec_PolicyName d, ad_RuleIndex := Some (dec_RuleIndex d)\<rparr> else record)
      in on_info (RecordAuthorization record') st)"

fun authorize_from ::
  "Config \<Rightarrow> AddrPort list \<Rightarrow> AddrPort list \<times> Decision \<times> 'c Stream \<Rightarrow> AddrPort list \<times> Decision \<times> 'c Stream" where
  "authorize_from c [] acc = acc"
| "authorize_from c (candidate # rest) (allowed, prev, st) =
     (let d = Evaluate c candidate in
      if dec_Action d \<noteq> Allow then authorize_from c rest (allowed, d, st)
      else authorize_from c rest
        (allowed @ [candidate], d,
         if dec_PolicyName d \<noteq> []
         then on_info (RecordAuthorizationMatch candidate (dec_PolicyName d) (dec_RuleIndex d)) st else st))"

definition Config_Authorize :: "Config \<Rightarrow> 'c Authorizer" where
  "Config_Authorize c st candidates =
     (case authorize_from c candidates ([], DecisionZero, st) of (allowed, final, st1) \<Rightarrow>
        (Inr allowed,
         if allowed = []
         then (if length candidates = 1 then recordDenial (hd candidates) final st1
               else on_info (RecordAuthorization (decision ''deny'' AuthorizationReasonPolicyDenied)) st1)
         else st1))"

text \<open>The configuration a static authorizer has published last.\<close>

record StaticAuthorizer =
  sa_current :: Config

definition NewStaticAuthorizer :: "Config \<Rightarrow> StaticAuthorizer" where
  "NewStaticAuthorizer cfg = \<lparr>sa_current = cfg\<rparr>"

definition StaticAuthorizer_Update :: "Config \<Rightarrow> StaticAuthorizer \<Rightarrow> StaticAuthorizer" where
  "StaticAuthorizer_Update cfg a = a\<lparr>sa_current := cfg\<rparr>"

definition StaticAuthorizer_Authorize :: "StaticAuthorizer \<Rightarrow> 'c Authorizer" where
  "StaticAuthorizer_Authorize a st candidates = Config_Authorize (sa_current a) st candidates"

definition policy_Authorize :: "'c Authorizer" where
  "policy_Authorize st candidates =
     (if \<not> Workload_HasIdentity (subj_Workload (cc_Subject (st_Caller st)))
      then (Inr [], on_info (RecordAuthorization (decision ''deny'' AuthorizationReasonMissingIdentity)) st)
      else
        (case ps_DestinationAuthorizer (st_Policies st) of
           None \<Rightarrow> (Inl SnapshotNotPrepared, st)
         | Some cfg \<Rightarrow> Config_Authorize cfg st candidates))"

subsection \<open>Candidates\<close>

record 's dns_env =
  de_lru :: "'s answers_lru"
  de_lookup :: Lookup
  de_started :: int
  de_looked :: int
  de_finished :: int

text \<open>A nil DNS client is \<open>None\<close>.\<close>

definition resolveDNS ::
  "'s dns_env \<Rightarrow> 'c Stream \<Rightarrow> 's resolutionCache option \<Rightarrow>
   (AuthzError + Addr list) \<times> 's resolutionCache option" where
  "resolveDNS env st client =
     (case client of
        None \<Rightarrow> (Inl DnsClientRequired, client)
      | Some c \<Rightarrow>
          let request = st_Request st in
          if sint (req_Port request) \<le> 0 \<or> sint (req_Port request) > 65535
          then (Inl (InvalidRequestPort (sint (req_Port request))), client)
          else
            (case ParseAddr (req_Host request) of
               Some ip \<Rightarrow>
                 if Addr_Zone (Unmap ip) \<noteq> [] then (Inl ScopedUpstream, client) else (Inr [Unmap ip], client)
             | None \<Rightarrow>
                 (case dns_Resolve (de_lru env) (de_lookup env) (de_started env) (de_looked env) (de_finished env)
                         (req_Host request) IPv4Only c of
                    (Inl e, c') \<Rightarrow> (Inl (ResolutionFailed e), Some c')
                  | (Inr result, c') \<Rightarrow> (Inr (res_Addresses result), Some c'))))"

definition request_port16 :: "'c Stream \<Rightarrow> 16 word" where
  "request_port16 st = ucast (req_Port (st_Request st))"

definition resolveCandidates ::
  "'s dns_env \<Rightarrow> 'c Stream \<Rightarrow> 's resolutionCache option \<Rightarrow>
   (AuthzError + AddrPort list) \<times> 'c Stream \<times> 's resolutionCache option" where
  "resolveCandidates env st client =
     (case st_Upstream st of
        Some u \<Rightarrow>
          (case Route_Validate (Some \<lparr>rt_Upstream = Some u, rt_ClearCache = False\<rparr>) of
             Some e \<Rightarrow> (Inl (UpstreamInvalid e), st, client)
           | None \<Rightarrow> (Inr [the (up_Address u)], st, client))
      | None \<Rightarrow>
          (case resolveDNS env st client of
             (Inl e, client') \<Rightarrow>
               (Inl e, on_info (RecordAuthorization (decision ''error'' AuthorizationReasonResolutionFailed)) st, client')
           | (Inr addresses, client') \<Rightarrow>
               let original = req_OriginalDestination (st_Request st) in
               if AddrPort_IsValid original \<and> Unmap (ap_Addr original) \<in> set addresses
               then (Inr [AddrPort (Unmap (ap_Addr original)) (request_port16 st)], st, client')
               else (Inr (map (\<lambda>ip. AddrPort ip (request_port16 st)) addresses), st, client')))"

subsection \<open>Selection and the aggregate\<close>

fun select_loop :: "(nat \<Rightarrow> nat) \<Rightarrow> nat \<Rightarrow> AddrPort \<Rightarrow> AddrPort list \<Rightarrow> AddrPort" where
  "select_loop draw count selected [] = selected"
| "select_loop draw count selected (candidate # rest) =
     (if Addr_Is4 (ap_Addr candidate) \<noteq> Addr_Is4 (ap_Addr selected) then select_loop draw count selected rest
      else select_loop draw (Suc count) (if draw (Suc count) = 0 then candidate else selected) rest)"

definition selectRandomCandidate :: "(nat \<Rightarrow> nat) \<Rightarrow> AddrPort list \<Rightarrow> AddrPort" where
  "selectRandomCandidate draw candidates = select_loop draw 1 (hd candidates) (tl candidates)"

definition egressDeniedReply :: Reply where
  "egressDeniedReply = ReplyZero\<lparr>reply_Status := 403, reply_Details := ''epe_egress_denied''\<rparr>"

text \<open>
  The loop over the authorizers: an error, no candidate left, or the surviving candidates.
  The candidates it starts with are never empty (\<open>resolveCandidates_nonempty\<close>).
\<close>

fun authorize_chain :: "'c Authorizer list \<Rightarrow> 'c Stream \<Rightarrow> AddrPort list \<Rightarrow> (AuthzError + AddrPort list) \<times> 'c Stream" where
  "authorize_chain [] st candidates = (Inr candidates, st)"
| "authorize_chain (a # as) st candidates =
     (case a st candidates of
        (Inl e, st') \<Rightarrow>
          (Inl e, on_info (RecordAuthorization (decision ''error'' AuthorizationReasonPolicyLoadFailed)) st')
      | (Inr candidates', st') \<Rightarrow>
          if candidates' = [] then (Inr [], st') else authorize_chain as st' candidates')"

type_synonym 'c authorization = "(UpstreamTarget option \<times> Reply option \<times> AuthzError option) \<times> 'c Stream"

definition finish_authorization :: "(nat \<Rightarrow> nat) \<Rightarrow> 'c Stream \<Rightarrow> AddrPort list \<Rightarrow> 'c authorization" where
  "finish_authorization draw st candidates =
     (let selected = selectRandomCandidate draw candidates;
          st' = on_info (RecordAuthorizedDestination selected) st
      in ((Some (case st_Upstream st' of Some u \<Rightarrow> u | None \<Rightarrow> \<lparr>up_Address = Some selected\<rparr>), None, None), st'))"

definition Aggregate_Authorize ::
  "'s dns_env \<Rightarrow> (nat \<Rightarrow> nat) \<Rightarrow> 'c Authorizer list \<Rightarrow> 's resolutionCache option \<Rightarrow> 'c Stream \<Rightarrow>
   'c authorization \<times> 's resolutionCache option" where
  "Aggregate_Authorize env draw authorizers client st =
     (case resolveCandidates env st client of
        (Inl e, st1, client1) \<Rightarrow> (((None, None, Some e), st1), client1)
      | (Inr candidates, st1, client1) \<Rightarrow>
          ((case authorize_chain authorizers st1 candidates of
              (Inl e, st2) \<Rightarrow> ((None, None, Some e), st2)
            | (Inr [], st2) \<Rightarrow> ((None, Some egressDeniedReply, None), st2)
            | (Inr cs, st2) \<Rightarrow> finish_authorization draw st2 cs), client1))"

subsection \<open>The contract of an authorizer\<close>

lemma on_info_same [simp]: "same_but_info st (on_info f st)" "same_but_info a (on_info f b) = same_but_info a b"
  by (simp_all add: on_info_def)

lemma same_but_info_fields:
  assumes "same_but_info st st'"
  shows "st_Caller st' = st_Caller st" and "st_Policies st' = st_Policies st" and "st_Upstream st' = st_Upstream st"
    and "st_Request st' = st_Request st"
  using assms by (cases st; cases st'; simp add: same_but_info_def)+

text \<open>
  An authorizer keeps exactly the candidates it allows, in their order, changes nothing of
  the stream but its audit record, and does not consult that record.
\<close>

locale destination_authorizer =
  fixes authorize :: "'c Authorizer" and allows :: "'c Stream \<Rightarrow> AddrPort \<Rightarrow> bool"
  assumes filters: "authorize st cs = (Inr as, st') \<Longrightarrow> as = [c \<leftarrow> cs. allows st c]"
    and record_only: "authorize st cs = (r, st') \<Longrightarrow> same_but_info st st'"
    and ignores_record: "same_but_info st st' \<Longrightarrow> allows st' = allows st"

definition config_allows :: "Config \<Rightarrow> AddrPort \<Rightarrow> bool" where
  "config_allows cfg a \<longleftrightarrow> dec_Action (Evaluate cfg a) = Allow"

lemma authorize_from_facts:
  "authorize_from c cs (allowed, prev, st) = (allowed', final, st') \<Longrightarrow>
     allowed' = allowed @ [a \<leftarrow> cs. config_allows c a] \<and> same_but_info st st'"
proof (induction cs arbitrary: allowed prev st)
  case (Cons a cs)
  show ?case
  proof (cases "config_allows c a")
    case True
    let ?st = "if dec_PolicyName (Evaluate c a) \<noteq> []
        then on_info (RecordAuthorizationMatch a (dec_PolicyName (Evaluate c a)) (dec_RuleIndex (Evaluate c a))) st else st"
    have "authorize_from c cs (allowed @ [a], Evaluate c a, ?st) = (allowed', final, st')"
      using Cons.prems True by (simp add: config_allows_def Let_def)
    from Cons.IH [OF this] True show ?thesis
      by (cases "dec_PolicyName (Evaluate c a) \<noteq> []") (auto simp: on_info_def)
  next
    case False
    with Cons.prems have "authorize_from c cs (allowed, Evaluate c a, st) = (allowed', final, st')"
      by (simp add: config_allows_def Let_def)
    from Cons.IH [OF this] False show ?thesis by simp
  qed
qed simp

lemma Config_Authorize_facts:
  "Config_Authorize c st cs = (r, st') \<Longrightarrow> r = Inr [a \<leftarrow> cs. config_allows c a] \<and> same_but_info st st'"
  by (auto simp: Config_Authorize_def recordDenial_def Let_def dest!: authorize_from_facts split: prod.splits if_splits)

interpretation static_authorizer: destination_authorizer "StaticAuthorizer_Authorize a" "\<lambda>st. config_allows (sa_current a)"
  for a
  by unfold_locales (auto simp: StaticAuthorizer_Authorize_def dest!: Config_Authorize_facts)

definition policy_allows :: "'c Stream \<Rightarrow> AddrPort \<Rightarrow> bool" where
  "policy_allows st a \<longleftrightarrow>
     Workload_HasIdentity (subj_Workload (cc_Subject (st_Caller st))) \<and>
     (\<exists>cfg. ps_DestinationAuthorizer (st_Policies st) = Some cfg \<and> config_allows cfg a)"

interpretation policy_authorizer: destination_authorizer policy_Authorize policy_allows
proof unfold_locales
  show "policy_Authorize st cs = (Inr as, st') \<Longrightarrow> as = [c \<leftarrow> cs. policy_allows st c]" for st cs as st'
    by (auto simp: policy_Authorize_def policy_allows_def dest!: Config_Authorize_facts split: if_splits option.splits)
  show "policy_Authorize st cs = (r, st') \<Longrightarrow> same_but_info st st'" for st cs r st'
    by (auto simp: policy_Authorize_def dest!: Config_Authorize_facts split: if_splits option.splits)
  show "same_but_info st st' \<Longrightarrow> policy_allows st' = policy_allows st" for st st'
    by (simp add: policy_allows_def fun_eq_iff same_but_info_fields)
qed

text \<open>A chain of authorizers, each with its own predicate, keeps what all of them allow.\<close>

lemma authorize_chain_facts:
  assumes "list_all2 destination_authorizer auths preds" and "authorize_chain auths st cs = (r, st')"
  shows "same_but_info st st'" and "r = Inr as \<Longrightarrow> as = [c \<leftarrow> cs. \<forall>p\<in>set preds. p st c]"
proof -
  have "same_but_info st st' \<and> (\<forall>as. r = Inr as \<longrightarrow> as = [c \<leftarrow> cs. \<forall>p\<in>set preds. p st c])"
    using assms
  proof (induction auths preds arbitrary: st cs rule: list_all2_induct)
    case (Cons a auths p preds)
    obtain ra st1 where a: "a st cs = (ra, st1)" by fastforce
    note same = destination_authorizer.record_only [OF Cons.hyps(1) a]
    show ?case
    proof (cases ra)
      case (Inl e)
      with Cons.prems a same show ?thesis by auto
    next
      case (Inr cs1)
      have cs1: "cs1 = [c \<leftarrow> cs. p st c]"
        using destination_authorizer.filters [OF Cons.hyps(1) a [unfolded Inr]] .
      have preds: "\<forall>q\<in>set preds. q st1 = q st"
        using Cons.hyps(2) same destination_authorizer.ignores_record
        by (fastforce simp: list_all2_conv_all_nth in_set_conv_nth)
      show ?thesis
      proof (cases "cs1 = []")
        case True
        then have "r = Inr []" "st' = st1"
          using Cons.prems a Inr by simp_all
        moreover have "\<forall>c\<in>set cs. \<not> p st c"
          using cs1 True by (metis filter_empty_conv)
        ultimately show ?thesis
          using same by (simp add: filter_empty_conv)
      next
        case False
        with Cons.prems a Inr have "authorize_chain auths st1 cs1 = (r, st')" by simp
        from Cons.IH [OF this] same preds cs1 show ?thesis
          by (auto intro: same_but_info_trans intro!: filter_cong)
      qed
    qed
  qed auto
  then show "same_but_info st st'" and "r = Inr as \<Longrightarrow> as = [c \<leftarrow> cs. \<forall>p\<in>set preds. p st c]"
    by blast+
qed

subsection \<open>Selection\<close>

lemma select_loop_mem: "select_loop draw n x cs \<in> set (x # cs)"
  by (induction cs arbitrary: n x) (auto simp: Let_def)

lemma select_loop_family: "Addr_Is4 (ap_Addr (select_loop draw n x cs)) = Addr_Is4 (ap_Addr x)"
  by (induction cs arbitrary: n x) auto

lemma selectRandomCandidate_mem: "cs \<noteq> [] \<Longrightarrow> selectRandomCandidate draw cs \<in> set cs"
  using select_loop_mem [of draw 1 "hd cs" "tl cs"] by (cases cs) (simp_all add: selectRandomCandidate_def)

lemma resolveCandidates_facts:
  assumes "resolveCandidates env st client = (r, st', client')"
  shows "same_but_info st st'" and "r = Inr cs \<Longrightarrow> cs \<noteq> []"
    and "r = Inr cs \<Longrightarrow> st_Upstream st = Some u \<Longrightarrow> \<exists>a. up_Address u = Some a \<and> cs = [a]"
proof -
  show "same_but_info st st'"
    using assms by (auto simp: resolveCandidates_def Let_def split: option.splits prod.splits sum.splits if_splits)
  have dns: "fst (resolveDNS env st client) = Inr as \<Longrightarrow> as \<noteq> []" for as
    by (auto simp: resolveDNS_def dns_Resolve_def requireAddresses_def Let_def
        split: option.splits sum.splits prod.splits if_splits)
  show "r = Inr cs \<Longrightarrow> cs \<noteq> []"
    using assms dns
    by (auto simp: resolveCandidates_def Let_def split: option.splits prod.splits sum.splits if_splits)
  show "r = Inr cs \<Longrightarrow> st_Upstream st = Some u \<Longrightarrow> \<exists>a. up_Address u = Some a \<and> cs = [a]"
    using assms by (auto simp: resolveCandidates_def Route_Validate_def split: option.splits if_splits)
qed

lemmas resolveCandidates_nonempty = resolveCandidates_facts(2)

subsection \<open>What an authorization means\<close>

lemma Aggregate_Authorize_target:
  assumes auths: "list_all2 destination_authorizer auths preds"
    and run: "Aggregate_Authorize env draw auths client st = (((Some t, reply, err), st'), client')"
  obtains cs st1 a where "resolveCandidates env st client = (Inr cs, st1, client')" and "reply = None" and "err = None"
    and "up_Address t = Some a" and "a \<in> set cs" and "\<forall>p\<in>set preds. p st a"
    and "\<forall>u. st_Upstream st = Some u \<longrightarrow> t = u" and "same_but_info st st'"
    and "st_Info st' = RecordAuthorizedDestination a (st_Info (snd (authorize_chain auths st1 cs)))"
proof -
  obtain cs st1 where cand: "resolveCandidates env st client = (Inr cs, st1, client')"
    using run by (auto simp: Aggregate_Authorize_def split: sum.splits prod.splits)
  obtain r st2 where chain: "authorize_chain auths st1 cs = (r, st2)" by fastforce
  note st1 = resolveCandidates_facts(1) [OF cand]
  obtain x xs where r: "r = Inr (x # xs)" and fin: "finish_authorization draw st2 (x # xs) = ((Some t, reply, err), st')"
    using run by (auto simp: Aggregate_Authorize_def cand chain split: sum.splits list.splits)
  let ?a = "selectRandomCandidate draw (x # xs)"
  have kept: "x # xs = [c \<leftarrow> cs. \<forall>p\<in>set preds. p st1 c]"
    using authorize_chain_facts(2) [OF auths chain r] .
  have "?a \<in> set (x # xs)"
    by (rule selectRandomCandidate_mem) simp
  then have a: "?a \<in> set cs" "\<forall>p\<in>set preds. p st1 ?a"
    unfolding kept by auto
  have preds: "\<forall>p\<in>set preds. p st1 = p st"
    using auths destination_authorizer.ignores_record [OF _ st1]
    by (fastforce simp: list_all2_conv_all_nth in_set_conv_nth)
  have st2: "same_but_info st st2"
    using st1 authorize_chain_facts(1) [OF auths chain] by (rule same_but_info_trans)
  have up: "st_Upstream st2 = st_Upstream st"
    using same_but_info_fields(3) [OF st2] .
  have t: "t = (case st_Upstream st of Some u \<Rightarrow> u | None \<Rightarrow> \<lparr>up_Address = Some ?a\<rparr>)" "reply = None" "err = None"
    "st' = on_info (RecordAuthorizedDestination ?a) st2"
    using fin up by (auto simp: finish_authorization_def Let_def on_info_def)
  have addr: "up_Address t = Some ?a"
  proof (cases "st_Upstream st")
    case (Some v)
    then obtain b where "up_Address v = Some b" "cs = [b]"
      using resolveCandidates_facts(3) [OF cand refl] by blast
    with a(1) t(1) Some show ?thesis by simp
  qed (use t in simp)
  show ?thesis
  proof (rule that [OF cand t(2,3) addr a(1)])
    show "\<forall>p\<in>set preds. p st ?a" using a(2) preds by simp
    show "\<forall>u. st_Upstream st = Some u \<longrightarrow> t = u" using t(1) by simp
    show "same_but_info st st'" using st2 by (simp add: t(4))
    show "st_Info st' = RecordAuthorizedDestination ?a (st_Info (snd (authorize_chain auths st1 cs)))"
      by (simp add: t(4) chain on_info_def)
  qed
qed

definition program_authorizers :: "StaticAuthorizer \<Rightarrow> bool \<Rightarrow> 'c Authorizer list" where
  "program_authorizers global resources =
     StaticAuthorizer_Authorize global # (if resources then [policy_Authorize] else [])"

lemma program_authorizers_ok:
  "list_all2 destination_authorizer (program_authorizers global True)
     [\<lambda>st. config_allows (sa_current global), policy_allows]"
  by (simp add: program_authorizers_def static_authorizer.destination_authorizer_axioms
      policy_authorizer.destination_authorizer_axioms)


definition example_global :: StaticAuthorizer where
  "example_global = NewStaticAuthorizer \<lparr>cfg_DeniedCIDRs = [Prefix (Addr4 0xA9FE0000) (Some 16)], cfg_Policies = []\<rparr>"

definition example_env :: "(nat \<times> (cacheKey \<times> Result entry) list) dns_env" where
  "example_env =
     \<lparr>de_lru = recency_lru,
      de_lookup = (\<lambda>host family. Inr \<lparr>lr_Addresses = [Addr4 0xA9FEA9FE, Addr4 0x0A000001], lr_TTL = 60, lr_NameError = False\<rparr>),
      de_started = 0, de_looked = 0, de_finished = 1\<rparr>"

definition example_stream :: "unit Stream" where
  "example_stream =
     StreamZero\<lparr>st_Info := Some NewStreamInfo,
       st_Request := HTTPRequestZero\<lparr>req_Host := ''a.example'', req_Port := 443\<rparr>,
       st_Caller := CallerContextZero\<lparr>cc_Subject := SubjectZero\<lparr>subj_Workload := WorkloadZero\<lparr>wl_UID := ''u''\<rparr>\<rparr>\<rparr>,
       st_Policies := PolicySnapshotZero\<lparr>ps_DestinationAuthorizer := Some \<lparr>cfg_DeniedCIDRs = [], cfg_Policies = []\<rparr>\<rparr>\<rparr>"


subsection \<open>Fixed targets\<close>

lemma resolveCandidates_fixed:
  assumes "resolveCandidates env st client = (Inr cs, st1, client')" and "st_Upstream st = None"
    and "fst (resolveDNS env st client) = Inr addresses" and "AddrPort_IsValid (req_OriginalDestination (st_Request st))"
    and "Unmap (ap_Addr (req_OriginalDestination (st_Request st))) \<in> set addresses"
  shows "cs = [AddrPort (Unmap (ap_Addr (req_OriginalDestination (st_Request st)))) (request_port16 st)]"
  using assms by (auto simp: resolveCandidates_def Let_def split: prod.splits sum.splits)

text \<open>
  C27: denying a fixed target never falls back to another address.  A target is fixed when a
  rule selected it, or when the original destination of the connection is one of the addresses
  its host resolves to.  If the global restrictions or the caller's policies do not allow
  that address, the aggregate returns no target at all, whatever else the host resolves to.
\<close>

theorem denied_fixed_target_has_no_fallback:
  assumes "(\<exists>u. st_Upstream st = Some u \<and> up_Address u = Some a) \<or>
      (\<exists>addresses. st_Upstream st = None \<and> fst (resolveDNS env st client) = Inr addresses \<and>
         AddrPort_IsValid (req_OriginalDestination (st_Request st)) \<and>
         Unmap (ap_Addr (req_OriginalDestination (st_Request st))) \<in> set addresses \<and>
         a = AddrPort (Unmap (ap_Addr (req_OriginalDestination (st_Request st)))) (request_port16 st))"
    and "\<not> (config_allows (sa_current global) a \<and> policy_allows st a)"
  shows "fst (fst (fst (Aggregate_Authorize env draw (program_authorizers global True) client st))) = None"
proof (rule ccontr)
  assume "\<not> ?thesis"
  then obtain t reply err st' client' where
    "Aggregate_Authorize env draw (program_authorizers global True) client st = (((Some t, reply, err), st'), client')"
    by (metis not_None_eq prod.collapse)
  with program_authorizers_ok obtain cs st1 b where
    cand: "resolveCandidates env st client = (Inr cs, st1, client')" "b \<in> set cs" and
    allowed: "\<forall>p\<in>set [\<lambda>st. config_allows (sa_current global), policy_allows]. p st b"
    by (rule Aggregate_Authorize_target)
  have "cs = [a]"
    using assms(1) resolveCandidates_facts(3) [OF cand(1) refl] resolveCandidates_fixed [OF cand(1)] by fastforce
  with cand(2) allowed assms(2) show False by simp
qed

subsection \<open>Completeness\<close>

lemma program_chain:
  assumes "Workload_HasIdentity (subj_Workload (cc_Subject (st_Caller st)))"
    and "ps_DestinationAuthorizer (st_Policies st) = Some cfg"
  obtains st' where "authorize_chain (program_authorizers global True) st cs =
     (Inr [c \<leftarrow> cs. config_allows (sa_current global) c \<and> config_allows cfg c], st')"
proof -
  obtain r1 st1 where c1: "Config_Authorize (sa_current global) st cs = (r1, st1)" by fastforce
  note f1 = Config_Authorize_facts [OF c1]
  obtain r2 st2 where c2: "Config_Authorize cfg st1 [c \<leftarrow> cs. config_allows (sa_current global) c] = (r2, st2)" by fastforce
  note f2 = Config_Authorize_facts [OF c2]
  have pol: "policy_Authorize st1 [c \<leftarrow> cs. config_allows (sa_current global) c] = (r2, st2)"
    using c2 assms by (simp add: policy_Authorize_def same_but_info_fields [OF conjunct2 [OF f1]])
  have both: "[c \<leftarrow> cs. config_allows cfg c \<and> config_allows (sa_current global) c] =
      [c \<leftarrow> cs. config_allows (sa_current global) c \<and> config_allows cfg c]"
    by (rule filter_cong) auto
  show ?thesis
  proof (cases "[c \<leftarrow> cs. config_allows (sa_current global) c] = []")
    case True
    then have "[c \<leftarrow> cs. config_allows (sa_current global) c \<and> config_allows cfg c] = []"
      by (simp add: filter_empty_conv)
    then show ?thesis
      using that [of st1] c1 f1 True by (simp add: program_authorizers_def StaticAuthorizer_Authorize_def)
  next
    case False
    then show ?thesis
      using that [of st2] c1 f1 pol f2 both by (simp add: program_authorizers_def StaticAuthorizer_Authorize_def)
  qed
qed


definition example_fixed :: "unit Stream" where
  "example_fixed = example_stream\<lparr>st_Upstream := Some \<lparr>up_Address = Some (AddrPort (Addr4 0xA9FEA9FE) 80)\<rparr>\<rparr>"

theorem denied_fixed_target_has_no_fallback_witness:
  "fst (fst (fst (Aggregate_Authorize example_env (\<lambda>n. 0) (program_authorizers example_global True)
      (Some (newResolutionCache recency_lru 8)) example_fixed))) = None"
proof (rule denied_fixed_target_has_no_fallback [where a = "AddrPort (Addr4 0xA9FEA9FE) 80"], goal_cases)
  case 1
  show ?case by (simp add: example_fixed_def)
next
  case 2
  have "dec_Action (Evaluate (sa_current example_global) (AddrPort (Addr4 0xA9FEA9FE) 80)) \<noteq> Allow" by code_simp
  then show ?case by (simp add: config_allows_def)
qed


subsection \<open>The selection is uniform\<close>

text \<open>
  The draws of a selection among \<open>n\<close> candidates: \<open>rand.IntN(k)\<close> is below \<open>k\<close>, for every count
  \<open>k\<close> from two to \<open>n\<close>.
\<close>

definition draws :: "nat \<Rightarrow> (nat \<Rightarrow> nat) set" where
  "draws n = PiE {2..n} (\<lambda>k. {..<k})"

lemma finite_draws [simp]: "finite (draws n)"
  by (simp add: draws_def finite_PiE)

lemma draws_Suc:
  assumes "1 \<le> n"
  shows "bij_betw (\<lambda>(v, d). d(Suc n := v)) ({..<Suc n} \<times> draws n) (draws (Suc n))"
proof -
  have ins: "{2..Suc n} = insert (Suc n) {2..n}" using assms by auto
  show ?thesis
    unfolding bij_betw_def draws_def ins
  proof
    show "inj_on (\<lambda>(v, d). d(Suc n := v)) ({..<Suc n} \<times> PiE {2..n} (\<lambda>k. {..<k}))"
      by (rule inj_combinator) simp
    show "(\<lambda>(v, d). d(Suc n := v)) ` ({..<Suc n} \<times> PiE {2..n} (\<lambda>k. {..<k})) = PiE (insert (Suc n) {2..n}) (\<lambda>k. {..<k})"
      by (simp add: PiE_insert_eq)
  qed
qed

lemma card_draws: "1 \<le> n \<Longrightarrow> card (draws n) = fact n"
proof (induction n rule: nat_induct_at_least)
  case base
  show ?case by (simp add: draws_def)
next
  case (Suc n)
  have "card (draws (Suc n)) = card ({..<Suc n} \<times> draws n)"
    using bij_betw_same_card [OF draws_Suc [OF Suc.hyps]] by simp
  with Suc.IH show ?case by (simp add: card_cartesian_product)
qed

lemma card_bij_filter:
  assumes "bij_betw f A B"
  shows "card {b \<in> B. P b} = card {a \<in> A. P (f a)}"
proof -
  have "bij_betw f {a \<in> A. P (f a)} {b \<in> B. P b}"
    using assms by (auto simp: bij_betw_def inj_on_def)
  then show ?thesis by (simp add: bij_betw_same_card)
qed

text \<open>The loop looks only at the candidates of the first one's family, and a draw at each.\<close>

lemma select_loop_snoc:
  "\<forall>c\<in>set cs. Addr_Is4 (ap_Addr c) = Addr_Is4 (ap_Addr x) \<Longrightarrow> Addr_Is4 (ap_Addr y) = Addr_Is4 (ap_Addr x) \<Longrightarrow>
   select_loop draw n x (cs @ [y]) =
     (if draw (Suc (n + length cs)) = 0 then y else select_loop draw n x cs)"
  by (induction cs arbitrary: n x) (simp_all add: select_loop_family)

lemma select_loop_cong:
  "\<forall>k. n < k \<and> k \<le> n + length cs \<longrightarrow> draw k = draw' k \<Longrightarrow> select_loop draw n x cs = select_loop draw' n x cs"
proof (induction cs arbitrary: n x)
  case (Cons c cs)
  have keep: "select_loop draw n x cs = select_loop draw' n x cs" using Cons by simp
  have rest: "select_loop draw (Suc n) z cs = select_loop draw' (Suc n) z cs" for z
    using Cons by simp
  have first: "draw (Suc n) = draw' (Suc n)" using Cons.prems by simp
  show ?case by (simp add: keep rest first)
qed simp

lemma select_loop_family_filter:
  "select_loop draw n x cs = select_loop draw n x [c \<leftarrow> cs. Addr_Is4 (ap_Addr c) = Addr_Is4 (ap_Addr x)]"
  by (induction cs arbitrary: n x) auto

lemma select_loop_uniform:
  assumes "distinct (x # cs)" and "\<forall>c\<in>set cs. Addr_Is4 (ap_Addr c) = Addr_Is4 (ap_Addr x)" and "a \<in> set (x # cs)"
  shows "card {d \<in> draws (Suc (length cs)). select_loop d 1 x cs = a} = fact (length cs)"
  using assms
proof (induction cs arbitrary: a rule: rev_induct)
  case Nil
  then show ?case using card_draws [of 1] by simp
next
  case (snoc y cs)
  let ?n = "Suc (length cs)"
  let ?put = "\<lambda>(v, d). d(Suc ?n := v)"
  have same: "select_loop (d(Suc ?n := v)) 1 x cs = select_loop d 1 x cs" for d v
    by (rule select_loop_cong) simp
  have family: "\<forall>c\<in>set cs. Addr_Is4 (ap_Addr c) = Addr_Is4 (ap_Addr x)" "Addr_Is4 (ap_Addr y) = Addr_Is4 (ap_Addr x)"
    using snoc.prems(2) by simp_all
  have step: "select_loop (d(Suc ?n := v)) 1 x (cs @ [y]) = (if v = 0 then y else select_loop d 1 x cs)" for d v
    unfolding select_loop_snoc [OF family] same by simp
  have bij: "bij_betw ?put ({..<Suc ?n} \<times> draws ?n) (draws (Suc ?n))"
    by (rule draws_Suc) simp
  let ?A = "{p \<in> {..<Suc ?n} \<times> draws ?n. (if fst p = 0 then y else select_loop (snd p) 1 x cs) = a}"
  have "card {d \<in> draws (Suc ?n). select_loop d 1 x (cs @ [y]) = a} = card ?A"
    unfolding card_bij_filter [OF bij] by (simp only: case_prod_beta step)
  also have "card ?A = fact ?n"
  proof (cases "a = y")
    case True
    have other: "select_loop d 1 x cs \<noteq> y" for d
      using select_loop_mem [of d 1 x cs] snoc.prems(1) by auto
    have "?A = {0} \<times> draws ?n"
      unfolding True using other by (auto split: if_splits)
    then show ?thesis using card_draws [of ?n] by (simp only: card_cartesian_product) simp
  next
    case False
    then have A: "?A = {1..<Suc ?n} \<times> {d \<in> draws ?n. select_loop d 1 x cs = a}"
      by (auto split: if_splits)
    have "card {d \<in> draws ?n. select_loop d 1 x cs = a} = fact (length cs)"
      using snoc.prems False by (intro snoc.IH) auto
    then show ?thesis unfolding A card_cartesian_product by simp
  qed
  finally show ?case by (simp only: length_append_singleton)
qed

text \<open>
  C30: the random selection is uniform within the first candidate's address family.  Of all
  the values the random draws can take, the same number selects each candidate of that
  family, and none selects a candidate of the other one.
\<close>

theorem selection_is_uniform:
  assumes "distinct cs" and "cs \<noteq> []"
  shows "card {d \<in> draws (length [c \<leftarrow> cs. Addr_Is4 (ap_Addr c) = Addr_Is4 (ap_Addr (hd cs))]). selectRandomCandidate d cs = a} =
     (if a \<in> set cs \<and> Addr_Is4 (ap_Addr a) = Addr_Is4 (ap_Addr (hd cs))
      then fact (length [c \<leftarrow> cs. Addr_Is4 (ap_Addr c) = Addr_Is4 (ap_Addr (hd cs))] - 1) else 0)"
proof -
  obtain x rest where cs: "cs = x # rest" using assms(2) by (cases cs) auto
  let ?f = "[c \<leftarrow> rest. Addr_Is4 (ap_Addr c) = Addr_Is4 (ap_Addr x)]"
  have sel: "selectRandomCandidate d cs = select_loop d 1 x ?f" for d
    using select_loop_family_filter [of d 1 x rest] by (simp add: cs selectRandomCandidate_def)
  have fam: "[c \<leftarrow> cs. Addr_Is4 (ap_Addr c) = Addr_Is4 (ap_Addr (hd cs))] = x # ?f" by (simp add: cs)
  have mem: "a \<in> set cs \<and> Addr_Is4 (ap_Addr a) = Addr_Is4 (ap_Addr (hd cs)) \<longleftrightarrow> a \<in> set (x # ?f)"
    by (auto simp: cs)
  show ?thesis
  proof (cases "a \<in> set (x # ?f)")
    case True
    have "card {d \<in> draws (Suc (length ?f)). select_loop d 1 x ?f = a} = fact (length ?f)"
      using assms(1) True by (intro select_loop_uniform) (auto simp: cs)
    with True show ?thesis unfolding sel fam mem by simp
  next
    case False
    then have none: "select_loop d 1 x ?f \<noteq> a" for d
      using select_loop_mem [of d 1 x ?f] by auto
    have "{d \<in> draws (Suc (length ?f)). select_loop d 1 x ?f = a} = {}" using none by blast
    then show ?thesis unfolding sel fam mem if_not_P [OF False] by (simp only: length_Cons card.empty)
  qed
qed

theorem selection_is_uniform_witness:
  "card {d \<in> draws (Suc (Suc 0)). selectRandomCandidate d
       [AddrPort (Addr4 1) 80, AddrPort (Addr6 1 []) 80, AddrPort (Addr4 2) 80] = AddrPort (Addr4 2) 80} = 1"
proof -
  let ?cs = "[AddrPort (Addr4 1) 80, AddrPort (Addr6 1 []) 80, AddrPort (Addr4 2) 80]"
  have "distinct ?cs" and "?cs \<noteq> []" by simp_all
  note uniform = selection_is_uniform [OF this, of "AddrPort (Addr4 2) 80"]
  have "length [c \<leftarrow> ?cs. Addr_Is4 (ap_Addr c) = Addr_Is4 (ap_Addr (hd ?cs))] = 2" by simp
  moreover have "AddrPort (Addr4 2) 80 \<in> set ?cs \<and> Addr_Is4 (ap_Addr (AddrPort (Addr4 2) 80)) = Addr_Is4 (ap_Addr (hd ?cs))"
    by simp
  ultimately show ?thesis using uniform by simp
qed

subsection \<open>The audited rule\<close>

definition matched_rule :: "Config \<Rightarrow> AddrPort \<Rightarrow> AuthorizationDecision option" where
  "matched_rule c a =
     (let d = Evaluate c a in
      if dec_Action d = Allow \<and> dec_PolicyName d \<noteq> []
      then Some (AuthorizationDecisionZero\<lparr>ad_Policy := dec_PolicyName d, ad_RuleIndex := Some (dec_RuleIndex d)\<rparr>) else None)"

definition matches_of :: "'c Stream \<Rightarrow> AddrPort \<rightharpoonup> AuthorizationDecision" where
  "matches_of st = (case st_Info st of None \<Rightarrow> Map.empty | Some i \<Rightarrow> si_authorizationMatches i)"

lemma matches_of_record:
  "st_Info st \<noteq> None \<Longrightarrow> matches_of (on_info (RecordAuthorizationMatch a p n) st) =
     (matches_of st)(a \<mapsto> AuthorizationDecisionZero\<lparr>ad_Policy := p, ad_RuleIndex := Some n\<rparr>)"
  by (auto simp: matches_of_def on_info_def RecordAuthorizationMatch_def)

lemma recorded_stays [simp]: "st_Info (on_info (RecordAuthorizationMatch a p n) st) = None \<longleftrightarrow> st_Info st = None"
  by (simp add: on_info_def RecordAuthorizationMatch_def)

lemma authorize_from_matches:
  "authorize_from c cs (allowed, prev, st) = (allowed', final, st') \<Longrightarrow> st_Info st \<noteq> None \<Longrightarrow>
     st_Info st' \<noteq> None \<and>
     matches_of st' a = (if a \<in> set cs \<and> matched_rule c a \<noteq> None then matched_rule c a else matches_of st a)"
proof (induction cs arbitrary: allowed prev st)
  case (Cons b cs)
  let ?d = "Evaluate c b"
  consider "matched_rule c b = None"
      "\<exists>al. authorize_from c cs (al, ?d, st) = (allowed', final, st')"
    | "matched_rule c b = Some (AuthorizationDecisionZero\<lparr>ad_Policy := dec_PolicyName ?d, ad_RuleIndex := Some (dec_RuleIndex ?d)\<rparr>)"
      "\<exists>al. authorize_from c cs (al, ?d, on_info (RecordAuthorizationMatch b (dec_PolicyName ?d) (dec_RuleIndex ?d)) st) =
         (allowed', final, st')"
    using Cons.prems(1) by (cases "dec_PolicyName ?d = []"; cases "dec_Action ?d = Allow") (auto simp: matched_rule_def Let_def)
  then show ?case
  proof cases
    case 1
    then show ?thesis using Cons.IH Cons.prems(2) by fastforce
  next
    case 2
    obtain al where "authorize_from c cs (al, ?d, on_info (RecordAuthorizationMatch b (dec_PolicyName ?d) (dec_RuleIndex ?d)) st) =
         (allowed', final, st')" using 2 by blast
    from Cons.IH [OF this] Cons.prems(2) 2(1) show ?thesis
      by (cases "a = b") (auto simp: matches_of_record)
  qed
qed simp

lemma Config_Authorize_matches:
  assumes "Config_Authorize c st cs = (Inr as, st')" and "as \<noteq> []" and "st_Info st \<noteq> None"
  shows "st_Info st' \<noteq> None"
    and "matches_of st' a = (if a \<in> set cs \<and> matched_rule c a \<noteq> None then matched_rule c a else matches_of st a)"
proof -
  obtain al final st1 where walk: "authorize_from c cs ([], DecisionZero, st) = (al, final, st1)"
    by (metis prod_cases3)
  with assms have "st' = st1" by (auto simp: Config_Authorize_def)
  with authorize_from_matches [OF walk assms(3)]
  show "st_Info st' \<noteq> None"
    and "matches_of st' a = (if a \<in> set cs \<and> matched_rule c a \<noteq> None then matched_rule c a else matches_of st a)"
    by blast+
qed

lemma resolveCandidates_keeps_info: "resolveCandidates env st client = (Inr cs, st1, client') \<Longrightarrow> st1 = st"
  by (auto simp: resolveCandidates_def Let_def split: option.splits prod.splits sum.splits if_splits)

lemma program_chain_matches:
  assumes "authorize_chain (program_authorizers global True) st cs = (Inr as, st')" and "a \<in> set as"
    and "st_Info st \<noteq> None" and "ps_DestinationAuthorizer (st_Policies st) = Some cfg"
  shows "st_Info st' \<noteq> None" and "matches_of st' a =
     (case matched_rule cfg a of Some r \<Rightarrow> Some r
      | None \<Rightarrow> case matched_rule (sa_current global) a of Some r \<Rightarrow> Some r | None \<Rightarrow> matches_of st a)"
proof -
  obtain r1 st1 where c1: "Config_Authorize (sa_current global) st cs = (r1, st1)" by fastforce
  note f1 = Config_Authorize_facts [OF c1]
  let ?cs = "[c \<leftarrow> cs. config_allows (sa_current global) c]"
  have r1: "r1 = Inr ?cs" using f1 by blast
  have ne: "?cs \<noteq> []" and pol: "policy_Authorize st1 ?cs = (Inr as, st')"
    using assms(1,2) c1 r1
    by (auto simp: program_authorizers_def StaticAuthorizer_Authorize_def split: if_splits sum.splits prod.splits)
  have c2: "Config_Authorize cfg st1 ?cs = (Inr as, st')"
    using pol assms(2,4) same_but_info_fields [OF conjunct2 [OF f1]]
    by (auto simp: policy_Authorize_def split: if_splits)
  have mem: "a \<in> set ?cs" using Config_Authorize_facts [OF c2] assms(2) by simp
  have some: "as \<noteq> []" using assms(2) by (cases as) simp_all
  note m1 = Config_Authorize_matches [OF c1 [unfolded r1] ne assms(3)]
  note m2 = Config_Authorize_matches [OF c2 some m1(1)]
  show "st_Info st' \<noteq> None" by (rule m2(1))
  show "matches_of st' a = (case matched_rule cfg a of Some r \<Rightarrow> Some r
      | None \<Rightarrow> case matched_rule (sa_current global) a of Some r \<Rightarrow> Some r | None \<Rightarrow> matches_of st a)"
    using m2(2) [of a] m1(2) [of a] mem by (auto split: option.splits)
qed

text \<open>
  C29: the audit names the rule that admitted the pinned destination.  For a stream whose
  record holds no earlier match, a successful authorization records the action \<open>allow\<close> and the
  address of the returned target, with the policy and rule of the caller's policies when one
  of them decided, otherwise of the global configuration, otherwise none; matches of the
  other candidates leave no trace.
\<close>

theorem audit_names_the_deciding_rule:
  assumes "Aggregate_Authorize env draw (program_authorizers global True) client st = (((Some t, reply, err), st'), client')"
    and "st_Info st = Some i" and "si_authorizationMatches i = Map.empty"
    and "ps_DestinationAuthorizer (st_Policies st) = Some cfg"
  shows "\<exists>a i'. up_Address t = Some a \<and> st_Info st' = Some i' \<and> si_authorizationMatches i' = Map.empty \<and>
     si_Authorization i' = Some
       ((case matched_rule cfg a of Some r \<Rightarrow> r
         | None \<Rightarrow> case matched_rule (sa_current global) a of Some r \<Rightarrow> r | None \<Rightarrow> AuthorizationDecisionZero)
          \<lparr>ad_Action := ''allow'', ad_Destination := AddrPort_String a\<rparr>)"
proof -
  from program_authorizers_ok assms(1) obtain cs st1 a where
    cand: "resolveCandidates env st client = (Inr cs, st1, client')" and addr: "up_Address t = Some a" and mem: "a \<in> set cs"
    and allowed: "\<forall>p\<in>set [\<lambda>st. config_allows (sa_current global), policy_allows]. p st a"
    and info: "st_Info st' = RecordAuthorizedDestination a (st_Info (snd (authorize_chain (program_authorizers global True) st1 cs)))"
    by (rule Aggregate_Authorize_target)
  note st1 = resolveCandidates_keeps_info [OF cand]
  have ok: "Workload_HasIdentity (subj_Workload (cc_Subject (st_Caller st)))" "config_allows cfg a" "config_allows (sa_current global) a"
    using allowed assms(4) by (auto simp: policy_allows_def)
  obtain st2 where chain: "authorize_chain (program_authorizers global True) st1 cs =
     (Inr [c \<leftarrow> cs. config_allows (sa_current global) c \<and> config_allows cfg c], st2)"
    using program_chain [of st1 cfg global cs] st1 assms(4) ok(1) by (metis (no_types, lifting))
  have kept: "a \<in> set [c \<leftarrow> cs. config_allows (sa_current global) c \<and> config_allows cfg c]"
    using mem ok by simp
  have start: "st_Info st1 \<noteq> None" "ps_DestinationAuthorizer (st_Policies st1) = Some cfg" "matches_of st1 a = None"
    using st1 assms(2-4) by (simp_all add: matches_of_def)
  note m = program_chain_matches [OF chain kept start(1,2)]
  then obtain i2 where i2: "st_Info st2 = Some i2" by blast
  have "si_authorizationMatches i2 a = (case matched_rule cfg a of Some r \<Rightarrow> Some r
      | None \<Rightarrow> matched_rule (sa_current global) a)"
    using m(2) start(3) i2 by (auto simp: matches_of_def split: option.splits)
  with info chain i2 addr show ?thesis
    by (auto simp: RecordAuthorizedDestination_def RecordAuthorization_def Let_def split: option.splits)
qed

theorem audit_names_the_deciding_rule_witness:
  "\<exists>i'. st_Info (snd (fst (Aggregate_Authorize example_env (\<lambda>n. 0) (program_authorizers example_global True)
        (Some (newResolutionCache recency_lru 8)) example_stream))) = Some i' \<and> si_Authorization i' \<noteq> None"
proof -
  let ?r = "Aggregate_Authorize example_env (\<lambda>n. 0) (program_authorizers example_global True)
        (Some (newResolutionCache recency_lru 8)) example_stream"
  have t: "fst (fst (fst ?r)) = Some \<lparr>up_Address = Some (AddrPort (Addr4 0x0A000001) 443)\<rparr>" by code_simp
  then have run: "?r = (((Some \<lparr>up_Address = Some (AddrPort (Addr4 0x0A000001) 443)\<rparr>, fst (snd (fst (fst ?r))),
      snd (snd (fst (fst ?r)))), snd (fst ?r)), snd ?r)"
    by (simp add: prod_eq_iff)
  have "st_Info example_stream = Some NewStreamInfo" "si_authorizationMatches NewStreamInfo = Map.empty"
    "ps_DestinationAuthorizer (st_Policies example_stream) = Some \<lparr>cfg_DeniedCIDRs = [], cfg_Policies = []\<rparr>"
    by (simp_all add: example_stream_def NewStreamInfo_def)
  from audit_names_the_deciding_rule [OF run this] show ?thesis by blast
qed

end
