(* ===== verification/Go_Json.thy ===== *)
theory Go_Json
  imports Go_Prelude
begin

section \<open>JSON strings\<close>

text \<open>
  The string encoding of Go's \<open>encoding/json\<close>, as \<open>json.Marshal\<close> applies it (HTML escaping
  on): quotes, backslashes, control characters and the characters \<open><\<close>, \<open>>\<close>, \<open>&\<close> are escaped,
  the line separators U+2028 and U+2029 are escaped, an octet that does not begin a valid
  UTF-8 sequence becomes the replacement character, and everything else is copied.
\<close>

definition octet :: "char \<Rightarrow> nat" where
  "octet c = of_char c"

definition octet_in :: "nat \<Rightarrow> nat \<Rightarrow> char \<Rightarrow> bool" where
  "octet_in lo hi c \<longleftrightarrow> lo \<le> octet c \<and> octet c \<le> hi"

text \<open>The length of the UTF-8 sequence a string begins with, 0 when it begins with none.\<close>

definition utf8_len :: "string \<Rightarrow> nat" where
  "utf8_len s =
     (case s of
        [] \<Rightarrow> 0
      | a # s1 \<Rightarrow>
          if octet a < 128 then 1
          else
            (case s1 of
               [] \<Rightarrow> 0
             | b # s2 \<Rightarrow>
                 if octet_in 194 223 a then (if octet_in 128 191 b then 2 else 0)
                 else if octet_in 224 239 a then
                   (if octet_in (if octet a = 224 then 160 else 128) (if octet a = 237 then 159 else 191) b
                    then (case s2 of c # _ \<Rightarrow> if octet_in 128 191 c then 3 else 0 | [] \<Rightarrow> 0) else 0)
                 else if octet_in 240 244 a then
                   (if octet_in (if octet a = 240 then 144 else 128) (if octet a = 244 then 143 else 191) b
                    then (case s2 of
                            c # d # _ \<Rightarrow> if octet_in 128 191 c \<and> octet_in 128 191 d then 4 else 0
                          | _ \<Rightarrow> 0) else 0)
                 else 0))"

definition hex_digit :: "nat \<Rightarrow> char" where
  "hex_digit d = (if d < 10 then char_of (48 + d) else char_of (87 + d))"

definition backslash :: char where "backslash = CHR 0x5C"
definition quote :: char where "quote = CHR 0x22"

definition json_ascii :: "char \<Rightarrow> string" where
  "json_ascii c =
     (let n = octet c in
      if c = backslash \<or> c = quote then [backslash, c]
      else if n = 8 then [backslash, CHR ''b'']
      else if n = 12 then [backslash, CHR ''f'']
      else if n = 10 then [backslash, CHR ''n'']
      else if n = 13 then [backslash, CHR ''r'']
      else if n = 9 then [backslash, CHR ''t'']
      else if n < 32 \<or> c = CHR ''<'' \<or> c = CHR ''>'' \<or> c = CHR ''&''
      then [backslash, CHR ''u'', CHR ''0'', CHR ''0'', hex_digit (n div 16), hex_digit (n mod 16)]
      else [c])"

fun json_chars :: "string \<Rightarrow> string" where
  "json_chars [] = []"
| "json_chars (c # cs) =
     (if octet c < 128 then json_ascii c @ json_chars cs
      else
        let k = utf8_len (c # cs); rune = take k (c # cs) in
        if k = 0 then backslash # ''ufffd'' @ json_chars cs
        else if rune = [CHR 0xE2, CHR 0x80, CHR 0xA8] then backslash # ''u2028'' @ json_chars (drop (k - 1) cs)
        else if rune = [CHR 0xE2, CHR 0x80, CHR 0xA9] then backslash # ''u2029'' @ json_chars (drop (k - 1) cs)
        else rune @ json_chars (drop (k - 1) cs))"

definition json_string :: "string \<Rightarrow> string" where
  "json_string s = quote # json_chars s @ [quote]"

text \<open>A struct of strings: its fields in their order, under their JSON names.\<close>

fun json_fields :: "(string \<times> string) list \<Rightarrow> string" where
  "json_fields [] = []"
| "json_fields [(k, v)] = json_string k @ '':'' @ json_string v"
| "json_fields ((k, v) # rest) = json_string k @ '':'' @ json_string v @ '','' @ json_fields rest"

definition json_struct :: "(string \<times> string) list \<Rightarrow> string" where
  "json_struct fields = ''{'' @ json_fields fields @ ''}''"

subsection \<open>An encoded string cannot end its literal\<close>

text \<open>
  Scanning a literal as every JSON reader does: a backslash takes the next octet with it.
  The scan of an encoded string stops exactly at the closing quote.
\<close>

fun scan_literal :: "string \<Rightarrow> string \<Rightarrow> (string \<times> string) option" where
  "scan_literal acc [] = None"
| "scan_literal acc (c # cs) =
     (if c = quote then Some (rev acc, cs)
      else if c = backslash then (case cs of [] \<Rightarrow> None | d # ds \<Rightarrow> scan_literal (d # c # acc) ds)
      else scan_literal (c # acc) cs)"

lemma scan_plain:
  "\<forall>c\<in>set p. c \<noteq> quote \<and> c \<noteq> backslash \<Longrightarrow> scan_literal acc (p @ rest) = scan_literal (rev p @ acc) rest"
  by (induction p arbitrary: acc) simp_all

lemma octet_plain: "128 \<le> octet c \<Longrightarrow> c \<noteq> quote \<and> c \<noteq> backslash"
  by (auto simp: octet_def quote_def backslash_def)

lemma scan_escape:
  "\<forall>c\<in>set p. c \<noteq> quote \<and> c \<noteq> backslash \<Longrightarrow>
   scan_literal acc (backslash # d # p @ rest) = scan_literal (rev p @ d # backslash # acc) rest"
  by (simp add: scan_plain backslash_def quote_def)

lemma hex_digit_plain: "d < 16 \<Longrightarrow> hex_digit d \<noteq> quote \<and> hex_digit d \<noteq> backslash"
proof -
  assume "d < 16"
  then have "(of_char (hex_digit d) :: nat) = (if d < 10 then 48 + d else 87 + d)"
    by (simp add: hex_digit_def)
  then have "(of_char (hex_digit d) :: nat) \<noteq> of_char quote \<and> (of_char (hex_digit d) :: nat) \<noteq> of_char backslash"
    by (auto simp: quote_def backslash_def split: if_splits)
  then show ?thesis by auto
qed

lemma scan_ascii: "scan_literal acc (json_ascii c @ rest) = scan_literal (rev (json_ascii c) @ acc) rest"
proof -
  have "\<exists>d. json_ascii c = [backslash, d]" if "c = backslash \<or> c = quote \<or> octet c \<in> {8, 9, 10, 12, 13}"
    using that by (auto simp: json_ascii_def Let_def)
  moreover have "json_ascii c = [backslash, CHR ''u'', CHR ''0'', CHR ''0'', hex_digit (octet c div 16), hex_digit (octet c mod 16)] \<and>
      octet c < 128"
    if "\<not> (c = backslash \<or> c = quote \<or> octet c \<in> {8, 9, 10, 12, 13})"
      "octet c < 32 \<or> c = CHR ''<'' \<or> c = CHR ''>'' \<or> c = CHR ''&''"
    using that by (auto simp: json_ascii_def Let_def octet_def)
  moreover have "json_ascii c = [c]" if "\<not> (c = backslash \<or> c = quote \<or> octet c \<in> {8, 9, 10, 12, 13})"
      "\<not> (octet c < 32 \<or> c = CHR ''<'' \<or> c = CHR ''>'' \<or> c = CHR ''&'')"
    using that by (simp add: json_ascii_def Let_def)
  ultimately consider d where "json_ascii c = [backslash, d]" | "json_ascii c = [c]" "c \<noteq> backslash" "c \<noteq> quote"
    | "json_ascii c = [backslash, CHR ''u'', CHR ''0'', CHR ''0'', hex_digit (octet c div 16), hex_digit (octet c mod 16)]"
      "octet c < 128"
    by blast
  then show ?thesis
  proof cases
    case 3
    then have "hex_digit (octet c div 16) \<noteq> quote \<and> hex_digit (octet c div 16) \<noteq> backslash"
      "hex_digit (octet c mod 16) \<noteq> quote \<and> hex_digit (octet c mod 16) \<noteq> backslash"
      by (auto intro!: hex_digit_plain)
    then have "\<forall>x\<in>set [CHR ''0'', CHR ''0'', hex_digit (octet c div 16), hex_digit (octet c mod 16)]. x \<noteq> quote \<and> x \<noteq> backslash"
      by (simp add: quote_def backslash_def)
    from scan_escape [OF this, of acc "CHR ''u''" rest] 3 show ?thesis by simp
  qed (simp_all add: quote_def backslash_def)
qed

lemma utf8_rune_high:
  assumes "128 \<le> octet c" and "utf8_len (c # cs) = k"
  shows "\<forall>x\<in>set (take k (c # cs)). 128 \<le> octet x"
  using assms by (auto simp: utf8_len_def octet_in_def split: list.splits if_splits)

lemma scan_rune:
  assumes "128 \<le> octet c" and "utf8_len (c # cs) = k"
  shows "scan_literal acc (take k (c # cs) @ rest) = scan_literal (rev (take k (c # cs)) @ acc) rest"
  using utf8_rune_high [OF assms] octet_plain by (intro scan_plain) blast

lemma scan_json_chars: "scan_literal acc (json_chars s @ rest) = scan_literal (rev (json_chars s) @ acc) rest"
proof (induction s arbitrary: acc rule: json_chars.induct)
  case (2 c cs)
  let ?k = "utf8_len (c # cs)"
  have u: "\<forall>x\<in>set ''fffd''. x \<noteq> quote \<and> x \<noteq> backslash" "\<forall>x\<in>set ''2028''. x \<noteq> quote \<and> x \<noteq> backslash"
    "\<forall>x\<in>set ''2029''. x \<noteq> quote \<and> x \<noteq> backslash"
    by (simp_all add: quote_def backslash_def)
  show ?case
  proof (cases "octet c < 128")
    case True
    then show ?thesis by (simp add: scan_ascii 2(1))
  next
    case False
    then have high: "128 \<le> octet c" by simp
    have tail: "scan_literal a (json_chars (drop (?k - 1) cs) @ rest) =
        scan_literal (rev (json_chars (drop (?k - 1) cs)) @ a) rest" if "?k \<noteq> 0" for a
    proof (cases "take ?k (c # cs) = [CHR 0xE2, CHR 0x80, CHR 0xA8]")
      case True
      then show ?thesis using 2(3) [OF False refl refl that] by blast
    next
      case other: False
      then show ?thesis using 2(4) [OF False refl refl that other] 2(5) [OF False refl refl that other] by blast
    qed
    have "json_chars (c # cs) = backslash # CHR ''u'' # ''fffd'' @ json_chars cs" if "?k = 0"
      using False that by simp
    moreover have "json_chars (c # cs) = backslash # CHR ''u'' # ''2028'' @ json_chars (drop (?k - 1) cs)"
      if "?k \<noteq> 0" "take ?k (c # cs) = [CHR 0xE2, CHR 0x80, CHR 0xA8]"
      using False that by (simp only: json_chars.simps Let_def if_True if_False) simp
    moreover have "json_chars (c # cs) = backslash # CHR ''u'' # ''2029'' @ json_chars (drop (?k - 1) cs)"
      if "?k \<noteq> 0" "take ?k (c # cs) = [CHR 0xE2, CHR 0x80, CHR 0xA9]"
      using False that by (simp only: json_chars.simps Let_def if_True if_False) simp
    moreover have "json_chars (c # cs) = take ?k (c # cs) @ json_chars (drop (?k - 1) cs)"
      if "?k \<noteq> 0" "take ?k (c # cs) \<noteq> [CHR 0xE2, CHR 0x80, CHR 0xA8]" "take ?k (c # cs) \<noteq> [CHR 0xE2, CHR 0x80, CHR 0xA9]"
      using False that by (simp only: json_chars.simps Let_def if_True if_False)
    ultimately consider "?k = 0" "json_chars (c # cs) = backslash # CHR ''u'' # ''fffd'' @ json_chars cs"
      | p where "?k \<noteq> 0" "json_chars (c # cs) = backslash # CHR ''u'' # p @ json_chars (drop (?k - 1) cs)"
        "\<forall>x\<in>set p. x \<noteq> quote \<and> x \<noteq> backslash"
      | "?k \<noteq> 0" "json_chars (c # cs) = take ?k (c # cs) @ json_chars (drop (?k - 1) cs)"
      using u(2,3) by blast
    then show ?thesis
    proof cases
      case 1
      have "scan_literal a (json_chars cs @ rest) = scan_literal (rev (json_chars cs) @ a) rest" for a
        using 1(1) by (intro 2(2) [OF False refl refl]) simp
      then show ?thesis unfolding 1(2) using scan_escape [OF u(1), of acc "CHR ''u''"] by simp
    next
      case (2 p)
      show ?thesis unfolding 2(2) using tail [OF 2(1)] scan_escape [OF 2(3), of acc "CHR ''u''"] by simp
    next
      case 3
      show ?thesis unfolding 3(2) append_assoc scan_rune [OF high refl] tail [OF 3(1)] by simp
    qed
  qed
qed simp

lemma scan_json_string:
  "scan_literal [] (json_chars s @ quote # rest) = Some (json_chars s, rest)"
  by (simp add: scan_json_chars)

end
