(* ===== verification/Extproc_Server.thy ===== *)
theory Extproc_Server
  imports Attributes Egress_Authz Go_Json
begin

section \<open>The external-processing server\<close>

text \<open>
  \<open>extensions/epe/pkg/extproc/server.go\<close>, \<open>request.go\<close>, \<open>body.go\<close>, \<open>responsebody.go\<close> and
  \<open>authorization.go\<close>: the handlers of one proxy stream and the loop that dispatches to them.

  The resolvers and the request authorizer are function fields of the server and are
  arguments here; an authorizer threads a state \<open>'a\<close> of its own (the DNS client).  The
  errors they return are known by their text.  Whether the context of a message has expired
  when the authorizer returns is an input of the handler.  Log lines, contexts and metrics are
  not part of the model.
\<close>

subsection \<open>Dependencies\<close>

record 'c Resolution =
  rsn_Units :: "'c Unit list"
  rsn_StreamLogger :: "LoggerId option"

type_synonym 'c Resolver = "Subject \<Rightarrow> HTTPRequest \<Rightarrow> 'c Resolution \<times> string option"
type_synonym 'c ContextResolver = "'c RequestContext \<Rightarrow> string + 'c RequestContext"
type_synonym ('c, 'a) RequestAuthorizer =
  "'a \<Rightarrow> 'c Stream \<Rightarrow> ((UpstreamTarget option \<times> Reply option \<times> string option) \<times> 'c Stream) \<times> 'a"

record ('c, 'f, 'a) Server =
  srv_authorizeRequest :: "('c, 'a) RequestAuthorizer option"
  srv_resolve :: "'c Resolver"
  srv_resolveContext :: "'c ContextResolver option"
  srv_eng :: "('c, 'f) Engine"
  srv_loggers :: "LoggerId list"
  srv_failClosedOnMissingIdentity :: bool

record ('c, 'f, 'a) ServerDeps =
  sd_Resolve :: "'c Resolver"
  sd_ResolveContext :: "'c ContextResolver option"
  sd_AuthorizeRequest :: "('c, 'a) RequestAuthorizer option"
  sd_Registrations :: "('c, 'f) Registration list"
  sd_AuditLogger :: LoggerId
  sd_StreamLoggers :: "LoggerId list"
  sd_FailClosedOnMissingIdentity :: bool

definition NewServer :: "('c, 'f, 'a) ServerDeps \<Rightarrow> ('c, 'f, 'a) Server" where
  "NewServer deps =
     \<lparr>srv_authorizeRequest = sd_AuthorizeRequest deps, srv_resolve = sd_Resolve deps,
      srv_resolveContext = sd_ResolveContext deps, srv_eng = NewEngine (sd_Registrations deps),
      srv_loggers = sd_AuditLogger deps # sd_StreamLoggers deps,
      srv_failClosedOnMissingIdentity = sd_FailClosedOnMissingIdentity deps\<rparr>"

subsection \<open>The state of a stream\<close>

datatype streamLifecycle = lifecycleIdle | lifecycleActive | lifecycleFinalizePending | lifecycleFinalized

record ('c, 'f) streamState =
  ss_stream :: "'c Stream"
  ss_requestBodyContinuation :: "('c, 'f) RequestHeadersResult option"
  ss_upstreamMutation :: bool
  ss_responseScope :: ResponseScope
  ss_awaitResponseHeaders :: bool
  ss_responseBodyContinuation :: "('c, 'f) ResponseHeadersResult option"
  ss_lifecycle :: streamLifecycle
  ss_effect :: messageEffect

definition newStreamState :: "('c, 'f) streamState" where
  "newStreamState =
     \<lparr>ss_stream = StreamZero\<lparr>st_Info := Some NewStreamInfo\<rparr>, ss_requestBodyContinuation = None,
      ss_upstreamMutation = False, ss_responseScope = ResponseScopeZero, ss_awaitResponseHeaders = False,
      ss_responseBodyContinuation = None, ss_lifecycle = lifecycleIdle, ss_effect = effectNone\<rparr>"

definition markRequestSeen :: "('c, 'f) streamState \<Rightarrow> ('c, 'f) streamState" where
  "markRequestSeen state =
     (if ss_lifecycle state = lifecycleIdle then state\<lparr>ss_lifecycle := lifecycleActive\<rparr> else state)"

definition awaitingRequestBody :: "('c, 'f) streamState \<Rightarrow> bool" where
  "awaitingRequestBody state \<longleftrightarrow> ss_requestBodyContinuation state \<noteq> None"

definition awaitingResponseBody :: "('c, 'f) streamState \<Rightarrow> bool" where
  "awaitingResponseBody state \<longleftrightarrow> ss_responseBodyContinuation state \<noteq> None"

definition awaitingInput :: "('c, 'f) streamState \<Rightarrow> bool" where
  "awaitingInput state \<longleftrightarrow>
     awaitingRequestBody state \<or> awaitingResponseBody state \<or> ss_awaitResponseHeaders state"

definition armFinalization :: "Disposition \<Rightarrow> ('c, 'f) streamState \<Rightarrow> ('c, 'f) streamState" where
  "armFinalization d state =
     (case d of
        DispositionBlocked \<Rightarrow>
          state\<lparr>ss_requestBodyContinuation := None, ss_responseBodyContinuation := None,
                ss_awaitResponseHeaders := False, ss_lifecycle := lifecycleFinalizePending\<rparr>
      | DispositionBypassed \<Rightarrow>
          if \<not> ss_awaitResponseHeaders state \<and> \<not> awaitingRequestBody state
          then state\<lparr>ss_lifecycle := lifecycleFinalizePending\<rparr> else state
      | _ \<Rightarrow> state)"

subsection \<open>Authorization (\<open>authorization.go\<close>)\<close>

definition authorizationReply :: "int \<Rightarrow> string \<Rightarrow> string \<Rightarrow> string \<Rightarrow> Reply" where
  "authorizationReply status code message requestID =
     \<lparr>reply_Status = status,
      reply_HeaderOps = [\<lparr>op_Kind = HeaderSet, op_Name = ''content-type'', op_Value = ''application/json''\<rparr>],
      reply_Body = json_struct [(''code'', code), (''message'', message), (''requestID'', requestID)],
      reply_Details = code\<rparr>"

abbreviation AuthorizationReasonFailed :: string where
  "AuthorizationReasonFailed \<equiv> ''authorization_failed''"

text \<open>The record of a failure: the error, and a decision unless one of an error is there.\<close>

definition record_failure :: "string \<Rightarrow> StreamInfo option \<Rightarrow> StreamInfo option" where
  "record_failure err info =
     (let info1 = map_option (\<lambda>i. i\<lparr>si_Error := err\<rparr>) info in
      if (case info1 of None \<Rightarrow> False
          | Some i \<Rightarrow> (case si_Authorization i of None \<Rightarrow> True | Some d \<Rightarrow> ad_Action d \<noteq> ''error''))
      then RecordAuthorization (decision ''error'' AuthorizationReasonFailed) info1 else info1)"

definition effective_stream :: "HeaderOp list \<Rightarrow> RouteMutation option \<Rightarrow> 'c Stream \<Rightarrow> 'c Stream" where
  "effective_stream ops route stream =
     routed route (stream\<lparr>st_Request := RequestAfterMutations (st_Request stream) ops\<rparr>)"

definition authorize ::
  "('c, 'f, 'a) Server \<Rightarrow> string option \<Rightarrow> HeaderOp list \<Rightarrow> RouteMutation option \<Rightarrow> 'a \<Rightarrow> 'c Stream \<Rightarrow>
   (RouteMutation option \<times> Reply option) \<times> 'c Stream \<times> 'a" where
  "authorize s ctxErr ops route w stream =
     (case srv_authorizeRequest s of
        None \<Rightarrow> ((route, None), stream, w)
      | Some authorizeRequest \<Rightarrow>
        (case authorizeRequest w (effective_stream ops route stream) of
           (((target, reply, err), effective), w') \<Rightarrow>
             let stream1 = stream\<lparr>st_Info := st_Info effective\<rparr> in
             (case (case err of None \<Rightarrow> ctxErr | Some e \<Rightarrow> Some e) of
                Some e \<Rightarrow>
                  ((None, Some (authorizationReply 500 ''epe_request_authorization_failed''
                      ''Unable to authorize outbound destination.'' (st_RequestID stream1))),
                   stream1\<lparr>st_Info := record_failure e (st_Info stream1)\<rparr>, w')
              | None \<Rightarrow>
                (case reply of
                   Some r \<Rightarrow>
                     ((None, Some
                        (if reply_Details r = ''epe_egress_denied''
                         then authorizationReply (reply_Status r) (reply_Details r)
                                ''Outbound destination is denied by policy.'' (st_RequestID stream1)
                         else r)), stream1, w')
                 | None \<Rightarrow>
                   (case target of
                      None \<Rightarrow> ((route, None), stream1, w')
                    | Some t \<Rightarrow>
                        ((Some \<lparr>rt_Upstream = Some t, rt_ClearCache = route_clears route\<rparr>, None), stream1, w'))))))"

subsection \<open>Request headers (\<open>request.go\<close>)\<close>

datatype HandlerError =
    FailedPrecondition string
  | InvalidArgument string
  | EngineFailed EvalError
  | ResolveFailed string
  | NilMessage

type_synonym Handled = "ProcessingResponse list \<times> HandlerError option"

definition complete_body :: "bytes \<Rightarrow> Body" where
  "complete_body bs = \<lparr>body_Bytes = bs, body_Complete = True\<rparr>"

definition extractRequestID :: "HttpHeaders option \<Rightarrow> string" where
  "extractRequestID headers =
     (case GetHeaders headers of
        None \<Rightarrow> []
      | Some hs \<Rightarrow>
        (case find (\<lambda>h. EqualFold (hv_Key h) ''x-request-id'') hs of
           None \<Rightarrow> [] | Some h \<Rightarrow> HeaderValue h))"

definition with_override :: "ProcessingMode \<Rightarrow> ProcessingResponse list \<Rightarrow> ProcessingResponse list" where
  "with_override override responses =
     (hd responses)\<lparr>pr_ModeOverride := Some override\<rparr> # tl responses"

text \<open>The override and the obligations of a result that was not blocked.\<close>

definition request_obligations ::
  "('c, 'f) RequestHeadersResult \<Rightarrow> Phase \<Rightarrow> ProcessingResponse list \<Rightarrow> ('c, 'f) streamState \<Rightarrow>
   ProcessingResponse list \<times> ('c, 'f) streamState" where
  "request_obligations res subscriptions responses state =
     (if rhr_Disposition res = DispositionBlocked then (responses, state)
      else
        let wantResponse = (subscriptions AND PhaseResponseHeaders \<noteq> 0); wantBody = request_NeedsBody res;
            responses1 =
              (if wantBody \<or> wantResponse
               then with_override
                      \<lparr>pm_ResponseHeaderMode = (if wantResponse then MODE_SEND else MODE_DEFAULT),
                       pm_RequestBodyMode = (if wantBody then MODE_BUFFERED else MODE_NONE),
                       pm_ResponseBodyMode = MODE_NONE\<rparr> responses
               else responses);
            state1 = (if wantBody then state\<lparr>ss_requestBodyContinuation := Some res\<rparr> else state);
            state2 = (if wantResponse then state1\<lparr>ss_awaitResponseHeaders := True\<rparr> else state1)
        in (responses1, state2))"

definition upstream_selected :: "RouteMutation option \<Rightarrow> bool" where
  "upstream_selected route = (case route of None \<Rightarrow> False | Some r \<Rightarrow> rt_Upstream r \<noteq> None)"

text \<open>
  The part of \<open>requestHeadersResponse\<close> after the authorization: an available (empty) body
  satisfies registered callbacks at once.
\<close>

definition respond_to_headers ::
  "('c, 'f, 'a) Server \<Rightarrow> ('c, 'f) RequestHeadersResult \<Rightarrow> Phase \<Rightarrow> bool \<Rightarrow> ('c, 'f) streamState \<Rightarrow>
   Handled \<times> ('c, 'f) streamState" where
  "respond_to_headers s res subscriptions bodyAvailable state =
     (case (if bodyAvailable \<and> request_NeedsBody res
            then (case EvalRequestBody (srv_eng s) (ss_stream state) (Some res) (complete_body []) of
                    (body, err, st) \<Rightarrow> (HeadersResult body, err, st))
            else (res, None, ss_stream state)) of
        (res', Some err, st) \<Rightarrow> (([], Some (EngineFailed err)), state\<lparr>ss_stream := st\<rparr>)
      | (res', None, st) \<Rightarrow>
          let state1 = state\<lparr>ss_stream := st, ss_responseScope := rhr_ResponseScope res'\<rparr> in
          (case request_obligations res' subscriptions (translateRequestHeadersResult res') state1 of
             (responses, state2) \<Rightarrow> ((responses, None), armFinalization (rhr_Disposition res') state2)))"

definition requestHeadersResponse ::
  "('c, 'f, 'a) Server \<Rightarrow> string option \<Rightarrow> ('c, 'f) RequestHeadersResult \<Rightarrow> Phase \<Rightarrow> bool \<Rightarrow> 'a \<Rightarrow>
   ('c, 'f) streamState \<Rightarrow> Handled \<times> ('c, 'f) streamState \<times> 'a" where
  "requestHeadersResponse s ctxErr res subscriptions bodyAvailable w state =
     (let state1 = state\<lparr>ss_upstreamMutation := upstream_selected (rhr_Route res)\<rparr> in
      if srv_authorizeRequest s \<noteq> None \<and> rhr_Disposition res \<noteq> DispositionBlocked
      then
        (case authorize s ctxErr (rhr_HeaderOps res) (rhr_Route res) w (ss_stream state1) of
           ((route, reply), st, w') \<Rightarrow>
             let res1 = (case reply of
                           Some r \<Rightarrow> res\<lparr>rhr_Disposition := DispositionBlocked, rhr_Reply := r\<rparr>
                         | None \<Rightarrow> res\<lparr>rhr_Route := route\<rparr>)
             in case respond_to_headers s res1 subscriptions bodyAvailable (state1\<lparr>ss_stream := st\<rparr>) of
                  (handled, state2) \<Rightarrow> (handled, state2, w'))
      else
        (case respond_to_headers s res subscriptions bodyAvailable state1 of
           (handled, state2) \<Rightarrow> (handled, state2, w)))"

definition request_context :: "'c Stream \<Rightarrow> 'c RequestContext" where
  "request_context st =
     \<lparr>st_Caller = st_Caller st, st_Request = st_Request st, st_RequestID = st_RequestID st,
      st_Policies = st_Policies st\<rparr>"

definition with_context :: "'c RequestContext \<Rightarrow> 'c Stream \<Rightarrow> 'c Stream" where
  "with_context r st =
     st\<lparr>st_Caller := st_Caller r, st_Request := st_Request r, st_RequestID := st_RequestID r,
        st_Policies := st_Policies r\<rparr>"

text \<open>The identity-dependent lookups: the prepared context, then the units.\<close>

definition resolve_context ::
  "('c, 'f, 'a) Server \<Rightarrow> 'c Stream \<Rightarrow> string + 'c Stream" where
  "resolve_context s st =
     (case srv_resolveContext s of
        Some resolveContext \<Rightarrow>
          if Workload_HasIdentity (subj_Workload (cc_Subject (st_Caller st)))
          then (case resolveContext (request_context st) of
                  Inl e \<Rightarrow> Inl e | Inr r \<Rightarrow> Inr (with_context r st))
          else Inr st
      | None \<Rightarrow> Inr st)"

definition resolve_units ::
  "('c, 'f, 'a) Server \<Rightarrow> HTTPRequest \<Rightarrow> 'c Stream \<Rightarrow> (string + 'c Unit list) \<times> 'c Stream" where
  "resolve_units s req st =
     (case (if Subject_HasIdentity (cc_Subject (st_Caller st))
            then srv_resolve s (cc_Subject (st_Caller st)) req
            else (\<lparr>rsn_Units = [], rsn_StreamLogger = None\<rparr>, None)) of
        (res, err) \<Rightarrow>
          let st1 = (if rsn_StreamLogger res \<noteq> None
                     then st\<lparr>st_Policies := (st_Policies st)\<lparr>ps_StreamLogger := rsn_StreamLogger res\<rparr>\<rparr> else st)
          in (case err of Some e \<Rightarrow> Inl e | None \<Rightarrow> Inr (rsn_Units res), st1))"

definition evaluate_request ::
  "('c, 'f, 'a) Server \<Rightarrow> string option \<Rightarrow> bool \<Rightarrow> bool \<Rightarrow> 'c Unit list \<Rightarrow> 'a \<Rightarrow> ('c, 'f) streamState \<Rightarrow>
   Handled \<times> ('c, 'f) streamState \<times> 'a" where
  "evaluate_request s ctxErr endOfStream isConnect units w state =
     (case ValidateSubscriptions (srv_eng s) units of
        Inl e \<Rightarrow> (([], Some (EngineFailed e)), state, w)
      | Inr subscriptions \<Rightarrow>
        (case EvalRequestHeaders (srv_eng s) (ss_stream state) units None of
           (res, Some e, st) \<Rightarrow> (([], Some (EngineFailed e)), state\<lparr>ss_stream := st\<rparr>, w)
         | (res, None, st) \<Rightarrow>
             let res1 = (if isConnect \<and> request_NeedsBody res
                         then res\<lparr>rhr_Disposition := DispositionBlocked, rhr_Reply := connectRequestBodyUnsupportedReply\<rparr>
                         else res)
             in requestHeadersResponse s ctxErr res1 subscriptions (endOfStream \<and> \<not> isConnect) w
                  (state\<lparr>ss_stream := st, ss_responseScope := rhr_ResponseScope res1\<rparr>)))"

definition GetEndOfStream :: "HttpHeaders option \<Rightarrow> bool" where
  "GetEndOfStream headers = (case headers of None \<Rightarrow> False | Some h \<Rightarrow> hh_EndOfStream h)"

definition HandleRequestHeaders ::
  "('c, 'f, 'a) Server \<Rightarrow> string option \<Rightarrow> HttpHeaders option \<Rightarrow> Attrs \<Rightarrow> 'a \<Rightarrow> ('c, 'f) streamState \<Rightarrow>
   Handled \<times> ('c, 'f) streamState \<times> 'a" where
  "HandleRequestHeaders s ctxErr headers attrs w state =
     (case Extract headers attrs of (caller, req) \<Rightarrow>
        let st1 = (ss_stream state)\<lparr>st_RequestID := extractRequestID headers, st_Caller := caller, st_Request := req\<rparr>;
            state1 = (markRequestSeen state)\<lparr>ss_stream := st1\<rparr>
        in case ExtractUpstream attrs of
             Inl e \<Rightarrow> ((invalidRouteUpstreamDeny, None), state1, w)
           | Inr target \<Rightarrow>
               let st2 = st1\<lparr>st_Upstream := target\<rparr>; state2 = state1\<lparr>ss_stream := st2\<rparr> in
               if \<not> Subject_HasIdentity (cc_Subject caller) \<and> srv_failClosedOnMissingIdentity s
               then ((missingIdentityDeny, None), state2, w)
               else
                 (case resolve_context s st2 of
                    Inl e \<Rightarrow> ((policyUnavailableDeny, Some (ResolveFailed e)), state2, w)
                  | Inr st3 \<Rightarrow>
                    (case resolve_units s req st3 of
                       (Inl e, st4) \<Rightarrow> ((policyUnavailableDeny, Some (ResolveFailed e)), state2\<lparr>ss_stream := st4\<rparr>, w)
                     | (Inr units, st4) \<Rightarrow>
                         if units = [] \<and> srv_authorizeRequest s = None
                         then ((defaultPassThrough, None), state2\<lparr>ss_stream := st4\<rparr>, w)
                         else evaluate_request s ctxErr (GetEndOfStream headers) (isCONNECT req) units w
                                (state2\<lparr>ss_stream :=
                                   st4\<lparr>st_Policies := (st_Policies st4)\<lparr>ps_FilterRules := units\<rparr>\<rparr>\<rparr>))))"

subsection \<open>The other phases\<close>

record HttpBody =
  hb_Body :: bytes
  hb_EndOfStream :: bool

definition HandleRequestBody ::
  "('c, 'f, 'a) Server \<Rightarrow> HttpBody option \<Rightarrow> ('c, 'f) streamState \<Rightarrow> Handled \<times> ('c, 'f) streamState" where
  "HandleRequestBody s body state =
     (if ss_lifecycle state = lifecycleIdle \<or>
         (case ss_requestBodyContinuation state of None \<Rightarrow> True | Some prior \<Rightarrow> \<not> request_NeedsBody prior)
      then (([], Some (FailedPrecondition ''received request body without an outstanding request-body obligation'')), state)
      else
        (case body of
           None \<Rightarrow> (([], Some (InvalidArgument ''request body is missing'')), state)
         | Some b \<Rightarrow>
             let state1 = state\<lparr>ss_requestBodyContinuation := None\<rparr> in
             (case EvalRequestBody (srv_eng s) (ss_stream state) (ss_requestBodyContinuation state) (complete_body (hb_Body b)) of
                (res, Some e, st) \<Rightarrow> (([], Some (EngineFailed e)), state1\<lparr>ss_stream := st\<rparr>)
              | (res, None, st) \<Rightarrow>
                  ((translateRequestBodyResult res, None),
                   armFinalization (rbr_Disposition res)
                     (state1\<lparr>ss_stream := st, ss_responseScope := rbr_ResponseScope res\<rparr>)))))"

text \<open>\<open>processRequestBody\<close> reads the end-of-stream flag of the message before the handler sees it.\<close>

definition processRequestBody ::
  "('c, 'f, 'a) Server \<Rightarrow> HttpBody option \<Rightarrow> ('c, 'f) streamState \<Rightarrow> Handled \<times> ('c, 'f) streamState" where
  "processRequestBody s body state =
     (case body of None \<Rightarrow> (([], Some NilMessage), state) | Some b \<Rightarrow> HandleRequestBody s (Some b) state)"

definition HandleRequestTrailers :: Handled where
  "HandleRequestTrailers = (emptyRequestTrailersAck, None)"

definition HandleResponseTrailers :: Handled where
  "HandleResponseTrailers = (emptyResponseTrailersAck, None)"

definition response_header :: "HTTPResponse \<Rightarrow> ProtoHeaderValue \<Rightarrow> HTTPResponse" where
  "response_header r h =
     (let key = ToLower (hv_Key h); val = HeaderValue h in
      \<lparr>resp_Status = (if key = '':status'' then (case Atoi val of Some code \<Rightarrow> code | None \<Rightarrow> resp_Status r)
                      else resp_Status r),
       resp_Headers = (resp_Headers r)(key \<mapsto> val)\<rparr>)"

definition respond_to_response_headers ::
  "('c, 'f) ResponseHeadersResult \<Rightarrow> ('c, 'f) streamState \<Rightarrow> Handled \<times> ('c, 'f) streamState" where
  "respond_to_response_headers res state =
     (let state1 = state\<lparr>ss_awaitResponseHeaders := False\<rparr>;
          responses = translateResponseHeadersResult res
      in if phr_Disposition res \<noteq> DispositionBlocked \<and> phr_needsBody res
         then ((with_override \<lparr>pm_ResponseHeaderMode = MODE_SEND, pm_RequestBodyMode = MODE_NONE,
                               pm_ResponseBodyMode = MODE_BUFFERED\<rparr> responses, None),
               state1\<lparr>ss_responseBodyContinuation := Some res\<rparr>)
         else ((responses, None), state1\<lparr>ss_lifecycle := lifecycleFinalizePending\<rparr>))"

definition HandleResponseHeaders ::
  "('c, 'f, 'a) Server \<Rightarrow> HttpHeaders option \<Rightarrow> ('c, 'f) streamState \<Rightarrow> Handled \<times> ('c, 'f) streamState" where
  "HandleResponseHeaders s headers state =
     (if ss_lifecycle state = lifecycleIdle
      then (([], Some (FailedPrecondition ''received response headers before request headers'')), state)
      else
        (case GetHeaders headers of
           None \<Rightarrow> (([], Some (InvalidArgument ''response headers are missing'')), state)
         | Some hs \<Rightarrow>
             if ss_lifecycle state = lifecycleFinalized
             then ((emptyResponseHeadersAck, None), state\<lparr>ss_awaitResponseHeaders := False\<rparr>)
             else
               let st1 = (ss_stream state)\<lparr>st_Response := foldl response_header HTTPResponseZero hs\<rparr>;
                   isConnect = isCONNECT (st_Request st1);
                   body = (if GetEndOfStream headers \<and> \<not> isConnect then Some (complete_body []) else None)
               in (case EvalResponseHeaders (srv_eng s) st1 (ps_FilterRules (st_Policies st1)) (ss_responseScope state) body of
                     (res, Some e, st2) \<Rightarrow> (([], Some (EngineFailed e)), state\<lparr>ss_stream := st2\<rparr>)
                   | (res, None, st2) \<Rightarrow>
                       let res1 = (if isConnect \<and> phr_needsBody res
                                   then res\<lparr>phr_Disposition := DispositionBlocked,
                                            phr_Reply := connectResponseBodyUnsupportedReply\<rparr>
                                   else res)
                       in respond_to_response_headers res1 (state\<lparr>ss_stream := st2\<rparr>))))"

definition HandleResponseBody ::
  "('c, 'f, 'a) Server \<Rightarrow> HttpBody option \<Rightarrow> ('c, 'f) streamState \<Rightarrow> Handled \<times> ('c, 'f) streamState" where
  "HandleResponseBody s body state =
     (if ss_lifecycle state = lifecycleIdle \<or> ss_responseBodyContinuation state = None
      then (([], Some (FailedPrecondition ''received response body without an outstanding response-body obligation'')), state)
      else
        (case body of
           None \<Rightarrow> (([], Some (InvalidArgument ''response body is missing'')), state)
         | Some b \<Rightarrow>
             let state1 = state\<lparr>ss_responseBodyContinuation := None\<rparr> in
             (case EvalResponseBody (srv_eng s) (ss_stream state) (ss_responseBodyContinuation state) (complete_body (hb_Body b)) of
                (res, Some e, st) \<Rightarrow> (([], Some (EngineFailed e)), state1\<lparr>ss_stream := st\<rparr>)
              | (res, None, st) \<Rightarrow>
                  ((translateResponseBodyResult res, None),
                   state1\<lparr>ss_stream := st, ss_lifecycle := lifecycleFinalizePending\<rparr>))))"

subsection \<open>Responses to request headers\<close>

definition is_immediate :: "ProcessingResponse \<Rightarrow> bool" where
  "is_immediate r = (case pr_Response r of Immediate _ \<Rightarrow> True | _ \<Rightarrow> False)"

lemma is_immediate_simps [simp]:
  "is_immediate (immediateFromReply reply)" "is_immediate invalidRouteMutationDeny"
  "is_immediate (r\<lparr>pr_ModeOverride := m\<rparr>) = is_immediate r"
  "is_immediate (respond arm) = (\<exists>im. arm = Immediate im)"
  by (auto simp: is_immediate_def immediateFromReply_def invalidRouteMutationDeny_def split: ResponseArm.splits)

lemma responseUpstream_override [simp]: "responseUpstream (r\<lparr>pr_ModeOverride := m\<rparr>) = responseUpstream r"
  by (simp add: responseUpstream_def)


lemma request_headers_result_cases:
  obtains "rhr_Disposition res = DispositionBlocked" "translateRequestHeadersResult res = [immediateFromReply (rhr_Reply res)]"
  | c where "rhr_Disposition res \<noteq> DispositionBlocked"
      "translateRequestHeadersResult res = [applyRouteMutation (respond (RequestHeaders c)) (rhr_Route res)]"
proof (cases "rhr_Disposition res = DispositionBlocked")
  case True
  then show ?thesis using that(1) by (simp add: translateRequestHeadersResult_def)
next
  case False
  then have "\<exists>c. translateRequestHeadersResult res = [applyRouteMutation (respond (RequestHeaders c)) (rhr_Route res)]"
    by (auto simp: translateRequestHeadersResult_def defaultPassThrough_def Let_def)
  with False show ?thesis using that(2) by blast
qed



lemma armFinalization_stream [simp]: "ss_stream (armFinalization d state) = ss_stream state"
  by (cases d) (simp_all add: armFinalization_def)







subsection \<open>No forwarding without authorization\<close>


text \<open>The authorizer of the program, with errors known by their text.\<close>

definition aggregate_authorizer ::
  "(AuthzError \<Rightarrow> string) \<Rightarrow> 's dns_env \<Rightarrow> (nat \<Rightarrow> nat) \<Rightarrow> 'c Authorizer list \<Rightarrow>
   ('c, 's resolutionCache option) RequestAuthorizer" where
  "aggregate_authorizer err_text env draw authorizers client st =
     (case Aggregate_Authorize env draw authorizers client st of
        (((target, reply, err), st'), client') \<Rightarrow> (((target, reply, map_option err_text err), st'), client'))"


definition example_context :: "Script ContextResolver" where
  "example_context r = Inr (r\<lparr>st_Policies := PolicySnapshotZero\<lparr>
     ps_DestinationAuthorizer := Some \<lparr>cfg_DeniedCIDRs = [], cfg_Policies = []\<rparr>\<rparr>\<rparr>)"

definition example_units :: "Script Resolver" where
  "example_units subject req =
     (\<lparr>rsn_Units = [scripted_unit ''a'' (script0\<lparr>script_rh := Inr (Continue [SetHeader ''x'' ''1''])\<rparr>)],
       rsn_StreamLogger = None\<rparr>, None)"

definition example_server :: "(Script, Script, (nat \<times> (cacheKey \<times> Result entry) list) resolutionCache option) Server" where
  "example_server = NewServer
     \<lparr>sd_Resolve = example_units, sd_ResolveContext = Some example_context,
      sd_AuthorizeRequest = Some (aggregate_authorizer (\<lambda>e. ''denied'') example_env (\<lambda>n. 0) (program_authorizers example_global True)),
      sd_Registrations = [scripted_reg], sd_AuditLogger = 0, sd_StreamLoggers = [],
      sd_FailClosedOnMissingIdentity = True\<rparr>"







subsection \<open>Tunnels\<close>

definition buffers_body :: "ProcessingResponse \<Rightarrow> bool" where
  "buffers_body r = (case pr_ModeOverride r of None \<Rightarrow> False
     | Some m \<Rightarrow> pm_RequestBodyMode m = MODE_BUFFERED \<or> pm_ResponseBodyMode m = MODE_BUFFERED)"

lemma no_override [simp]:
  "pr_ModeOverride (respond arm) = None" "pr_ModeOverride (immediateFromReply reply) = None"
  by (simp_all add: respond_def immediateFromReply_def)

lemma applyRouteMutation_override:
  "pr_ModeOverride r = None \<Longrightarrow> pr_ModeOverride (applyRouteMutation r route) = None"
  by (auto simp: applyRouteMutation_def publish_upstream_def invalidRouteMutationDeny_def conflictingUpstreamTargetDeny_def Let_def
      split: option.splits ResponseArm.splits)

lemma fixed_responses_override:
  "r \<in> set (invalidRouteUpstreamDeny @ missingIdentityDeny @ policyUnavailableDeny @ defaultPassThrough @ emptyResponseHeadersAck) \<Longrightarrow>
   \<not> buffers_body r"
  by (auto simp: buffers_body_def invalidRouteUpstreamDeny_def missingIdentityDeny_def policyUnavailableDeny_def
      defaultPassThrough_def emptyResponseHeadersAck_def)

lemma translateRequestHeadersResult_override:
  "r \<in> set (translateRequestHeadersResult res) \<Longrightarrow> pr_ModeOverride r = None"
  by (cases rule: request_headers_result_cases [of res]) (auto intro: applyRouteMutation_override)

lemma translateResponseHeadersResult_override:
  "r \<in> set (translateResponseHeadersResult res) \<Longrightarrow> pr_ModeOverride r = None"
  by (auto simp: translateResponseHeadersResult_def emptyResponseHeadersAck_def split: if_splits)

lemma translated_unbuffered:
  "r \<in> set (translateRequestHeadersResult res) \<Longrightarrow> \<not> buffers_body r"
  "p \<in> set (translateResponseHeadersResult pres) \<Longrightarrow> \<not> buffers_body p"
  using translateRequestHeadersResult_override translateResponseHeadersResult_override
  by (fastforce simp: buffers_body_def)+

lemma respond_to_headers_bodyless:
  assumes "\<not> request_NeedsBody res" and "respond_to_headers s res subscriptions avail state = ((responses, err), state')"
    and "r \<in> set responses"
  shows "\<not> buffers_body r"
proof -
  obtain state2 where obl: "request_obligations res subscriptions (translateRequestHeadersResult res)
      (state\<lparr>ss_stream := ss_stream state, ss_responseScope := rhr_ResponseScope res\<rparr>) = (responses, state2)"
    using assms(1,2) by (auto simp: respond_to_headers_def Let_def split: prod.splits)
  obtain q where q: "translateRequestHeadersResult res = [q]"
    by (cases rule: request_headers_result_cases [of res]) auto
  show ?thesis
  proof (cases "responses = translateRequestHeadersResult res")
    case True
    with assms(3) translated_unbuffered(1) show ?thesis by blast
  next
    case False
    with obl assms(1,3) q show ?thesis
      by (auto simp: request_obligations_def with_override_def buffers_body_def Let_def split: if_splits)
  qed
qed

lemma requestHeadersResponse_cases:
  assumes "requestHeadersResponse s ctxErr res subscriptions avail w state = (h, state', w')"
  obtains res1 state1 where "respond_to_headers s res1 subscriptions avail state1 = (h, state')"
    and "request_NeedsBody res1 \<Longrightarrow> request_NeedsBody res"
proof (cases "srv_authorizeRequest s \<noteq> None \<and> rhr_Disposition res \<noteq> DispositionBlocked")
  case True
  obtain route reply st w2 where auth: "authorize s ctxErr (rhr_HeaderOps res) (rhr_Route res) w (ss_stream state) = ((route, reply), st, w2)"
    by (metis prod.collapse)
  let ?res = "case reply of Some r \<Rightarrow> res\<lparr>rhr_Disposition := DispositionBlocked, rhr_Reply := r\<rparr> | None \<Rightarrow> res\<lparr>rhr_Route := route\<rparr>"
  have "request_NeedsBody ?res \<Longrightarrow> request_NeedsBody res"
    by (cases reply) (simp_all add: request_NeedsBody_def)
  with that [of ?res] assms True auth show ?thesis
    by (simp add: requestHeadersResponse_def Let_def split: prod.splits)
next
  case False
  with that [of res] assms show ?thesis
    unfolding requestHeadersResponse_def Let_def if_not_P [OF False] by (simp split: prod.splits)
qed

lemma evaluate_request_connect:
  assumes "evaluate_request s ctxErr eos True units w state = ((responses, err), state', w')" and "r \<in> set responses"
  shows "\<not> buffers_body r"
proof -
  obtain res subscriptions avail state1 where "\<not> request_NeedsBody res"
    and "requestHeadersResponse s ctxErr res subscriptions avail w state1 = ((responses, err), state', w')"
  proof -
    obtain hr st subscriptions where "requestHeadersResponse s ctxErr
        (if request_NeedsBody hr
         then hr\<lparr>rhr_Disposition := DispositionBlocked, rhr_Reply := connectRequestBodyUnsupportedReply\<rparr> else hr)
        subscriptions False w st = ((responses, err), state', w')"
      using assms by (auto simp: evaluate_request_def Let_def split: sum.splits prod.splits option.splits)
    moreover have "\<not> request_NeedsBody (if request_NeedsBody hr
         then hr\<lparr>rhr_Disposition := DispositionBlocked, rhr_Reply := connectRequestBodyUnsupportedReply\<rparr> else hr)"
      by (simp add: request_NeedsBody_def)
    ultimately show ?thesis using that by blast
  qed
  with assms(2) respond_to_headers_bodyless show ?thesis
    by (metis requestHeadersResponse_cases)
qed

lemma respond_to_response_headers_unbuffered:
  assumes "r \<in> set (fst (fst (respond_to_response_headers res state)))"
    and "phr_Disposition res = DispositionBlocked \<or> \<not> phr_needsBody res"
  shows "\<not> buffers_body r"
proof -
  have "r \<in> set (translateResponseHeadersResult res)"
    using assms by (auto simp: respond_to_response_headers_def Let_def split: if_splits)
  then show ?thesis by (rule translated_unbuffered)
qed

text \<open>
  C34: a tunnel is never buffered.  Whatever the rules of a \<open>CONNECT\<close> request ask for, no
  response to its request headers and no response to its response headers tells the proxy to
  buffer a body: tunnel payload is not an HTTP body, and a rule that insists on one is
  answered locally.
\<close>

theorem tunnels_are_never_buffered:
  assumes "isCONNECT (snd (Extract headers attrs))" and "isCONNECT (st_Request (ss_stream later))"
  shows "(\<forall>r\<in>set (fst (fst (HandleRequestHeaders s ctxErr headers attrs w state))). \<not> buffers_body r) \<and>
     (\<forall>r\<in>set (fst (fst (HandleResponseHeaders s responseHeaders later))). \<not> buffers_body r)"
proof (intro conjI ballI)
  fix r assume r: "r \<in> set (fst (fst (HandleRequestHeaders s ctxErr headers attrs w state)))"
  obtain responses err state' w' where run: "HandleRequestHeaders s ctxErr headers attrs w state = ((responses, err), state', w')"
    by (metis prod.collapse)
  have "r \<in> set (invalidRouteUpstreamDeny @ missingIdentityDeny @ policyUnavailableDeny @ defaultPassThrough @ emptyResponseHeadersAck) \<or>
      (\<exists>eos units state1. evaluate_request s ctxErr eos True units w state1 = ((responses, err), state', w'))"
    using run r assms(1)
    by (auto simp: HandleRequestHeaders_def Let_def split: prod.splits sum.splits if_splits)
  then show "\<not> buffers_body r"
    using fixed_responses_override evaluate_request_connect run r by fastforce
next
  fix r assume r: "r \<in> set (fst (fst (HandleResponseHeaders s responseHeaders later)))"
  show "\<not> buffers_body r"
    using r assms(2)
    by (auto simp: HandleResponseHeaders_def Let_def split: if_splits option.splits prod.splits
        dest: respond_to_response_headers_unbuffered intro: notE [OF fixed_responses_override])
qed

definition example_connect :: "HttpHeaders option" where
  "example_connect = Some
     \<lparr>hh_Headers = Some [\<lparr>hv_Key = '':method'', hv_Value = [], hv_RawValue = ''connect''\<rparr>], hh_EndOfStream = True\<rparr>"

theorem tunnels_are_never_buffered_witness:
  "filter buffers_body (fst (fst (HandleRequestHeaders example_server None example_connect Map.empty None newStreamState))) = []"
proof -
  have "isCONNECT (snd (Extract example_connect Map.empty))" by code_simp
  moreover have "isCONNECT (st_Request (ss_stream ((newStreamState :: (Script, Script) streamState)\<lparr>ss_stream := StreamZero\<lparr>st_Request :=
      HTTPRequestZero\<lparr>req_Method := ''CONNECT''\<rparr>\<rparr>\<rparr>)))" by code_simp
  ultimately have "\<forall>r\<in>set (fst (fst (HandleRequestHeaders example_server None example_connect Map.empty None newStreamState))).
      \<not> buffers_body r"
    by (rule conjunct1 [OF tunnels_are_never_buffered])
  then show ?thesis by (simp add: filter_empty_conv)
qed

end
