(* ===== verification/Extproc_Process.thy ===== *)
theory Extproc_Process
  imports Extproc_Server
begin

section \<open>The stream loop\<close>

text \<open>
  \<open>Server.Process\<close> of \<open>extensions/epe/pkg/extproc/server.go\<close>: one iteration receives a
  message, dispatches it, sends the responses and commits a pending finalization; the deferred
  call finalizes whatever is left when the loop returns.  What the transport does in an
  iteration is its input: the state of the context, the received message or the end of the
  stream, and which sends succeed.  The text of a returned error is a parameter.
\<close>

subsection \<open>Transport\<close>

datatype RequestArm =
    ReqRequestHeaders "HttpHeaders option"
  | ReqRequestBody "HttpBody option"
  | ReqRequestTrailers
  | ReqResponseHeaders "HttpHeaders option"
  | ReqResponseBody "HttpBody option"
  | ReqResponseTrailers
  | ReqUnknown

record ProcessingRequest =
  preq_Request :: RequestArm
  preq_Attributes :: Attrs





subsection \<open>Names for log lines\<close>

definition messageTypeName :: "ProcessingRequest \<Rightarrow> string" where
  "messageTypeName req =
     (case preq_Request req of
        ReqRequestHeaders h \<Rightarrow> ''request_headers''
      | ReqRequestBody b \<Rightarrow> ''request_body''
      | ReqRequestTrailers \<Rightarrow> ''request_trailers''
      | ReqResponseHeaders h \<Rightarrow> ''response_headers''
      | ReqResponseBody b \<Rightarrow> ''response_body''
      | ReqResponseTrailers \<Rightarrow> ''response_trailers''
      | ReqUnknown \<Rightarrow> ''unknown'')"

definition responseTypeName :: "ProcessingResponse \<Rightarrow> string" where
  "responseTypeName resp =
     (case pr_Response resp of
        RequestHeaders c \<Rightarrow> ''request_headers''
      | RequestBody c \<Rightarrow> ''request_body''
      | RequestTrailers \<Rightarrow> ''request_trailers''
      | ResponseHeaders c \<Rightarrow> ''response_headers''
      | ResponseBody c \<Rightarrow> ''response_body''
      | ResponseTrailers \<Rightarrow> ''response_trailers''
      | Immediate im \<Rightarrow> ''immediate'')"

definition mutatedHeaderNames :: "ProcessingResponse \<Rightarrow> string list" where
  "mutatedHeaderNames resp =
     (let common = (\<lambda>c. Option.bind c cr_HeaderMutation) in
      case (case pr_Response resp of
              RequestHeaders c \<Rightarrow> common c
            | RequestBody c \<Rightarrow> common c
            | ResponseHeaders c \<Rightarrow> common c
            | ResponseBody c \<Rightarrow> common c
            | Immediate im \<Rightarrow> im_Headers im
            | _ \<Rightarrow> None) of
        None \<Rightarrow> []
      | Some mut \<Rightarrow> map hvo_Key (hm_SetHeaders mut) @ hm_RemoveHeaders mut)"

subsection \<open>Finalization\<close>





subsection \<open>Sending and dispatching\<close>









subsection \<open>What the handlers do to the lifecycle\<close>












subsection \<open>The audit record\<close>











subsection \<open>Order of the messages\<close>
























end
