(* ===== verification/Go_Json_Parse.thy ===== *)
theory Go_Json_Parse
  imports Go_Json
begin

section \<open>Text and JSON documents\<close>

text \<open>
  The parts of \<open>unicode/utf8\<close>, \<open>unicode/utf16\<close>, \<open>bytes\<close> and \<open>encoding/json\<close> that read request
  bodies: validity and encoding of UTF-8, decoding of UTF-16, trimming of Unicode white space,
  and the JSON grammar as Go's scanner accepts it, with its nesting limit and its treatment of
  escapes and of octets that are not UTF-8.  The
  recursive descent carries fuel; \<open>parse_value_fuel\<close> shows that more fuel than there is input
  changes nothing, so running out never decides a result.
\<close>

subsection \<open>Runes\<close>

definition utf8_encode :: "nat \<Rightarrow> string" where
  "utf8_encode r =
     (if r < 128 then [char_of r]
      else if r < 2048 then [char_of (192 + r div 64), char_of (128 + r mod 64)]
      else if r < 65536 then [char_of (224 + r div 4096), char_of (128 + r div 64 mod 64), char_of (128 + r mod 64)]
      else [char_of (240 + r div 262144), char_of (128 + r div 4096 mod 64), char_of (128 + r div 64 mod 64),
            char_of (128 + r mod 64)])"

definition replacement_char :: string where
  "replacement_char = [CHR 0xEF, CHR 0xBF, CHR 0xBD]"

fun utf8_valid :: "string \<Rightarrow> bool" where
  "utf8_valid [] = True"
| "utf8_valid (c # cs) =
     (let k = utf8_len (c # cs) in k \<noteq> 0 \<and> utf8_valid (drop (k - 1) cs))"

definition is_high_surrogate :: "nat \<Rightarrow> bool" where
  "is_high_surrogate u \<longleftrightarrow> 0xD800 \<le> u \<and> u < 0xDC00"

definition is_low_surrogate :: "nat \<Rightarrow> bool" where
  "is_low_surrogate u \<longleftrightarrow> 0xDC00 \<le> u \<and> u < 0xE000"

definition surrogate_pair :: "nat \<Rightarrow> nat \<Rightarrow> nat" where
  "surrogate_pair hi lo = 0x10000 + (hi - 0xD800) * 0x400 + (lo - 0xDC00)"

fun utf16_decode :: "nat list \<Rightarrow> string" where
  "utf16_decode [] = []"
| "utf16_decode [u] =
     (if is_high_surrogate u \<or> is_low_surrogate u then replacement_char else utf8_encode u)"
| "utf16_decode (u # v # us) =
     (if is_high_surrogate u \<and> is_low_surrogate v then utf8_encode (surrogate_pair u v) @ utf16_decode us
      else (if is_high_surrogate u \<or> is_low_surrogate u then replacement_char else utf8_encode u) @ utf16_decode (v # us))"

text \<open>The length of the white-space rune a string begins with, 0 when there is none.\<close>

definition space_len :: "string \<Rightarrow> nat" where
  "space_len s =
     (case map octet (take 3 s) of
        [] \<Rightarrow> 0
      | a # t \<Rightarrow>
          if a \<in> {9, 10, 11, 12, 13, 32} then 1
          else if a = 0xC2 \<and> (case t of b # _ \<Rightarrow> b = 0x85 \<or> b = 0xA0 | [] \<Rightarrow> False) then 2
          else if (case t of
                     [b, c] \<Rightarrow> (a = 0xE1 \<and> b = 0x9A \<and> c = 0x80) \<or>
                               (a = 0xE2 \<and> b = 0x80 \<and> (0x80 \<le> c \<and> c \<le> 0x8A \<or> c = 0xA8 \<or> c = 0xA9 \<or> c = 0xAF)) \<or>
                               (a = 0xE2 \<and> b = 0x81 \<and> c = 0x9F) \<or> (a = 0xE3 \<and> b = 0x80 \<and> c = 0x80)
                   | _ \<Rightarrow> False) then 3
          else 0)"

fun trim_left :: "string \<Rightarrow> string" where
  "trim_left [] = []"
| "trim_left (c # cs) = (let k = space_len (c # cs) in if k = 0 then c # cs else trim_left (drop (k - 1) cs))"

definition all_space :: "string \<Rightarrow> bool" where
  "all_space s \<longleftrightarrow> trim_left s = []"

fun trim_right :: "string \<Rightarrow> string" where
  "trim_right [] = []"
| "trim_right (c # cs) = (if all_space (c # cs) then [] else c # trim_right cs)"

definition UnicodeTrimSpace :: "string \<Rightarrow> string" where
  "UnicodeTrimSpace s = trim_right (trim_left s)"

subsection \<open>Documents\<close>

datatype Json =
    JNull
  | JBool bool
  | JNumber string
  | JString string
  | JArray "Json list"
  | JObject "(string \<times> Json) list"

definition json_space :: "char \<Rightarrow> bool" where
  "json_space c \<longleftrightarrow> octet c \<in> {32, 9, 13, 10}"

definition skip_ws :: "string \<Rightarrow> string" where
  "skip_ws s = dropWhile json_space s"

definition hex_value :: "char \<Rightarrow> nat option" where
  "hex_value c =
     (let n = octet c in
      if 48 \<le> n \<and> n \<le> 57 then Some (n - 48)
      else if 97 \<le> n \<and> n \<le> 102 then Some (n - 87)
      else if 65 \<le> n \<and> n \<le> 70 then Some (n - 55) else None)"

definition hex4 :: "string \<Rightarrow> (nat \<times> string) option" where
  "hex4 s =
     (case s of
        a # b # c # d # r \<Rightarrow>
          (case (hex_value a, hex_value b, hex_value c, hex_value d) of
             (Some w, Some x, Some y, Some z) \<Rightarrow> Some (((w * 16 + x) * 16 + y) * 16 + z, r)
           | _ \<Rightarrow> None)
      | _ \<Rightarrow> None)"

text \<open>
  What follows \<open>u\<close> in an escape: one code unit, or two when they are a surrogate pair; a lone
  surrogate stands for the replacement character.
\<close>

definition unicode_escape :: "string \<Rightarrow> (string \<times> string) option" where
  "unicode_escape s =
     (case hex4 s of
        None \<Rightarrow> None
      | Some (u, r) \<Rightarrow>
          if is_high_surrogate u \<or> is_low_surrogate u then
            (case r of
               b # e # r1 \<Rightarrow>
                 (case (if b = backslash \<and> e = CHR ''u'' then hex4 r1 else None) of
                    Some (v, r2) \<Rightarrow>
                      if is_high_surrogate u \<and> is_low_surrogate v then Some (utf8_encode (surrogate_pair u v), r2)
                      else Some (replacement_char, r)
                  | None \<Rightarrow> Some (replacement_char, r))
             | _ \<Rightarrow> Some (replacement_char, r))
          else Some (utf8_encode u, r))"

definition simple_escape :: "char \<Rightarrow> char option" where
  "simple_escape e =
     (if e = quote \<or> e = backslash \<or> e = CHR ''/'' then Some e
      else if e = CHR ''b'' then Some (char_of (8 :: nat))
      else if e = CHR ''f'' then Some (char_of (12 :: nat))
      else if e = CHR ''n'' then Some (char_of (10 :: nat))
      else if e = CHR ''r'' then Some (char_of (13 :: nat))
      else if e = CHR ''t'' then Some (char_of (9 :: nat)) else None)"

text \<open>The rest of a string literal: the decoded text and what follows the closing quote.\<close>

function parse_chars :: "string \<Rightarrow> (string \<times> string) option" where
  "parse_chars s =
     (case s of
        [] \<Rightarrow> None
      | c # cs \<Rightarrow>
          if c = quote then Some ([], cs)
          else if c = backslash then
            (case cs of
               [] \<Rightarrow> None
             | e # r \<Rightarrow>
               (case (if e = CHR ''u'' then unicode_escape r else map_option (\<lambda>x. ([x], r)) (simple_escape e)) of
                  None \<Rightarrow> None
                | Some (t, r') \<Rightarrow>
                    if length r' \<le> length r then map_option (\<lambda>(v, q). (t @ v, q)) (parse_chars r') else None))
          else if octet c < 32 then None
          else
            let k = utf8_len s in
            if k = 0 then map_option (\<lambda>(v, q). (replacement_char @ v, q)) (parse_chars cs)
            else map_option (\<lambda>(v, q). (take k s @ v, q)) (parse_chars (drop (k - 1) cs)))"
  by pat_completeness auto
termination
  by (relation "measure length") auto

declare parse_chars.simps [simp del]

fun digits1 :: "string \<Rightarrow> (string \<times> string) option" where
  "digits1 s = (let ds = takeWhile is_digit s in if ds = [] then None else Some (ds, dropWhile is_digit s))"

definition number_int :: "string \<Rightarrow> (string \<times> string) option" where
  "number_int s =
     (case s of
        [] \<Rightarrow> None
      | c # r \<Rightarrow> if c = CHR ''0'' then Some ([c], r) else digits1 s)"

definition number_frac :: "string \<Rightarrow> (string \<times> string) option" where
  "number_frac s =
     (case s of
        c # r \<Rightarrow> if c = CHR ''.'' then map_option (\<lambda>(d, q). (c # d, q)) (digits1 r) else Some ([], s)
      | [] \<Rightarrow> Some ([], s))"

definition number_exp :: "string \<Rightarrow> (string \<times> string) option" where
  "number_exp s =
     (case s of
        c # r \<Rightarrow>
          if c = CHR ''e'' \<or> c = CHR ''E'' then
            (case r of
               g # q \<Rightarrow>
                 if g = CHR ''+'' \<or> g = CHR ''-'' then map_option (\<lambda>(d, t). (c # g # d, t)) (digits1 q)
                 else map_option (\<lambda>(d, t). (c # d, t)) (digits1 r)
             | [] \<Rightarrow> None)
          else Some ([], s)
      | [] \<Rightarrow> Some ([], s))"

definition parse_number :: "string \<Rightarrow> (string \<times> string) option" where
  "parse_number s =
     (let sign = (case s of c # _ \<Rightarrow> if c = CHR ''-'' then [c] else [] | [] \<Rightarrow> []) in
      Option.bind (number_int (drop (length sign) s)) (\<lambda>(i, r1).
      Option.bind (number_frac r1) (\<lambda>(f, r2).
      Option.bind (number_exp r2) (\<lambda>(e, r3). Some (sign @ i @ f @ e, r3)))))"

definition parse_scalar :: "string \<Rightarrow> (Json \<times> string) option" where
  "parse_scalar s =
     (if HasPrefix s ''true'' then Some (JBool True, drop 4 s)
      else if HasPrefix s ''false'' then Some (JBool False, drop 5 s)
      else if HasPrefix s ''null'' then Some (JNull, drop 4 s)
      else map_option (\<lambda>(n, r). (JNumber n, r)) (parse_number s))"

definition maxNestingDepth :: int where
  "maxNestingDepth = 10000"

text \<open>
  Values, the members of an object from its next key on, and the elements of an array from its
  next value on.
\<close>

fun parse_value :: "nat \<Rightarrow> int \<Rightarrow> string \<Rightarrow> (Json \<times> string) option"
  and parse_members :: "nat \<Rightarrow> int \<Rightarrow> string \<Rightarrow> ((string \<times> Json) list \<times> string) option"
  and parse_elements :: "nat \<Rightarrow> int \<Rightarrow> string \<Rightarrow> (Json list \<times> string) option" where
  "parse_value 0 d s = None"
| "parse_value (Suc n) d s =
     (case skip_ws s of
        [] \<Rightarrow> None
      | c # cs \<Rightarrow>
          if c = quote then map_option (\<lambda>(v, r). (JString v, r)) (parse_chars cs)
          else if c = CHR ''{'' then
            (if d \<ge> maxNestingDepth then None
             else
               (case skip_ws cs of
                  [] \<Rightarrow> None
                | k # ks \<Rightarrow>
                    if k = CHR ''}'' then Some (JObject [], ks)
                    else map_option (\<lambda>(fs, r). (JObject fs, r)) (parse_members n (d + 1) (k # ks))))
          else if c = CHR ''['' then
            (if d \<ge> maxNestingDepth then None
             else
               (case skip_ws cs of
                  [] \<Rightarrow> None
                | k # ks \<Rightarrow>
                    if k = CHR '']'' then Some (JArray [], ks)
                    else map_option (\<lambda>(vs, r). (JArray vs, r)) (parse_elements n (d + 1) (k # ks))))
          else parse_scalar (c # cs))"
| "parse_members 0 d s = None"
| "parse_members (Suc n) d s =
     (case skip_ws s of
        [] \<Rightarrow> None
      | c # cs \<Rightarrow>
          if c \<noteq> quote then None
          else
            (case parse_chars cs of
               None \<Rightarrow> None
             | Some (k, r1) \<Rightarrow>
               (case skip_ws r1 of
                  [] \<Rightarrow> None
                | e # r2 \<Rightarrow>
                    if e \<noteq> CHR '':'' then None
                    else
                      (case parse_value n d r2 of
                         None \<Rightarrow> None
                       | Some (v, r3) \<Rightarrow>
                         (case skip_ws r3 of
                            [] \<Rightarrow> None
                          | g # r4 \<Rightarrow>
                              if g = CHR ''}'' then Some ([(k, v)], r4)
                              else if g = CHR '','' then map_option (\<lambda>(fs, r). ((k, v) # fs, r)) (parse_members n d r4)
                              else None)))))"
| "parse_elements 0 d s = None"
| "parse_elements (Suc n) d s =
     (case parse_value n d s of
        None \<Rightarrow> None
      | Some (v, r1) \<Rightarrow>
        (case skip_ws r1 of
           [] \<Rightarrow> None
         | g # r2 \<Rightarrow>
             if g = CHR '']'' then Some ([v], r2)
             else if g = CHR '','' then map_option (\<lambda>(vs, r). (v # vs, r)) (parse_elements n d r2)
             else None))"

text \<open>A whole document: one value and nothing but white space around it.\<close>

definition json_document :: "string \<Rightarrow> Json option" where
  "json_document s =
     (case parse_value (Suc (2 * length s)) 0 s of
        None \<Rightarrow> None
      | Some (v, r) \<Rightarrow> if skip_ws r = [] then Some v else None)"

subsection \<open>Decoding into Go values\<close>

text \<open>
  How \<open>json.Unmarshal\<close> stores a document.  An object's keys are matched to the fields of a
  struct up to case folding (the two letters outside ASCII that fold into it are the long s and
  the Kelvin sign); a later member overwrites an earlier one; \<open>null\<close> leaves a scalar or a struct
  as it is and clears a pointer or a slice; a value of another kind is an error.  An array
  is decoded into the elements the slice already has: a slice is kept as its backing elements
  and its length, because the elements beyond the length are there when it grows again.
\<close>

fun fold_name :: "string \<Rightarrow> string" where
  "fold_name [] = []"
| "fold_name (c # cs) =
     (if c = CHR 0xC5 \<and> take 1 cs = [CHR 0xBF] then CHR ''s'' # fold_name (drop 1 cs)
      else if c = CHR 0xE2 \<and> take 2 cs = [CHR 0x84, CHR 0xAA] then CHR ''k'' # fold_name (drop 2 cs)
      else ascii_lower c # fold_name cs)"

definition json_key :: "string \<Rightarrow> string \<Rightarrow> bool" where
  "json_key field key \<longleftrightarrow> fold_name key = fold_name field"

fun unmarshal_string :: "string \<Rightarrow> Json \<Rightarrow> string option" where
  "unmarshal_string old JNull = Some old"
| "unmarshal_string old (JString s) = Some s"
| "unmarshal_string old _ = None"

fun unmarshal_bool :: "bool \<Rightarrow> Json \<Rightarrow> bool option" where
  "unmarshal_bool old JNull = Some old"
| "unmarshal_bool old (JBool b) = Some b"
| "unmarshal_bool old _ = None"

fun unmarshal_int32 :: "32 word \<Rightarrow> Json \<Rightarrow> 32 word option" where
  "unmarshal_int32 old JNull = Some old"
| "unmarshal_int32 old (JNumber t) =
     (case Atoi t of
        None \<Rightarrow> None
      | Some n \<Rightarrow> if - 2147483648 \<le> n \<and> n < 2147483648 then Some (word_of_int n) else None)"
| "unmarshal_int32 old _ = None"

fun unmarshal_members :: "('s \<Rightarrow> string \<Rightarrow> Json \<Rightarrow> 's option) \<Rightarrow> 's \<Rightarrow> (string \<times> Json) list \<Rightarrow> 's option" where
  "unmarshal_members field s [] = Some s"
| "unmarshal_members field s ((k, v) # fs) =
     (case field s k v of None \<Rightarrow> None | Some s' \<Rightarrow> unmarshal_members field s' fs)"

fun unmarshal_struct :: "('s \<Rightarrow> string \<Rightarrow> Json \<Rightarrow> 's option) \<Rightarrow> 's \<Rightarrow> Json \<Rightarrow> 's option" where
  "unmarshal_struct field s JNull = Some s"
| "unmarshal_struct field s (JObject fs) = unmarshal_members field s fs"
| "unmarshal_struct field s _ = None"

definition unmarshal_pointer :: "('s \<Rightarrow> Json \<Rightarrow> 's option) \<Rightarrow> 's \<Rightarrow> 's option \<Rightarrow> Json \<Rightarrow> 's option option" where
  "unmarshal_pointer dec zero old v =
     (if v = JNull then Some None
      else map_option Some (dec (case old of None \<Rightarrow> zero | Some s \<Rightarrow> s) v))"

type_synonym 'a slice = "'a list \<times> nat"

definition slice_elems :: "'a slice \<Rightarrow> 'a list" where
  "slice_elems s = take (snd s) (fst s)"

fun unmarshal_elems :: "('a \<Rightarrow> Json \<Rightarrow> 'a option) \<Rightarrow> 'a \<Rightarrow> 'a list \<Rightarrow> Json list \<Rightarrow> 'a list option" where
  "unmarshal_elems dec zero old [] = Some old"
| "unmarshal_elems dec zero old (v # vs) =
     (case dec (case old of [] \<Rightarrow> zero | x # _ \<Rightarrow> x) v of
        None \<Rightarrow> None
      | Some x \<Rightarrow> map_option (\<lambda>xs. x # xs) (unmarshal_elems dec zero (drop 1 old) vs))"

fun unmarshal_slice :: "('a \<Rightarrow> Json \<Rightarrow> 'a option) \<Rightarrow> 'a \<Rightarrow> 'a slice \<Rightarrow> Json \<Rightarrow> 'a slice option" where
  "unmarshal_slice dec zero old JNull = Some ([], 0)"
| "unmarshal_slice dec zero old (JArray []) = Some ([], 0)"
| "unmarshal_slice dec zero old (JArray (v # vs)) =
     map_option (\<lambda>xs. (xs, Suc (length vs))) (unmarshal_elems dec zero (fst old) (v # vs))"
| "unmarshal_slice dec zero old _ = None"

definition Unmarshal :: "('s \<Rightarrow> Json \<Rightarrow> 's option) \<Rightarrow> 's \<Rightarrow> bytes \<Rightarrow> 's option" where
  "Unmarshal dec zero data =
     (case json_document data of None \<Rightarrow> None | Some v \<Rightarrow> dec zero v)"

subsection \<open>What is left gets shorter\<close>

lemma skip_ws_length: "length (skip_ws s) \<le> length s"
  by (simp add: skip_ws_def length_dropWhile_le)

lemma skip_ws_Cons: "skip_ws s = c # r \<Longrightarrow> length r < length s"
  using skip_ws_length [of s] by simp

lemma hex4_length: "hex4 s = Some (u, r) \<Longrightarrow> length r < length s"
  by (auto simp: hex4_def split: list.splits option.splits)

lemma unicode_escape_length: "unicode_escape s = Some (t, r) \<Longrightarrow> length r \<le> length s"
proof -
  assume esc: "unicode_escape s = Some (t, r)"
  then obtain u q where h: "hex4 s = Some (u, q)"
    by (auto simp: unicode_escape_def split: option.splits)
  note short = hex4_length [OF h]
  show ?thesis
  proof (cases "(is_high_surrogate u \<or> is_low_surrogate u) \<and> (\<exists>b e r1. q = b # e # r1)")
    case True
    then obtain b e r1 where q: "q = b # e # r1" by blast
    have "r = q \<or> (\<exists>v. hex4 r1 = Some (v, r))"
      using esc h q True by (auto simp: unicode_escape_def split: option.splits if_splits)
    with short q hex4_length show ?thesis by fastforce
  next
    case False
    then have "r = q"
      using esc h by (auto simp: unicode_escape_def split: if_splits list.splits)
    with short show ?thesis by simp
  qed
qed

text \<open>The guard in \<open>parse_chars\<close> always holds.\<close>

lemma parse_chars_escape:
  "parse_chars (backslash # e # r) =
     (case (if e = CHR ''u'' then unicode_escape r else map_option (\<lambda>x. ([x], r)) (simple_escape e)) of
        None \<Rightarrow> None
      | Some (t, r') \<Rightarrow> map_option (\<lambda>(v, q). (t @ v, q)) (parse_chars r'))"
  by (subst parse_chars.simps)
    (auto simp: quote_def backslash_def split: option.splits dest: unicode_escape_length)

lemma parse_chars_length: "parse_chars s = Some (v, r) \<Longrightarrow> length r < length s"
proof (induction "length s" arbitrary: s v r rule: less_induct)
  case less
  note ih = less(1)
  show ?case
  proof (cases s)
    case Nil
    with less(2) show ?thesis by (simp add: parse_chars.simps)
  next
    case (Cons c cs)
    consider "c = quote" | "c = backslash" "c \<noteq> quote" | "c \<noteq> quote" "c \<noteq> backslash" by blast
    then show ?thesis
    proof cases
      case 1
      with Cons less(2) show ?thesis by (simp add: parse_chars.simps)
    next
      case 2
      then obtain e q where cs: "cs = e # q"
        using Cons less(2) by (cases cs) (simp_all add: parse_chars.simps)
      obtain t r' where esc: "(if e = CHR ''u'' then unicode_escape q else map_option (\<lambda>x. ([x], q)) (simple_escape e)) = Some (t, r')"
        and rest: "map_option (\<lambda>(v, p). (t @ v, p)) (parse_chars r') = Some (v, r)"
        using less(2) Cons cs 2 parse_chars_escape [of e q] by (auto split: option.splits)
      have len: "length r' \<le> length q"
        using esc unicode_escape_length by (auto split: if_splits)
      from rest obtain v' where "parse_chars r' = Some (v', r)" by auto
      with ih [of r' v' r] len Cons cs show ?thesis by simp
    next
      case 3
      have "\<not> octet c < 32" using less(2) Cons 3 by (auto simp: parse_chars.simps)
      then obtain v' k where k: "parse_chars (drop k cs) = Some (v', r)"
        using that [of 0] less(2) [unfolded parse_chars.simps [of s]] Cons 3
        by (auto simp: Let_def split: if_splits)
      have "length r < length (drop k cs)" by (rule ih [OF _ k]) (simp add: Cons)
      then show ?thesis by (simp add: Cons)
    qed
  qed
qed

lemma digits1_length: "digits1 s = Some (d, r) \<Longrightarrow> length r < length s"
  by (cases s) (auto simp: Let_def split: if_splits intro: le_imp_less_Suc length_dropWhile_le)

lemma parse_number_length:
  assumes "parse_number s = Some (d, r)"
  shows "length r < length s"
proof -
  let ?sign = "case s of c # _ \<Rightarrow> if c = CHR ''-'' then [c] else [] | [] \<Rightarrow> []"
  obtain i r1 f r2 e where parts: "number_int (drop (length ?sign) s) = Some (i, r1)" "number_frac r1 = Some (f, r2)"
    "number_exp r2 = Some (e, r)"
    using assms by (auto simp: parse_number_def Let_def bind_eq_Some_conv)
  have "length r1 < length (drop (length ?sign) s)"
    using parts(1) by (auto simp: number_int_def simp del: digits1.simps split: list.splits if_splits dest!: digits1_length)
  moreover have "length r2 \<le> length r1"
    using parts(2) by (auto simp: number_frac_def simp del: digits1.simps split: list.splits if_splits dest!: digits1_length)
  moreover have "length r \<le> length r2"
    using parts(3) by (auto simp: number_exp_def simp del: digits1.simps split: list.splits if_splits dest!: digits1_length)
  ultimately show ?thesis by simp
qed

lemma parse_scalar_length: "parse_scalar s = Some (v, r) \<Longrightarrow> length r < length s"
proof -
  have pre: "HasPrefix s p \<Longrightarrow> p \<noteq> [] \<Longrightarrow> s \<noteq> []" for p by (auto simp: HasPrefix_def)
  show "parse_scalar s = Some (v, r) \<Longrightarrow> length r < length s"
    using pre [of "''true''"] pre [of "''false''"] pre [of "''null''"] parse_number_length
    by (auto simp: parse_scalar_def split: if_splits)
qed

lemma parse_length_all:
  "(\<forall>d s v r. parse_value n d s = Some (v, r) \<longrightarrow> length r < length s) \<and>
   (\<forall>d s fs r. parse_members n d s = Some (fs, r) \<longrightarrow> length r < length s) \<and>
   (\<forall>d s vs r. parse_elements n d s = Some (vs, r) \<longrightarrow> length r < length s)"
proof (induction n)
  case (Suc n)
  then have V: "parse_value n d s = Some (v, r) \<Longrightarrow> length r < length s"
    and M: "parse_members n d s = Some (fs, r) \<Longrightarrow> length r < length s"
    and E: "parse_elements n d s = Some (vs, r) \<Longrightarrow> length r < length s" for d s v r fs vs
    by blast+
  note short = skip_ws_Cons parse_chars_length parse_scalar_length V M E
  have "length r < length s" if "parse_value (Suc n) d s = Some (v, r)" for d s v r
    using that by (auto split: list.splits if_splits dest!: short)
  moreover have "length r < length s" if "parse_members (Suc n) d s = Some (fs, r)" for d s fs r
    using that by (auto split: list.splits if_splits option.splits dest!: short)
  moreover have "length r < length s" if "parse_elements (Suc n) d s = Some (vs, r)" for d s vs r
    using that by (auto split: list.splits if_splits option.splits dest!: short)
  ultimately show ?case by blast
qed simp

lemma parse_length:
  "parse_value n d s = Some (v, r) \<Longrightarrow> length r < length s"
  "parse_members n d s = Some (fs, r) \<Longrightarrow> length r < length s"
  "parse_elements n d s = Some (vs, r) \<Longrightarrow> length r < length s"
  using parse_length_all by blast+

subsection \<open>Fuel\<close>

lemma parse_fuel_all:
  "(\<forall>d s. 2 * length s < n \<longrightarrow> 2 * length s < m \<longrightarrow> parse_value n d s = parse_value m d s) \<and>
   (\<forall>d s. 2 * length s < n \<longrightarrow> 2 * length s < m \<longrightarrow> parse_members n d s = parse_members m d s) \<and>
   (\<forall>d s. Suc (2 * length s) < n \<longrightarrow> Suc (2 * length s) < m \<longrightarrow> parse_elements n d s = parse_elements m d s)"
proof (induction n arbitrary: m)
  case (Suc n)
  show ?case
  proof (cases m)
    case (Suc m')
    have V: "2 * length s < n \<Longrightarrow> 2 * length s < m' \<Longrightarrow> parse_value n d s = parse_value m' d s"
      and M: "2 * length s < n \<Longrightarrow> 2 * length s < m' \<Longrightarrow> parse_members n d s = parse_members m' d s"
      and E: "Suc (2 * length s) < n \<Longrightarrow> Suc (2 * length s) < m' \<Longrightarrow> parse_elements n d s = parse_elements m' d s" for d s
      using Suc.IH by blast+
    have "parse_value (Suc n) d s = parse_value (Suc m') d s" if "2 * length s < Suc n" "2 * length s < Suc m'" for d s
    proof -
      have "parse_members n (d + 1) (k # ks) = parse_members m' (d + 1) (k # ks)"
        "parse_elements n (d + 1) (k # ks) = parse_elements m' (d + 1) (k # ks)"
        if "skip_ws s = c # cs" "skip_ws cs = k # ks" for c cs k ks
        using skip_ws_Cons [OF that(1)] skip_ws_Cons [OF that(2)] \<open>2 * length s < Suc n\<close> \<open>2 * length s < Suc m'\<close>
        by (auto intro!: M E)
      then show ?thesis by (auto split: list.split)
    qed
    moreover have "parse_members (Suc n) d s = parse_members (Suc m') d s" if "2 * length s < Suc n" "2 * length s < Suc m'" for d s
    proof -
      have v: "parse_value n d r2 = parse_value m' d r2"
        if "skip_ws s = c # cs" "parse_chars cs = Some (k, r1)" "skip_ws r1 = e # r2" for c cs k r1 e r2
        using skip_ws_Cons [OF that(1)] parse_chars_length [OF that(2)] skip_ws_Cons [OF that(3)]
          \<open>2 * length s < Suc n\<close> \<open>2 * length s < Suc m'\<close> by (auto intro!: V)
      have "parse_members n d r4 = parse_members m' d r4"
        if "skip_ws s = c # cs" "parse_chars cs = Some (k, r1)" "skip_ws r1 = e # r2" "parse_value m' d r2 = Some (v, r3)"
          "skip_ws r3 = g # r4" for c cs k r1 e r2 v r3 g r4
        using skip_ws_Cons [OF that(1)] parse_chars_length [OF that(2)] skip_ws_Cons [OF that(3)] parse_length(1) [OF that(4)]
          skip_ws_Cons [OF that(5)] \<open>2 * length s < Suc n\<close> \<open>2 * length s < Suc m'\<close> by (auto intro!: M)
      with v show ?thesis by (auto split: list.split option.split)
    qed
    moreover have "parse_elements (Suc n) d s = parse_elements (Suc m') d s"
      if "Suc (2 * length s) < Suc n" "Suc (2 * length s) < Suc m'" for d s
    proof -
      have v: "parse_value n d s = parse_value m' d s" using that by (auto intro!: V)
      have "parse_elements n d r2 = parse_elements m' d r2"
        if "parse_value m' d s = Some (v, r1)" "skip_ws r1 = g # r2" for v r1 g r2
        using parse_length(1) [OF that(1)] skip_ws_Cons [OF that(2)] \<open>Suc (2 * length s) < Suc n\<close> \<open>Suc (2 * length s) < Suc m'\<close>
        by (auto intro!: E)
      with v show ?thesis by (auto split: list.split option.split)
    qed
    ultimately show ?thesis unfolding Suc by blast
  qed simp
qed simp

lemma parse_value_fuel:
  "2 * length s < n \<Longrightarrow> 2 * length s < m \<Longrightarrow> parse_value n d s = parse_value m d s"
  using parse_fuel_all by blast

subsection \<open>Reading what was written\<close>

lemma parse_chars_quote: "parse_chars (quote # r) = Some ([], r)"
  by (simp add: parse_chars.simps)

lemma parse_chars_plain:
  "c \<noteq> quote \<Longrightarrow> c \<noteq> backslash \<Longrightarrow> 32 \<le> octet c \<Longrightarrow> octet c < 128 \<Longrightarrow>
   parse_chars (c # r) = map_option (\<lambda>(v, q). (c # v, q)) (parse_chars r)"
  by (subst parse_chars.simps) (simp add: utf8_len_def)

lemma utf8_len_take:
  assumes "utf8_len s \<noteq> 0"
  shows "utf8_len (take (utf8_len s) s @ r) = utf8_len s"
proof -
  obtain a s1 where s: "s = a # s1" using assms by (cases s) (simp_all add: utf8_len_def)
  show ?thesis
  proof (cases "octet a < 128")
    case False
    then obtain b s2 where s1: "s1 = b # s2" using assms s by (cases s1) (simp_all add: utf8_len_def)
    consider "octet_in 194 223 a" | "\<not> octet_in 194 223 a" "octet_in 224 239 a"
      | "\<not> octet_in 194 223 a" "\<not> octet_in 224 239 a" "octet_in 240 244 a"
      using assms False unfolding s s1 utf8_len_def by (auto split: if_splits)
    then show ?thesis
    proof cases
      case 1
      then show ?thesis using assms False unfolding s s1 utf8_len_def by (simp split: if_split_asm)
    next
      case 2
      obtain c s3 where "s2 = c # s3" using 2 assms False unfolding s s1 utf8_len_def by (cases s2) (simp_all split: if_split_asm)
      then show ?thesis using 2 assms False unfolding s s1 utf8_len_def by (simp split: if_split_asm)
    next
      case 3
      obtain c d s3 where "s2 = c # d # s3"
        using 3 assms False unfolding s s1 utf8_len_def
        by (cases s2; cases "tl s2") (simp_all split: if_split_asm)
      then show ?thesis using 3 assms False unfolding s s1 utf8_len_def by (simp split: if_split_asm)
    qed
  qed (simp add: s utf8_len_def)
qed

lemma utf8_len_le: "utf8_len s \<le> length s"
  by (auto simp: utf8_len_def split: list.splits)

lemma parse_chars_rune:
  assumes "128 \<le> octet c" and k: "utf8_len (c # cs) \<noteq> 0"
  shows "parse_chars (take (utf8_len (c # cs)) (c # cs) @ r) =
    map_option (\<lambda>(v, q). (take (utf8_len (c # cs)) (c # cs) @ v, q)) (parse_chars r)"
proof -
  obtain p where p: "take (utf8_len (c # cs)) (c # cs) = c # p" using k by (cases "utf8_len (c # cs)") auto
  have "length (take (utf8_len (c # cs)) (c # cs)) = utf8_len (c # cs)" using utf8_len_le [of "c # cs"] by simp
  then have len: "utf8_len (c # p @ r) = Suc (length p)"
    using utf8_len_take [OF k, of r] unfolding p by simp
  have "c \<noteq> quote" "c \<noteq> backslash" "32 \<le> octet c" using assms(1) octet_plain by auto
  then show ?thesis unfolding p append_Cons by (subst parse_chars.simps) (simp add: len Let_def)
qed

lemma hex_digit_value: "d < 16 \<Longrightarrow> hex_value (hex_digit d) = Some d"
  by (auto simp: hex_value_def hex_digit_def octet_def Let_def)

lemma char_of_octet [simp]: "char_of (octet c) = c"
  by (simp add: octet_def)

lemma parse_escaped_ascii:
  assumes "octet c < 128"
  shows "parse_chars (json_ascii c @ r) = map_option (\<lambda>(v, q). (c # v, q)) (parse_chars r)"
proof -
  have short: "parse_chars (backslash # e # r) = map_option (\<lambda>(v, q). (c # v, q)) (parse_chars r)"
    if "e \<noteq> CHR ''u''" "simple_escape e = Some c" for e
    using that by (simp add: parse_chars_escape)
  have char: "c = char_of n" if "octet c = n" for n using that char_of_octet [of c] by simp
  consider "c = backslash \<or> c = quote" | "c \<noteq> backslash" "c \<noteq> quote" "octet c \<in> {8, 9, 10, 12, 13}"
    | "c \<noteq> backslash" "c \<noteq> quote" "octet c \<notin> {8, 9, 10, 12, 13}" "octet c < 32 \<or> c = CHR ''<'' \<or> c = CHR ''>'' \<or> c = CHR ''&''"
    | "c \<noteq> backslash" "c \<noteq> quote" "octet c \<notin> {8, 9, 10, 12, 13}" "\<not> (octet c < 32 \<or> c = CHR ''<'' \<or> c = CHR ''>'' \<or> c = CHR ''&'')"
    by blast
  then show ?thesis
  proof cases
    case 1
    have "c \<noteq> CHR ''u''" using 1 by (auto simp: backslash_def quote_def)
    with 1 short [of c] show ?thesis by (auto simp: json_ascii_def simple_escape_def Let_def)
  next
    case 2
    have se: "simple_escape CHR ''b'' = Some (char_of (8 :: nat))" "simple_escape CHR ''t'' = Some (char_of (9 :: nat))"
      "simple_escape CHR ''n'' = Some (char_of (10 :: nat))" "simple_escape CHR ''f'' = Some (char_of (12 :: nat))"
      "simple_escape CHR ''r'' = Some (char_of (13 :: nat))"
      by (simp_all add: simple_escape_def quote_def backslash_def)
    from 2(3) consider "octet c = 8" | "octet c = 9" | "octet c = 10" | "octet c = 12" | "octet c = 13" by auto
    then show ?thesis
      by cases (use 2(1,2) short [of "CHR ''b''"] short [of "CHR ''t''"] short [of "CHR ''n''"] short [of "CHR ''f''"]
          short [of "CHR ''r''"] se char in \<open>simp_all add: json_ascii_def Let_def\<close>)
  next
    case 3
    have esc: "json_ascii c = [backslash, CHR ''u'', CHR ''0'', CHR ''0'', hex_digit (octet c div 16), hex_digit (octet c mod 16)]"
      using 3 by (auto simp: json_ascii_def Let_def)
    have "hex4 (CHR ''0'' # CHR ''0'' # hex_digit (octet c div 16) # hex_digit (octet c mod 16) # r) = Some (octet c, r)"
      using assms hex_digit_value [of "octet c div 16"] hex_digit_value [of "octet c mod 16"]
      by (simp add: hex4_def hex_value_def [of "CHR ''0''"] octet_def [of "CHR ''0''"] Let_def)
    then have "unicode_escape (CHR ''0'' # CHR ''0'' # hex_digit (octet c div 16) # hex_digit (octet c mod 16) # r) = Some ([c], r)"
      using assms by (simp add: unicode_escape_def is_high_surrogate_def is_low_surrogate_def utf8_encode_def)
    then show ?thesis by (simp add: esc parse_chars_escape)
  next
    case 4
    then have "json_ascii c = [c]" by (simp add: json_ascii_def Let_def)
    with 4 assms parse_chars_plain [of c r] show ?thesis by simp
  qed
qed

lemma separator_chars:
  "char_of (56 :: nat) = CHR ''8''" "char_of (57 :: nat) = CHR ''9''"
  "char_of (0xA8 :: nat) = CHR 0xA8" "char_of (0xA9 :: nat) = CHR 0xA9"
  "char_of (0xE2 :: nat) = CHR 0xE2" "char_of (0x80 :: nat) = CHR 0x80"
  by code_simp+

lemma separator_encode:
  "utf8_encode 0x2028 = [CHR 0xE2, CHR 0x80, CHR 0xA8]" "utf8_encode 0x2029 = [CHR 0xE2, CHR 0x80, CHR 0xA9]"
  using separator_chars by (simp_all add: utf8_encode_def)

lemma parse_separator:
  assumes "h \<in> {8, 9 :: nat}"
  shows "parse_chars (backslash # ''u202'' @ char_of (48 + h) # r) =
    map_option (\<lambda>(v, q). ([CHR 0xE2, CHR 0x80, char_of (0xA0 + h)] @ v, q)) (parse_chars r)"
proof -
  have "hex4 (''202'' @ char_of (48 + h) # r) = Some (0x2020 + h, r)"
    using assms by (auto simp: hex4_def hex_value_def octet_def Let_def)
  then have "unicode_escape (''202'' @ char_of (48 + h) # r) = Some ([CHR 0xE2, CHR 0x80, char_of (0xA0 + h)], r)"
    using assms by (auto simp: unicode_escape_def is_high_surrogate_def is_low_surrogate_def separator_chars separator_encode)
  then show ?thesis by (simp add: parse_chars_escape)
qed

theorem parse_json_chars:
  "utf8_valid s \<Longrightarrow> parse_chars (json_chars s @ quote # rest) = Some (s, rest)"
proof (induction "length s" arbitrary: s rule: less_induct)
  case less
  show ?case
  proof (cases s)
    case Nil
    then show ?thesis by (simp add: parse_chars_quote)
  next
    case (Cons c cs)
    let ?k = "utf8_len (c # cs)"
    have k: "?k \<noteq> 0" and v: "utf8_valid (drop (?k - 1) cs)" using less(2) Cons by (auto simp: Let_def)
    have tail: "parse_chars (json_chars (drop (?k - 1) cs) @ quote # rest) = Some (drop (?k - 1) cs, rest)"
      using less(1) [OF _ v] Cons by simp
    have join: "take ?k (c # cs) @ drop (?k - 1) cs = c # cs" using k by (cases ?k) simp_all
    show ?thesis
    proof (cases "octet c < 128")
      case True
      then have "?k = 1" by (simp add: utf8_len_def)
      with True tail Cons show ?thesis by (simp add: parse_escaped_ascii)
    next
      case False
      consider "take ?k (c # cs) = [CHR 0xE2, CHR 0x80, CHR 0xA8]" | "take ?k (c # cs) = [CHR 0xE2, CHR 0x80, CHR 0xA9]"
        | "take ?k (c # cs) \<noteq> [CHR 0xE2, CHR 0x80, CHR 0xA8]" "take ?k (c # cs) \<noteq> [CHR 0xE2, CHR 0x80, CHR 0xA9]"
        by blast
      then show ?thesis
      proof cases
        case 1
        then have "json_chars s = backslash # ''u202'' @ char_of (48 + 8 :: nat) # json_chars (drop (?k - 1) cs)"
          using False k Cons by (simp only: json_chars.simps Let_def if_True if_False) (simp add: separator_chars)
        with parse_separator [of 8] tail join 1 Cons show ?thesis by (simp add: separator_chars)
      next
        case 2
        then have "json_chars s = backslash # ''u202'' @ char_of (48 + 9 :: nat) # json_chars (drop (?k - 1) cs)"
          using False k Cons by (simp only: json_chars.simps Let_def if_True if_False) (simp add: separator_chars)
        with parse_separator [of 9] tail join 2 Cons show ?thesis by (simp add: separator_chars)
      next
        case 3
        then have "json_chars s = take ?k (c # cs) @ json_chars (drop (?k - 1) cs)"
          using False k Cons by (simp only: json_chars.simps Let_def if_True if_False)
        moreover note parse_chars_rune [OF _ k, of "json_chars (drop (?k - 1) cs) @ quote # rest"]
        ultimately show ?thesis using False tail join Cons by simp
      qed
    qed
  qed
qed

lemma parse_json_string:
  "utf8_valid s \<Longrightarrow> 0 < n \<Longrightarrow> parse_value n d (json_string s @ rest) = Some (JString s, rest)"
  using parse_json_chars [of s rest]
  by (cases n) (simp_all add: json_string_def skip_ws_def json_space_def octet_def quote_def)

subsection \<open>Valid text\<close>

lemma utf8_len_append: "utf8_len a \<noteq> 0 \<Longrightarrow> utf8_len (a @ b) = utf8_len a"
  using utf8_len_take [of a "drop (utf8_len a) a @ b"] by (metis append_assoc append_take_drop_id)

lemma utf8_valid_append: "utf8_valid a \<Longrightarrow> utf8_valid (a @ b) = utf8_valid b"
proof (induction "length a" arbitrary: a rule: less_induct)
  case less
  show ?case
  proof (cases a)
    case (Cons c cs)
    let ?k = "utf8_len (c # cs)"
    have k: "?k \<noteq> 0" and v: "utf8_valid (drop (?k - 1) cs)" using less(2) Cons by (auto simp: Let_def)
    have "utf8_len (c # cs @ b) = ?k" using utf8_len_append [OF k, of b] by simp
    moreover have "drop (?k - 1) (cs @ b) = drop (?k - 1) cs @ b" using utf8_len_le [of "c # cs"] by simp
    moreover have "utf8_valid (drop (?k - 1) cs @ b) = utf8_valid b" using Cons by (intro less(1) [OF _ v]) simp
    ultimately show ?thesis using k Cons by (simp add: Let_def)
  qed simp
qed

lemma utf8_valid_ascii: "\<forall>c\<in>set s. octet c < 128 \<Longrightarrow> utf8_valid s"
  by (induction s) (simp_all add: utf8_len_def)

lemma hex_digit_ascii: "d < 16 \<Longrightarrow> octet (hex_digit d) < 128"
  by (auto simp: hex_digit_def octet_def)

lemma json_ascii_ascii: "octet c < 128 \<Longrightarrow> \<forall>x\<in>set (json_ascii c). octet x < 128"
  using hex_digit_ascii [of "octet c div 16"] hex_digit_ascii [of "octet c mod 16"]
  by (auto simp: json_ascii_def Let_def backslash_def quote_def octet_def)

lemma json_chars_valid: "utf8_valid s \<Longrightarrow> utf8_valid (json_chars s)"
proof (induction "length s" arbitrary: s rule: less_induct)
  case less
  show ?case
  proof (cases s)
    case (Cons c cs)
    let ?k = "utf8_len (c # cs)"
    have k: "?k \<noteq> 0" and v: "utf8_valid (drop (?k - 1) cs)" using less(2) Cons by (auto simp: Let_def)
    have tail: "utf8_valid (json_chars (drop (?k - 1) cs))" using Cons by (intro less(1) [OF _ v]) simp
    have rune: "utf8_valid (take ?k (c # cs))"
    proof -
      obtain p where p: "take ?k (c # cs) = c # p" using k by (cases ?k) auto
      have "length (take ?k (c # cs)) = ?k" using utf8_len_le [of "c # cs"] by simp
      then have "utf8_len (c # p) = Suc (length p)" using utf8_len_take [OF k, of "[]"] unfolding p by simp
      then show ?thesis unfolding p by (simp add: Let_def)
    qed
    have esc: "utf8_valid (backslash # ''u2028'')" "utf8_valid (backslash # ''u2029'')"
      by (rule utf8_valid_ascii; simp add: octet_def backslash_def)+
    show ?thesis
    proof (cases "octet c < 128")
      case True
      then have "?k = 1" by (simp add: utf8_len_def)
      with True tail Cons utf8_valid_append [OF utf8_valid_ascii [OF json_ascii_ascii [OF True]]] show ?thesis by simp
    next
      case False
      then have "json_chars s \<in> {(backslash # ''u2028'') @ json_chars (drop (?k - 1) cs),
          (backslash # ''u2029'') @ json_chars (drop (?k - 1) cs), take ?k (c # cs) @ json_chars (drop (?k - 1) cs)}"
        using k unfolding Cons json_chars.simps Let_def if_not_P [OF False] if_not_P [OF k] by simp
      then show ?thesis
        by (elim insertE emptyE) (simp_all only: utf8_valid_append [OF esc(1)] utf8_valid_append [OF esc(2)]
            utf8_valid_append [OF rune] tail)
    qed
  qed simp
qed

lemma json_string_valid: "utf8_valid s \<Longrightarrow> utf8_valid (json_string s)"
  using utf8_valid_append [OF json_chars_valid, of s "[quote]"] utf8_valid_append [of "[quote]" "json_chars s @ [quote]"]
  by (simp add: json_string_def utf8_len_def octet_def quote_def)

definition is_scalar :: "nat \<Rightarrow> bool" where
  "is_scalar r \<longleftrightarrow> r < 0xD800 \<or> 0xE000 \<le> r \<and> r < 0x110000"

lemma octet_char_of: "n < 256 \<Longrightarrow> octet (char_of n) = n"
  by (simp add: octet_def)

lemma base64_digits: "(r :: nat) = r div 4096 * 4096 + r div 64 mod 64 * 64 + r mod 64"
proof -
  have "r div 64 = r div 4096 * 64 + r div 64 mod 64"
    using div_mult_mod_eq [of "r div 64" 64] by (simp add: div_mult2_eq [symmetric])
  then show ?thesis using div_mult_mod_eq [of r 64] by linarith
qed

lemma utf8_encode_valid:
  assumes "is_scalar r"
  shows "utf8_valid (utf8_encode r)"
proof -
  consider "r < 128" | "128 \<le> r" "r < 2048" | "2048 \<le> r" "r < 65536" | "65536 \<le> r" by linarith
  then show ?thesis
  proof cases
    case 1
    then show ?thesis by (simp add: utf8_encode_def utf8_len_def octet_char_of)
  next
    case 2
    then have "r div 64 < 32" "2 \<le> r div 64" by auto
    with 2 show ?thesis by (simp add: utf8_encode_def utf8_len_def octet_in_def octet_char_of Let_def)
  next
    case 3
    define a b c where "a = r div 4096" and "b = r div 64 mod 64" and "c = r mod 64"
    have enc: "utf8_encode r = [char_of (224 + a), char_of (128 + b), char_of (128 + c)]"
      using 3 by (simp add: utf8_encode_def a_def b_def c_def)
    have r: "r = a * 4096 + b * 64 + c" unfolding a_def b_def c_def by (rule base64_digits)
    have lim: "a < 16" "b < 64" "c < 64" using 3 unfolding a_def b_def c_def by auto
    have lo: "32 \<le> b" if "a = 0" using 3 r lim that by simp
    have hi: "b \<le> 31" if "a = 13" using assms r lim that by (auto simp: is_scalar_def)
    have o: "octet (char_of (224 + a)) = 224 + a" "octet (char_of (128 + b)) = 128 + b" "octet (char_of (128 + c)) = 128 + c"
      using lim by (simp_all add: octet_char_of)
    have "utf8_len (utf8_encode r) = 3"
      using lim lo hi unfolding enc utf8_len_def octet_in_def by (cases "a = 0"; cases "a = 13") (simp_all add: o octet_char_of)
    then show ?thesis unfolding enc by (simp add: Let_def)
  next
    case 4
    define a b c d where "a = r div 262144" and "b = r div 4096 mod 64" and "c = r div 64 mod 64" and "d = r mod 64"
    have enc: "utf8_encode r = [char_of (240 + a), char_of (128 + b), char_of (128 + c), char_of (128 + d)]"
      using 4 by (simp add: utf8_encode_def a_def b_def c_def d_def)
    have "r div 4096 = a * 64 + b"
      using div_mult_mod_eq [of "r div 4096" 64] by (simp add: a_def b_def div_mult2_eq [symmetric])
    then have r: "r = a * 262144 + b * 4096 + c * 64 + d" using base64_digits [of r] unfolding c_def d_def by linarith
    have lim: "a < 5" "b < 64" "c < 64" "d < 64" using 4 assms unfolding a_def b_def c_def d_def is_scalar_def by auto
    have lo: "16 \<le> b" if "a = 0" using 4 r lim that by simp
    have hi: "b \<le> 15" if "a = 4" using assms r that by (auto simp: is_scalar_def)
    have o: "octet (char_of (240 + a)) = 240 + a" "octet (char_of (128 + b)) = 128 + b" "octet (char_of (128 + c)) = 128 + c"
      "octet (char_of (128 + d)) = 128 + d"
      using lim by (simp_all add: octet_char_of)
    have "utf8_len (utf8_encode r) = 4"
      using lim lo hi unfolding enc utf8_len_def octet_in_def by (cases "a = 0"; cases "a = 4") (simp_all add: o octet_char_of)
    then show ?thesis unfolding enc by (simp add: Let_def)
  qed
qed

lemma utf8_concat_valid: "\<forall>r\<in>set rs. is_scalar r \<Longrightarrow> utf8_valid (concat (map utf8_encode rs))"
  by (induction rs) (simp_all add: utf8_valid_append utf8_encode_valid)

subsection \<open>Writing a document and reading it back\<close>

text \<open>
  A document as a compact writer prints it.  A value can be written at depth \<open>d\<close> when its strings
  are UTF-8, its numbers are JSON numbers and it nests no deeper than the reader allows.
\<close>

fun json_text :: "Json \<Rightarrow> string"
  and json_elements :: "Json list \<Rightarrow> string"
  and json_members :: "(string \<times> Json) list \<Rightarrow> string" where
  "json_text JNull = ''null''"
| "json_text (JBool b) = (if b then ''true'' else ''false'')"
| "json_text (JNumber t) = t"
| "json_text (JString s) = json_string s"
| "json_text (JArray vs) = ''['' @ json_elements vs @ '']''"
| "json_text (JObject fs) = ''{'' @ json_members fs @ ''}''"
| "json_elements [] = []"
| "json_elements [v] = json_text v"
| "json_elements (v # w # vs) = json_text v @ '','' @ json_elements (w # vs)"
| "json_members [] = []"
| "json_members [(k, v)] = json_string k @ '':'' @ json_text v"
| "json_members ((k, v) # f # fs) = json_string k @ '':'' @ json_text v @ '','' @ json_members (f # fs)"

fun json_wf :: "int \<Rightarrow> Json \<Rightarrow> bool" where
  "json_wf d JNull = True"
| "json_wf d (JBool b) = True"
| "json_wf d (JNumber t) = (parse_number t = Some (t, []))"
| "json_wf d (JString s) = utf8_valid s"
| "json_wf d (JArray vs) = (d < maxNestingDepth \<and> list_all (json_wf (d + 1)) vs)"
| "json_wf d (JObject fs) = (d < maxNestingDepth \<and> list_all (\<lambda>(k, v). utf8_valid k \<and> json_wf (d + 1) v) fs)"

definition delimiter :: "char \<Rightarrow> bool" where
  "delimiter c \<longleftrightarrow> c = CHR '','' \<or> c = CHR '']'' \<or> c = CHR ''}''"

definition ends_value :: "string \<Rightarrow> bool" where
  "ends_value r \<longleftrightarrow> (case r of [] \<Rightarrow> True | c # _ \<Rightarrow> delimiter c)"

lemma delimiter_plain:
  "delimiter c \<Longrightarrow> \<not> is_digit c \<and> c \<noteq> CHR ''.'' \<and> c \<noteq> CHR ''e'' \<and> c \<noteq> CHR ''E'' \<and> c \<noteq> CHR ''-'' \<and> \<not> json_space c"
  by (auto simp: delimiter_def is_digit_def json_space_def octet_def)

lemma digits1_append:
  assumes "digits1 s = Some (d, r)" and "ends_value q"
  shows "digits1 (s @ q) = Some (d, r @ q)"
proof -
  have "takeWhile is_digit q = []" "dropWhile is_digit q = q"
    using assms(2) delimiter_plain by (auto simp: ends_value_def split: list.splits)
  then have "takeWhile is_digit (s @ q) = takeWhile is_digit s" "dropWhile is_digit (s @ q) = dropWhile is_digit s @ q"
    by (auto simp: takeWhile_append dropWhile_append intro: takeWhile_eq_all_conv [THEN iffD2, symmetric])
  with assms(1) show ?thesis by (auto simp: Let_def split: if_splits)
qed

lemma number_int_append:
  assumes "number_int s = Some (d, r)" and "ends_value q"
  shows "number_int (s @ q) = Some (d, r @ q)"
proof -
  obtain c cs where s: "s = c # cs" using assms(1) by (cases s) (simp_all add: number_int_def)
  show ?thesis
    using assms(1) digits1_append [OF _ assms(2), of s d r]
    by (cases "c = CHR ''0''") (simp_all add: s number_int_def del: digits1.simps)
qed

lemma ends_value_Cons:
  assumes "ends_value q"
  obtains "q = []" | c cs where "q = c # cs" "delimiter c"
  using assms by (cases q) (simp_all add: ends_value_def)

lemma number_frac_append:
  assumes "number_frac s = Some (d, r)" and "ends_value q"
  shows "number_frac (s @ q) = Some (d, r @ q)"
proof (cases s)
  case Nil
  then show ?thesis using assms(1)
    by (cases rule: ends_value_Cons [OF assms(2)]) (simp_all add: number_frac_def delimiter_plain)
next
  case (Cons c cs)
  show ?thesis
  proof (cases "c = CHR ''.''")
    case True
    then obtain e where "digits1 cs = Some (e, r)" "d = c # e"
      using assms(1) Cons by (auto simp: number_frac_def simp del: digits1.simps)
    with True Cons digits1_append [OF this(1) assms(2)] show ?thesis by (simp add: number_frac_def del: digits1.simps)
  next
    case False
    with assms(1) Cons show ?thesis by (auto simp: number_frac_def)
  qed
qed

lemma number_exp_append:
  assumes "number_exp s = Some (d, r)" and "ends_value q"
  shows "number_exp (s @ q) = Some (d, r @ q)"
proof (cases s)
  case Nil
  then show ?thesis using assms(1)
    by (cases rule: ends_value_Cons [OF assms(2)]) (simp_all add: number_exp_def delimiter_plain)
next
  case (Cons c cs)
  show ?thesis
  proof (cases "c = CHR ''e'' \<or> c = CHR ''E''")
    case True
    then obtain g t where cs: "cs = g # t" using assms(1) Cons by (cases cs) (simp_all add: number_exp_def)
    let ?p = "if g = CHR ''+'' \<or> g = CHR ''-'' then t else cs"
    obtain e where e: "digits1 ?p = Some (e, r)" "d = (if g = CHR ''+'' \<or> g = CHR ''-'' then c # g # e else c # e)"
      using assms(1) Cons True cs by (auto simp: number_exp_def simp del: digits1.simps split: if_splits)
    from e(2) digits1_append [OF e(1) assms(2)] True Cons cs show ?thesis
      by (auto simp: number_exp_def simp del: digits1.simps split: if_splits)
  next
    case False
    with assms(1) Cons show ?thesis by (auto simp: number_exp_def)
  qed
qed

lemma parse_number_append:
  assumes "parse_number s = Some (d, r)" and "ends_value q"
  shows "parse_number (s @ q) = Some (d, r @ q)"
proof -
  let ?sign = "\<lambda>s. case s of c # _ \<Rightarrow> if c = CHR ''-'' then [c] else [] | [] \<Rightarrow> []"
  obtain i r1 f r2 e where parts: "number_int (drop (length (?sign s)) s) = Some (i, r1)" "number_frac r1 = Some (f, r2)"
    "number_exp r2 = Some (e, r)" "d = ?sign s @ i @ f @ e"
    using assms(1) by (auto simp: parse_number_def Let_def bind_eq_Some_conv)
  then obtain c cs where s: "s = c # cs" by (cases s) (simp_all add: number_int_def)
  have "number_int (drop (length (?sign s)) s @ q) = Some (i, r1 @ q)" by (rule number_int_append [OF parts(1) assms(2)])
  moreover have "drop (length (?sign (s @ q))) (s @ q) = drop (length (?sign s)) s @ q" "?sign (s @ q) = ?sign s"
    using s by simp_all
  ultimately show ?thesis
    using number_frac_append [OF parts(2) assms(2)] number_exp_append [OF parts(3) assms(2)] parts(4)
    by (simp add: parse_number_def Let_def)
qed

lemma number_first:
  assumes "parse_number t = Some (t, [])"
  obtains c cs where "t = c # cs" "c = CHR ''-'' \<or> is_digit c"
proof -
  obtain c cs where t: "t = c # cs" using assms by (cases t) (simp_all add: parse_number_def number_int_def)
  have "is_digit CHR ''0''" by (simp add: is_digit_def)
  then have "c = CHR ''-'' \<or> is_digit c"
    using assms t by (auto simp: parse_number_def number_int_def Let_def split: if_splits)
  with t that show ?thesis by blast
qed

lemma parse_number_token:
  assumes "parse_number t = Some (t, [])" and "ends_value q"
  shows "parse_value (Suc n) d (t @ q) = Some (JNumber t, q)"
proof -
  obtain c cs where t: "t = c # cs" and c: "c = CHR ''-'' \<or> is_digit c" using number_first [OF assms(1)] by blast
  have "\<not> json_space c" "c \<noteq> quote" "c \<noteq> CHR ''{''" "c \<noteq> CHR ''[''" "c \<noteq> CHR ''t''" "c \<noteq> CHR ''f''" "c \<noteq> CHR ''n''"
    using c by (auto simp: is_digit_def json_space_def octet_def quote_def)
  with parse_number_append [OF assms] t show ?thesis
    by (simp add: skip_ws_def parse_scalar_def HasPrefix_def)
qed

lemma parse_word:
  assumes "w \<in> {''true'', ''false'', ''null''}"
  shows "parse_value (Suc n) d (w @ q) = Some (if w = ''null'' then JNull else JBool (w = ''true''), q)"
  using assms by (auto simp: skip_ws_def json_space_def octet_def quote_def parse_scalar_def HasPrefix_def)

lemma json_text_first:
  assumes "json_wf d v"
  obtains c cs where "json_text v = c # cs" "\<not> json_space c" "c \<noteq> CHR '']''"
proof (cases v)
  case (JNumber t)
  with assms obtain c cs where "t = c # cs" "c = CHR ''-'' \<or> is_digit c" using number_first by (metis json_wf.simps(3))
  moreover from this(2) have "\<not> json_space c" "c \<noteq> CHR '']''" by (auto simp: is_digit_def json_space_def octet_def)
  ultimately show ?thesis using that [of c cs] JNumber by simp
next
  case (JBool b)
  then show ?thesis using that by (cases b) (simp_all add: json_space_def octet_def)
qed (use that in \<open>simp_all add: json_string_def quote_def json_space_def octet_def\<close>)

lemma json_elements_first:
  assumes "json_wf d v"
  obtains c cs where "json_elements (v # vs) = c # cs" "\<not> json_space c" "c \<noteq> CHR '']''"
proof -
  obtain c cs where c: "json_text v = c # cs" "\<not> json_space c" "c \<noteq> CHR '']''" using json_text_first [OF assms] .
  then show ?thesis using that by (cases vs) auto
qed

lemma parse_array:
  assumes "parse_elements n (d + 1) (json_elements (v # vs) @ r) = Some (xs, q)" and "json_wf e v" and "d < maxNestingDepth"
  shows "parse_value (Suc n) d (''['' @ json_elements (v # vs) @ r) = Some (JArray xs, q)"
proof -
  obtain c cs where "json_elements (v # vs) = c # cs" "\<not> json_space c" "c \<noteq> CHR '']''" using json_elements_first [OF assms(2)] .
  with assms(1,3) show ?thesis by (simp add: skip_ws_def json_space_def octet_def quote_def)
qed

lemma parse_object:
  assumes "parse_members n (d + 1) (json_string k @ r) = Some (fs, q)" and "d < maxNestingDepth"
  shows "parse_value (Suc n) d (''{'' @ json_string k @ r) = Some (JObject fs, q)"
  using assms by (simp add: skip_ws_def json_space_def octet_def quote_def json_string_def)

lemma parse_member:
  assumes "utf8_valid k"
  shows "parse_members (Suc n) d (json_string k @ '':'' @ r) =
    (case parse_value n d r of
       None \<Rightarrow> None
     | Some (v, r3) \<Rightarrow>
       (case skip_ws r3 of
          [] \<Rightarrow> None
        | g # r4 \<Rightarrow>
            if g = CHR ''}'' then Some ([(k, v)], r4)
            else if g = CHR '','' then map_option (\<lambda>(fs, r). ((k, v) # fs, r)) (parse_members n d r4)
            else None))"
  using parse_json_chars [OF assms, of "CHR '':'' # r"]
  by (simp add: skip_ws_def json_space_def octet_def quote_def json_string_def)

lemma json_members_first: "\<exists>r. json_members ((k, v) # fs) = json_string k @ r"
  by (cases fs) auto

lemma skip_delimiter: "delimiter c \<Longrightarrow> skip_ws (c # r) = c # r"
  using delimiter_plain by (simp add: skip_ws_def)

lemma parse_json_text_all:
  "2 * length (json_text v @ q) < n \<Longrightarrow> json_wf d v \<Longrightarrow> ends_value q \<Longrightarrow>
     parse_value n d (json_text v @ q) = Some (v, q)"
  "Suc (2 * length (json_elements vs @ '']'' @ q)) < n \<Longrightarrow> list_all (json_wf d) vs \<Longrightarrow> vs \<noteq> [] \<Longrightarrow>
     parse_elements n d (json_elements vs @ '']'' @ q) = Some (vs, q)"
  "2 * length (json_members fs @ ''}'' @ q) < n \<Longrightarrow> list_all (\<lambda>(k, v). utf8_valid k \<and> json_wf d v) fs \<Longrightarrow> fs \<noteq> [] \<Longrightarrow>
     parse_members n d (json_members fs @ ''}'' @ q) = Some (fs, q)"
proof (induction v and vs and fs arbitrary: n d q and n d q and n d q rule: json_text_json_elements_json_members.induct)
  case (1 n d q)
  then show ?case using parse_word [of "''null''" "n - 1" d q] by (cases n) simp_all
next
  case (2 b n d q)
  then show ?case using parse_word [of "if b then ''true'' else ''false''" "n - 1" d q] by (cases n) (simp_all split: if_splits)
next
  case (3 t n d q)
  then show ?case using parse_number_token [of t q "n - 1" d] by (cases n) simp_all
next
  case (4 s n d q)
  then show ?case using parse_json_string [of s n d q] by simp
next
  case (5 vs n d q)
  obtain m where n: "n = Suc m" using 5(2) by (cases n) simp_all
  show ?case
  proof (cases vs)
    case Nil
    then show ?thesis using n 5(3) by (simp add: skip_ws_def json_space_def octet_def quote_def)
  next
    case (Cons v ws)
    have "parse_elements m (d + 1) (json_elements vs @ '']'' @ q) = Some (vs, q)"
      using 5(2,3) n Cons by (intro 5(1)) simp_all
    from parse_array [OF this [unfolded Cons], of "d + 1"] 5(3) n Cons show ?thesis by simp
  qed
next
  case (6 fs n d q)
  obtain m where n: "n = Suc m" using 6(2) by (cases n) simp_all
  show ?case
  proof (cases fs)
    case Nil
    then show ?thesis using n 6(3) by (simp add: skip_ws_def json_space_def octet_def quote_def)
  next
    case (Cons f gs)
    obtain k v r where f: "f = (k, v)" "json_members ((k, v) # gs) = json_string k @ r"
      using json_members_first by (metis surj_pair)
    have "parse_members m (d + 1) (json_members fs @ ''}'' @ q) = Some (fs, q)"
      using 6(2,3) n Cons by (intro 6(1)) simp_all
    from parse_object [OF this [unfolded Cons f append_assoc]] 6(3) n Cons f show ?thesis by simp
  qed
next
  case 7
  then show ?case by simp
next
  case (8 v n d q)
  obtain m where n: "n = Suc m" using 8(2) by (cases n) simp_all
  have "parse_value m d (json_text v @ '']'' @ q) = Some (v, '']'' @ q)"
    using 8(2,3) n by (intro 8(1)) (simp_all add: ends_value_def delimiter_def)
  then show ?case using n skip_delimiter [of "CHR '']''" q] by (simp add: delimiter_def)
next
  case (9 v w vs n d q)
  obtain m where n: "n = Suc m" using 9(3) by (cases n) simp_all
  have v: "parse_value m d (json_text v @ '','' @ json_elements (w # vs) @ '']'' @ q) = Some (v, '','' @ json_elements (w # vs) @ '']'' @ q)"
    using 9(3,4) n by (intro 9(1)) (simp_all add: ends_value_def delimiter_def)
  have "parse_elements m d (json_elements (w # vs) @ '']'' @ q) = Some (w # vs, q)"
    using 9(3,4) n by (intro 9(2)) simp_all
  with v show ?case using n skip_delimiter [of "CHR '',''"] by (simp add: delimiter_def)
next
  case 10
  then show ?case by simp
next
  case (11 k v n d q)
  obtain m where n: "n = Suc m" using 11(2) by (cases n) simp_all
  have "parse_value m d (json_text v @ ''}'' @ q) = Some (v, ''}'' @ q)"
    using 11(2,3) n by (intro 11(1)) (simp_all add: ends_value_def delimiter_def)
  then show ?case using n 11(3) parse_member [of k m d "json_text v @ ''}'' @ q"] skip_delimiter [of "CHR ''}''" q]
    by (simp add: delimiter_def)
next
  case (12 k v f fs n d q)
  obtain m where n: "n = Suc m" using 12(3) by (cases n) simp_all
  have v: "parse_value m d (json_text v @ '','' @ json_members (f # fs) @ ''}'' @ q) = Some (v, '','' @ json_members (f # fs) @ ''}'' @ q)"
    using 12(3,4) n by (intro 12(1)) (simp_all add: ends_value_def delimiter_def)
  have "parse_members m d (json_members (f # fs) @ ''}'' @ q) = Some (f # fs, q)"
    using 12(3,4) n by (intro 12(2)) simp_all
  with v show ?case
    using n 12(4) parse_member [of k m d "json_text v @ '','' @ json_members (f # fs) @ ''}'' @ q"] skip_delimiter [of "CHR '',''"]
    by (simp add: delimiter_def)
qed

theorem json_document_text: "json_wf 0 v \<Longrightarrow> json_document (json_text v) = Some v"
  using parse_json_text_all(1) [of v "[]" "Suc (2 * length (json_text v))" 0]
  by (simp add: json_document_def ends_value_def skip_ws_def)

lemma digits1_ascii: "digits1 s = Some (d, r) \<Longrightarrow> \<forall>c\<in>set d. octet c < 128"
  by (auto simp: Let_def is_digit_def octet_def split: if_splits dest!: set_takeWhileD)

lemma parse_number_ascii: "parse_number s = Some (d, r) \<Longrightarrow> \<forall>c\<in>set d. octet c < 128"
proof -
  have int: "\<forall>c\<in>set d. octet c < 128" if "number_int s = Some (d, r)" for s d r
    using that digits1_ascii [of s d r]
    by (auto simp: number_int_def octet_def simp del: digits1.simps split: list.splits if_splits)
  have frac: "\<forall>c\<in>set d. octet c < 128" if "number_frac s = Some (d, r)" for s d r
    using that by (auto simp: number_frac_def octet_def simp del: digits1.simps split: list.splits if_splits
        dest!: digits1_ascii [unfolded octet_def])
  have exp: "\<forall>c\<in>set d. octet c < 128" if "number_exp s = Some (d, r)" for s d r
    using that by (auto simp: number_exp_def octet_def simp del: digits1.simps split: list.splits if_splits
        dest!: digits1_ascii [unfolded octet_def])
  have sign: "\<forall>c\<in>set (case s of c # _ \<Rightarrow> if c = CHR ''-'' then [c] else [] | [] \<Rightarrow> []). octet c < 128"
    by (auto simp: octet_def split: list.splits)
  show "parse_number s = Some (d, r) \<Longrightarrow> \<forall>c\<in>set d. octet c < 128"
    using sign by (auto simp: parse_number_def Let_def bind_eq_Some_conv simp del: digits1.simps
        dest!: int frac exp)
qed

lemma utf8_valid_Cons_ascii: "octet c < 128 \<Longrightarrow> utf8_valid (c # s) = utf8_valid s"
  by (simp add: utf8_len_def)

lemma json_text_valid:
  "json_wf d v \<Longrightarrow> utf8_valid (json_text v)"
  "list_all (json_wf d) vs \<Longrightarrow> utf8_valid (json_elements vs)"
  "list_all (\<lambda>(k, v). utf8_valid k \<and> json_wf d v) fs \<Longrightarrow> utf8_valid (json_members fs)"
proof (induction v and vs and fs arbitrary: d and d and d rule: json_text_json_elements_json_members.induct)
  case (3 t)
  then show ?case using parse_number_ascii utf8_valid_ascii by (metis json_text.simps(3) json_wf.simps(3))
next
  case (5 vs d)
  then have "utf8_valid (json_elements vs)" by (intro 5(1) [of "d + 1"]) simp
  then show ?case by (simp add: utf8_valid_append utf8_valid_Cons_ascii octet_def del: utf8_valid.simps(2))
next
  case (6 fs d)
  then have "utf8_valid (json_members fs)" by (intro 6(1) [of "d + 1"]) simp
  then show ?case by (simp add: utf8_valid_append utf8_valid_Cons_ascii octet_def del: utf8_valid.simps(2))
next
  case (9 v w vs d)
  have "utf8_valid (json_text v)" using 9(3) by (intro 9(1) [of d]) simp
  moreover have "utf8_valid (json_elements (w # vs))" using 9(3) by (intro 9(2) [of d]) simp
  ultimately show ?case by (simp add: utf8_valid_append utf8_valid_Cons_ascii octet_def del: utf8_valid.simps(2))
next
  case (11 k v d)
  have "utf8_valid (json_text v)" using 11(2) by (intro 11(1) [of d]) simp
  moreover have "utf8_valid (json_string k)" using 11(2) by (simp add: json_string_valid)
  ultimately show ?case by (simp add: utf8_valid_append utf8_valid_Cons_ascii octet_def del: utf8_valid.simps(2))
next
  case (12 k v f fs d)
  have "utf8_valid (json_text v)" using 12(3) by (intro 12(1) [of d]) simp
  moreover have "utf8_valid (json_members (f # fs))" using 12(3) by (intro 12(2) [of d]) simp
  moreover have "utf8_valid (json_string k)" using 12(3) by (simp add: json_string_valid)
  ultimately show ?case by (simp add: utf8_valid_append utf8_valid_Cons_ascii octet_def del: utf8_valid.simps(2))
qed (simp_all add: json_string_valid utf8_len_def octet_def)

end
