(* ===== verification/Mcp_Acl.thy ===== *)
theory Mcp_Acl
  imports Attributes Filter_Registry Go_Json_Parse
begin

section \<open>The MCP tool access control\<close>

text \<open>
  \<open>extensions/epe/pkg/filters/mcpacl\<close>: the filter that admits or denies MCP tool calls.  It
  decides from the \<open>Mcp-Method\<close> and \<open>Mcp-Name\<close> headers where the protocol revision has them, and
  from the JSON-RPC message in the body otherwise.  The body is read after its content coding
  and its character encoding are undone.  The decompressors of \<open>compress/*\<close> are parameters: a
  reader is absent when its header is refused, and else it is the octets it yields with a flag
  for a stream that ends in an error.  The text of decoding errors and the log lines are not
  modelled.
\<close>

subsection \<open>The policy (\<open>filter.go\<close>)\<close>

record RuleEntry =
  re_Method :: string
  re_ToolNames :: "string list"
  re_Action :: string

record mcpacl_Config =
  mc_DefaultAction :: string
  mc_UnsupportedVersionAction :: string
  mc_DenyStatus :: "32 word"
  mc_DenyBody :: string
  mc_Rules :: "RuleEntry list"

definition actionAllow :: string where "actionAllow = ''allow''"
definition actionPassthrough :: string where "actionPassthrough = ''passthrough''"
definition defaultDenyStatus :: int where "defaultDenyStatus = 403"

fun evaluate_rules :: "string \<Rightarrow> RuleEntry list \<Rightarrow> string \<Rightarrow> string \<Rightarrow> string" where
  "evaluate_rules dflt [] method toolName = dflt"
| "evaluate_rules dflt (rule # rules) method toolName =
     (if re_Method rule \<noteq> method then evaluate_rules dflt rules method toolName
      else if re_ToolNames rule = [] then re_Action rule
      else if toolName = [] then evaluate_rules dflt rules method toolName
      else if toolName \<in> set (re_ToolNames rule) then re_Action rule
      else evaluate_rules dflt rules method toolName)"

definition mcpacl_evaluate :: "mcpacl_Config \<Rightarrow> string \<Rightarrow> string \<Rightarrow> string" where
  "mcpacl_evaluate cfg method toolName = evaluate_rules (mc_DefaultAction cfg) (mc_Rules cfg) method toolName"

definition denyReply :: "mcpacl_Config \<Rightarrow> Reply" where
  "denyReply cfg =
     (let status = sint (mc_DenyStatus cfg) in
      ReplyZero\<lparr>reply_Status := (if status = 0 then defaultDenyStatus else status), reply_Body := mc_DenyBody cfg\<rparr>)"

definition applyDefaultAction :: "mcpacl_Config \<Rightarrow> Action" where
  "applyDefaultAction cfg =
     (if mc_DefaultAction cfg = actionAllow then Continue [] else Stop (denyReply cfg))"

subsection \<open>Header values (\<open>headers.go\<close>)\<close>

definition base64SentinelPrefix :: string where "base64SentinelPrefix = ''=?base64?''"
definition base64SentinelSuffix :: string where "base64SentinelSuffix = ''?=''"

fun canonicalBase64 :: "string \<Rightarrow> bool" where
  "canonicalBase64 [] = True"
| "canonicalBase64 (a # b # c # d # rest) =
     (let letter = (\<lambda>x. base64_value x \<noteq> None) in
      letter a \<and> letter b \<and>
      ((c = CHR ''='' \<and> d = CHR ''='' \<and> rest = []) \<or>
       (letter c \<and> d = CHR ''='' \<and> rest = []) \<or>
       (letter c \<and> letter d \<and> canonicalBase64 rest)))"
| "canonicalBase64 _ = False"

definition decodeMcpHeaderValue :: "string \<Rightarrow> string \<times> bool" where
  "decodeMcpHeaderValue v =
     (if \<not> HasPrefix v base64SentinelPrefix \<or> \<not> HasSuffix v base64SentinelSuffix then (v, True)
      else
        let tail = drop (length base64SentinelPrefix) v;
            encoded = (if HasSuffix tail base64SentinelSuffix
                       then take (length tail - length base64SentinelSuffix) tail else tail)
        in
          if \<not> canonicalBase64 encoded then (v, False)
          else
            (case base64_DecodeString encoded of
               None \<Rightarrow> (v, False)
             | Some decoded \<Rightarrow> if utf8_valid decoded then (decoded, True) else (v, False)))"

subsection \<open>Normalization of the body (\<open>normalize.go\<close>)\<close>

type_synonym reader = "bytes \<times> bool"

record Decoders =
  gzip_NewReader :: "bytes \<Rightarrow> reader option"
  zlib_NewReader :: "bytes \<Rightarrow> reader option"
  flate_NewReader :: "bytes \<Rightarrow> reader"

definition maxDecodedBodyBytes :: int where "maxDecodedBodyBytes = 8388608"
definition maxContentCodings :: nat where "maxContentCodings = 2"
definition contentEncodingHeader :: string where "contentEncodingHeader = ''content-encoding''"

definition header_value :: "(string \<rightharpoonup> string) \<Rightarrow> string \<Rightarrow> string" where
  "header_value headers name = (case headers name of None \<Rightarrow> [] | Some v \<Rightarrow> v)"

text \<open>
  \<open>strings.ToLower\<close> on text that is only compared with ASCII words: the two letters
  outside ASCII whose lower case is an ASCII letter are mapped, the others stay as they are.
\<close>

fun ToLowerText :: "string \<Rightarrow> string" where
  "ToLowerText [] = []"
| "ToLowerText (c # cs) =
     (if c = CHR 0xC4 \<and> take 1 cs = [CHR 0xB0] then CHR ''i'' # ToLowerText (drop 1 cs)
      else if c = CHR 0xE2 \<and> take 2 cs = [CHR 0x84, CHR 0xAA] then CHR ''k'' # ToLowerText (drop 2 cs)
      else ascii_lower c # ToLowerText cs)"

definition readCapped :: "reader \<Rightarrow> bytes option" where
  "readCapped r =
     (case r of (decoded, failed) \<Rightarrow>
        if int (length decoded) > maxDecodedBodyBytes then None else if failed then None else Some decoded)"

definition inflate :: "Decoders \<Rightarrow> bytes \<Rightarrow> bytes option" where
  "inflate dec body =
     (case zlib_NewReader dec body of
        Some zr \<Rightarrow> readCapped zr
      | None \<Rightarrow> readCapped (flate_NewReader dec body))"

fun undo_codings :: "Decoders \<Rightarrow> string list \<Rightarrow> bytes \<Rightarrow> bytes option" where
  "undo_codings dec [] body = Some body"
| "undo_codings dec (c # cs) body =
     (let coding = ToLowerText (UnicodeTrimSpace c) in
      if coding = [] \<or> coding = ''identity'' then undo_codings dec cs body
      else if coding = ''gzip'' \<or> coding = ''x-gzip'' then
        (case gzip_NewReader dec body of
           None \<Rightarrow> None
         | Some zr \<Rightarrow>
           (case readCapped zr of None \<Rightarrow> None | Some decoded \<Rightarrow> undo_codings dec cs decoded))
      else if coding = ''deflate'' then
        (case inflate dec body of None \<Rightarrow> None | Some decoded \<Rightarrow> undo_codings dec cs decoded)
      else None)"

definition decodeContentEncoding :: "Decoders \<Rightarrow> string \<Rightarrow> bytes \<Rightarrow> bytes option" where
  "decodeContentEncoding dec header body =
     (if UnicodeTrimSpace header = [] \<or> body = [] then Some body
      else
        let codings = SplitByte header CHR '','' in
        if length codings > maxContentCodings then None else undo_codings dec (rev codings) body)"

fun utf16_units :: "bool \<Rightarrow> bytes \<Rightarrow> nat list" where
  "utf16_units little (a # b # rest) =
     (if little then octet a + 256 * octet b else 256 * octet a + octet b) # utf16_units little rest"
| "utf16_units little _ = []"

definition utf16ToUTF8 :: "bytes \<Rightarrow> bool \<Rightarrow> bytes option" where
  "utf16ToUTF8 body little =
     (if odd (length body) then None else Some (utf16_decode (utf16_units little body)))"

definition bom_utf8 :: bytes where "bom_utf8 = [CHR 0xEF, CHR 0xBB, CHR 0xBF]"
definition bom_little :: bytes where "bom_little = [CHR 0xFF, CHR 0xFE]"
definition bom_big :: bytes where "bom_big = [CHR 0xFE, CHR 0xFF]"

definition decodeText :: "bytes \<Rightarrow> bytes option" where
  "decodeText body =
     (if HasPrefix body bom_utf8 then (let b = drop 3 body in if utf8_valid b then Some b else None)
      else if HasPrefix body bom_little then utf16ToUTF8 (drop 2 body) True
      else if HasPrefix body bom_big then utf16ToUTF8 (drop 2 body) False
      else if utf8_valid body then Some body else None)"

definition normalizeBody :: "Decoders \<Rightarrow> (string \<rightharpoonup> string) \<Rightarrow> bytes \<Rightarrow> bytes option" where
  "normalizeBody dec headers body =
     (case decodeContentEncoding dec (header_value headers contentEncodingHeader) body of
        None \<Rightarrow> None
      | Some decoded \<Rightarrow> decodeText decoded)"

subsection \<open>The message (\<open>parse.go\<close>)\<close>

definition mcpProtocolVersionHeader :: string where "mcpProtocolVersionHeader = ''mcp-protocol-version''"
definition mcpMethodHeader :: string where "mcpMethodHeader = ''mcp-method''"
definition mcpNameHeader :: string where "mcpNameHeader = ''mcp-name''"
definition gaMCPVersion :: string where "gaMCPVersion = ''2026-07-28''"

definition supportedMCPVersions :: "string list" where
  "supportedMCPVersions = [''2025-06-18'', ''2025-11-25'', ''2026-07-28'']"

definition governedMethods :: "string list" where
  "governedMethods = [''tools/call'']"

text \<open>The raw \<open>params.name\<close> is the value it holds; it is absent when there was none.\<close>

record jsonrpcRequest =
  rpc_Method :: string
  rpc_Name :: "Json option"

definition params_field :: "jsonrpcRequest \<Rightarrow> string \<Rightarrow> Json \<Rightarrow> jsonrpcRequest option" where
  "params_field r k v = (if json_key ''name'' k then Some (r\<lparr>rpc_Name := Some v\<rparr>) else Some r)"

definition request_field :: "jsonrpcRequest \<Rightarrow> string \<Rightarrow> Json \<Rightarrow> jsonrpcRequest option" where
  "request_field r k v =
     (if json_key ''method'' k then map_option (\<lambda>m. r\<lparr>rpc_Method := m\<rparr>) (unmarshal_string (rpc_Method r) v)
      else if json_key ''params'' k then unmarshal_struct params_field r v
      else Some r)"

datatype bodyStatus = statusAbsent | statusUnreadable | statusMessage

record bodyRead =
  br_status :: bodyStatus
  br_method :: string
  br_tool :: string
  br_hasTool :: bool

definition isBatchBody :: "bytes \<Rightarrow> bool" where
  "isBatchBody body = (case skip_ws body of c # _ \<Rightarrow> c = CHR ''['' | [] \<Rightarrow> False)"

definition no_message :: "bodyStatus \<Rightarrow> bodyRead" where
  "no_message status = \<lparr>br_status = status, br_method = [], br_tool = [], br_hasTool = False\<rparr>"

definition read_document :: "bytes \<Rightarrow> bodyRead" where
  "read_document body =
     (case Unmarshal (unmarshal_struct request_field) \<lparr>rpc_Method = [], rpc_Name = None\<rparr> body of
        None \<Rightarrow> no_message statusUnreadable
      | Some req \<Rightarrow>
          let tool = (case rpc_Name req of Some (JString t) \<Rightarrow> t | _ \<Rightarrow> []) in
          \<lparr>br_status = statusMessage, br_method = rpc_Method req, br_tool = tool, br_hasTool = (tool \<noteq> [])\<rparr>)"

definition readBody :: "Decoders \<Rightarrow> (string \<rightharpoonup> string) \<Rightarrow> bytes \<Rightarrow> bodyRead" where
  "readBody dec headers raw =
     (if UnicodeTrimSpace raw = [] then no_message statusAbsent
      else
        (case normalizeBody dec headers raw of
           None \<Rightarrow> no_message statusUnreadable
         | Some body \<Rightarrow>
             if UnicodeTrimSpace body = [] then no_message statusAbsent
             else if isBatchBody body then no_message statusUnreadable
             else read_document body))"

definition parseJSONRPCBody :: "Decoders \<Rightarrow> bytes \<Rightarrow> string \<times> string" where
  "parseJSONRPCBody dec body =
     (let r = readBody dec Map.empty body in
      if br_status r \<noteq> statusMessage then ([], []) else (br_method r, br_tool r))"

subsection \<open>The filter (\<open>filter.go\<close>)\<close>

definition mcpacl_OnRequestHeaders :: "mcpacl_Config RuleConfig \<Rightarrow> 'c Stream \<Rightarrow> Action" where
  "mcpacl_OnRequestHeaders rule st =
     (let headers = req_Headers (st_Request st); version = header_value headers mcpProtocolVersionHeader;
          method = header_value headers mcpMethodHeader; name = header_value headers mcpNameHeader
      in
        if version = gaMCPVersion \<and> method \<noteq> [] then
          if method \<notin> set governedMethods then Continue []
          else if name \<noteq> [] then
            (case decodeMcpHeaderValue name of
               (decoded, ok) \<Rightarrow>
                 if \<not> ok then NeedBody []
                 else if mcpacl_evaluate (rc_Cfg rule) method decoded \<noteq> actionAllow
                 then Stop (denyReply (rc_Cfg rule))
                 else NeedBody [])
          else NeedBody []
        else NeedBody [])"

definition header_confirms :: "(string \<rightharpoonup> string) \<Rightarrow> bodyRead \<Rightarrow> bool" where
  "header_confirms headers read =
     (let hMethod = header_value headers mcpMethodHeader;
          raw = header_value headers mcpNameHeader;
          hName = (if raw \<noteq> [] then (case decodeMcpHeaderValue raw of (decoded, ok) \<Rightarrow> if ok then decoded else raw) else raw)
      in hMethod \<noteq> [] \<and> hName \<noteq> [] \<and> hMethod = br_method read \<and> br_hasTool read \<and> hName = br_tool read)"

definition mcpacl_OnRequestBody :: "Decoders \<Rightarrow> mcpacl_Config RuleConfig \<Rightarrow> 'c Stream \<Rightarrow> Body \<Rightarrow> Action" where
  "mcpacl_OnRequestBody dec rule st body =
     (let headers = req_Headers (st_Request st); read = readBody dec headers (body_Bytes body); cfg = rc_Cfg rule;
          version = header_value headers mcpProtocolVersionHeader
      in
        if br_status read = statusUnreadable then applyDefaultAction cfg
        else if br_status read = statusAbsent \<or> br_method read \<notin> set governedMethods then Continue []
        else if version \<notin> set supportedMCPVersions then
          (if mc_UnsupportedVersionAction cfg = actionPassthrough then Continue [] else Stop (denyReply cfg))
        else if version = gaMCPVersion \<and> header_confirms headers read then Continue []
        else if \<not> br_hasTool read then applyDefaultAction cfg
        else if mcpacl_evaluate cfg (br_method read) (br_tool read) \<noteq> actionAllow then Stop (denyReply cfg)
        else Continue [])"

definition mcpacl_New :: "Decoders \<Rightarrow> mcpacl_Config RuleConfig \<Rightarrow> ('c, mcpacl_Config RuleConfig) Filter" where
  "mcpacl_New dec rule =
     (PassThrough rule)\<lparr>
       flt_OnRequestHeaders := (\<lambda>rule st. (Inr (mcpacl_OnRequestHeaders rule st), rule)),
       flt_OnRequestBody := (\<lambda>rule st body. (Inr (mcpacl_OnRequestBody dec rule st body), rule))\<rparr>"

definition mcpacl_Descriptor :: "Decoders \<Rightarrow> (mcpacl_Config, mcpacl_Config RuleConfig) Descriptor" where
  "mcpacl_Descriptor dec =
     \<lparr>d_Name = ''mcpacl'', d_Phases = PhaseRequestHeaders OR PhaseRequestBody,
      d_OnError = Some (Always FailClosed), d_SubscribesOf = None, d_New = Some (mcpacl_New dec)\<rparr>"

subsection \<open>The payload (\<open>schema.go\<close>)\<close>

record ruleSpec =
  rs_Method :: string
  rs_ToolNames :: "string slice"
  rs_Action :: string

record denyResponse =
  dr_StatusCode :: "32 word"
  dr_Body :: string

record mcpacl_spec =
  ms_DefaultAction :: string
  ms_UnsupportedVersionAction :: string
  ms_DenyResponse :: "denyResponse option"
  ms_Rules :: "ruleSpec slice"

definition rule_field :: "ruleSpec \<Rightarrow> string \<Rightarrow> Json \<Rightarrow> ruleSpec option" where
  "rule_field r k v =
     (if json_key ''method'' k then map_option (\<lambda>x. r\<lparr>rs_Method := x\<rparr>) (unmarshal_string (rs_Method r) v)
      else if json_key ''toolNames'' k
      then map_option (\<lambda>x. r\<lparr>rs_ToolNames := x\<rparr>) (unmarshal_slice unmarshal_string [] (rs_ToolNames r) v)
      else if json_key ''action'' k then map_option (\<lambda>x. r\<lparr>rs_Action := x\<rparr>) (unmarshal_string (rs_Action r) v)
      else Some r)"

definition deny_field :: "denyResponse \<Rightarrow> string \<Rightarrow> Json \<Rightarrow> denyResponse option" where
  "deny_field d k v =
     (if json_key ''statusCode'' k then map_option (\<lambda>x. d\<lparr>dr_StatusCode := x\<rparr>) (unmarshal_int32 (dr_StatusCode d) v)
      else if json_key ''body'' k then map_option (\<lambda>x. d\<lparr>dr_Body := x\<rparr>) (unmarshal_string (dr_Body d) v)
      else Some d)"

definition spec_field :: "mcpacl_spec \<Rightarrow> string \<Rightarrow> Json \<Rightarrow> mcpacl_spec option" where
  "spec_field s k v =
     (if json_key ''defaultAction'' k
      then map_option (\<lambda>x. s\<lparr>ms_DefaultAction := x\<rparr>) (unmarshal_string (ms_DefaultAction s) v)
      else if json_key ''unsupportedVersionAction'' k
      then map_option (\<lambda>x. s\<lparr>ms_UnsupportedVersionAction := x\<rparr>) (unmarshal_string (ms_UnsupportedVersionAction s) v)
      else if json_key ''denyResponse'' k
      then map_option (\<lambda>x. s\<lparr>ms_DenyResponse := x\<rparr>)
             (unmarshal_pointer (unmarshal_struct deny_field) \<lparr>dr_StatusCode = 0, dr_Body = []\<rparr> (ms_DenyResponse s) v)
      else if json_key ''rules'' k
      then map_option (\<lambda>x. s\<lparr>ms_Rules := x\<rparr>)
             (unmarshal_slice (unmarshal_struct rule_field) \<lparr>rs_Method = [], rs_ToolNames = ([], 0), rs_Action = []\<rparr>
               (ms_Rules s) v)
      else Some s)"

definition normalizeActions :: "mcpacl_Config \<Rightarrow> mcpacl_Config" where
  "normalizeActions cfg =
     (let norm = (\<lambda>s. ToLowerText (UnicodeTrimSpace s)) in
      cfg\<lparr>mc_DefaultAction := norm (mc_DefaultAction cfg),
          mc_UnsupportedVersionAction := norm (mc_UnsupportedVersionAction cfg),
          mc_Rules := map (\<lambda>r. r\<lparr>re_Action := norm (re_Action r)\<rparr>) (mc_Rules cfg)\<rparr>)"

definition mcpacl_parse :: "bytes \<Rightarrow> string + mcpacl_Config" where
  "mcpacl_parse raw =
     (case Unmarshal (unmarshal_struct spec_field)
             \<lparr>ms_DefaultAction = [], ms_UnsupportedVersionAction = [], ms_DenyResponse = None, ms_Rules = ([], 0)\<rparr> raw of
        None \<Rightarrow> Inl ''json''
      | Some s \<Rightarrow> Inr (normalizeActions
          \<lparr>mc_DefaultAction = ms_DefaultAction s,
           mc_UnsupportedVersionAction = ms_UnsupportedVersionAction s,
           mc_DenyStatus = (case ms_DenyResponse s of None \<Rightarrow> 0 | Some d \<Rightarrow> dr_StatusCode d),
           mc_DenyBody = (case ms_DenyResponse s of None \<Rightarrow> [] | Some d \<Rightarrow> dr_Body d),
           mc_Rules = map (\<lambda>r. \<lparr>re_Method = rs_Method r, re_ToolNames = slice_elems (rs_ToolNames r), re_Action = rs_Action r\<rparr>)
             (slice_elems (ms_Rules s))\<rparr>))"

definition mcpacl_Definition :: "Decoders \<Rightarrow> (mcpacl_Config, mcpacl_Config RuleConfig) Definition" where
  "mcpacl_Definition dec = Define (mcpacl_Descriptor dec) (Some mcpacl_parse)"

section \<open>What the filter admits\<close>

text \<open>
  The header phase and, when it asks for it, the body phase, through the interface the engine
  calls.
\<close>

definition mcpacl_run :: "Decoders \<Rightarrow> mcpacl_Config RuleConfig \<Rightarrow> 'c Stream \<Rightarrow> Body \<Rightarrow> string + Action" where
  "mcpacl_run dec rule st body =
     (case call_request_headers (mcpacl_New dec rule) st of
        (Inr a, f) \<Rightarrow> if act_kind a = KindNeedBody then fst (call_request_body f st body) else Inr a
      | (Inl e, f) \<Rightarrow> Inl e)"

lemma mcpacl_run_simp:
  "mcpacl_run dec rule st body =
     Inr (let a = mcpacl_OnRequestHeaders rule st in
          if act_kind a = KindNeedBody then mcpacl_OnRequestBody dec rule st body else a)"
  by (simp add: mcpacl_run_def mcpacl_New_def call_request_headers_def call_request_body_def PassThrough_def Let_def)

lemma action_kinds [simp]:
  "act_kind (NeedBody ms) = KindNeedBody" "act_kind (Continue ms) = KindContinue" "act_kind (Stop r) = KindStop"
  by (simp_all add: NeedBody_def Continue_def Stop_def)

abbreviation hdrs :: "'c Stream \<Rightarrow> string \<rightharpoonup> string" where
  "hdrs st \<equiv> req_Headers (st_Request st)"

text \<open>The verdict of the policy on a message, and a denial that the headers alone decide.\<close>

definition call_allowed :: "mcpacl_Config \<Rightarrow> bodyRead \<Rightarrow> bool" where
  "call_allowed cfg read \<longleftrightarrow>
     (if br_hasTool read then mcpacl_evaluate cfg (br_method read) (br_tool read) else mc_DefaultAction cfg) = actionAllow"






definition example_policy :: "mcpacl_Config RuleConfig" where
  "example_policy =
     \<lparr>rc_ID = \<lparr>uid_Scope = ''ns/p'', uid_Name = ''tools'', uid_Ordinal = 0\<rparr>,
      rc_Cfg = \<lparr>mc_DefaultAction = ''deny'', mc_UnsupportedVersionAction = [], mc_DenyStatus = 0, mc_DenyBody = ''no'',
        mc_Rules = [\<lparr>re_Method = ''tools/call'', re_ToolNames = [''read''], re_Action = ''allow''\<rparr>]\<rparr>,
      rc_Scope = None\<rparr>"

definition no_decoders :: Decoders where
  "no_decoders = \<lparr>gzip_NewReader = (\<lambda>_. None), zlib_NewReader = (\<lambda>_. None), flate_NewReader = (\<lambda>_. ([], True))\<rparr>"

section \<open>What the reader sees\<close>

lemma trim_nonspace: "space_len (c # cs) = 0 \<Longrightarrow> UnicodeTrimSpace (c # cs) \<noteq> []"
  by (simp add: UnicodeTrimSpace_def all_space_def Let_def)

lemma readBody_object:
  assumes "utf8_valid (CHR ''{'' # cs)" and "header_value headers contentEncodingHeader = []"
  shows "readBody dec headers (CHR ''{'' # cs) = read_document (CHR ''{'' # cs)"
proof -
  have "UnicodeTrimSpace (CHR ''{'' # cs) \<noteq> []"
    by (rule trim_nonspace) (simp add: space_len_def octet_def split: list.split)
  moreover have "decodeText (CHR ''{'' # cs) = Some (CHR ''{'' # cs)"
    using assms(1) by (simp add: decodeText_def HasPrefix_def bom_utf8_def bom_little_def bom_big_def)
  moreover have "UnicodeTrimSpace [] = []" by (simp add: UnicodeTrimSpace_def)
  ultimately show ?thesis
    by (simp add: readBody_def normalizeBody_def decodeContentEncoding_def assms(2) isBatchBody_def skip_ws_def
        json_space_def octet_def)
qed

text \<open>The values an object holds under a field, in their order.\<close>

definition values_of :: "string \<Rightarrow> (string \<times> Json) list \<Rightarrow> Json list" where
  "values_of field fs = map snd (filter (\<lambda>(k, v). json_key field k) fs)"

lemma values_of_simps [simp]:
  "values_of field [] = []"
  "values_of field ((k, v) # fs) = (if json_key field k then v # values_of field fs else values_of field fs)"
  by (simp_all add: values_of_def)

lemma params_members:
  "unmarshal_members params_field r ps =
     Some (r\<lparr>rpc_Name := if values_of ''name'' ps = [] then rpc_Name r else Some (last (values_of ''name'' ps))\<rparr>)"
  by (induction ps arbitrary: r) (auto simp: params_field_def split: if_splits)

lemma keys_apart: "json_key ''method'' k \<Longrightarrow> \<not> json_key ''params'' k"
  by (auto simp: json_key_def ascii_lower_def)

lemma request_members:
  assumes "values_of ''method'' fs \<in> {[], [JString m]}" and "values_of ''params'' fs \<in> {[], [JObject ps]}"
    and "values_of ''name'' ps = [x]"
  shows "unmarshal_members request_field r fs =
    Some \<lparr>rpc_Method = (if values_of ''method'' fs = [] then rpc_Method r else m),
          rpc_Name = (if values_of ''params'' fs = [] then rpc_Name r else Some x)\<rparr>"
  using assms(1,2)
proof (induction fs arbitrary: r)
  case Nil
  then show ?case by simp
next
  case (Cons f fs)
  obtain k v where f: "f = (k, v)" by (cases f)
  consider "json_key ''method'' k" "\<not> json_key ''params'' k" | "json_key ''params'' k" "\<not> json_key ''method'' k"
    | "\<not> json_key ''method'' k" "\<not> json_key ''params'' k"
    using keys_apart by blast
  then show ?case
  proof cases
    case 1
    then have "v = JString m" "values_of ''method'' fs = []" "values_of ''params'' fs \<in> {[], [JObject ps]}"
      using Cons(2,3) f by auto
    with 1 Cons(1) [of "r\<lparr>rpc_Method := m\<rparr>"] f show ?thesis by (simp add: request_field_def)
  next
    case 2
    then have "v = JObject ps" "values_of ''params'' fs = []" "values_of ''method'' fs \<in> {[], [JString m]}"
      using Cons(2,3) f by auto
    with 2 Cons(1) [of "r\<lparr>rpc_Name := Some x\<rparr>"] f assms(3) show ?thesis
      by (simp add: request_field_def params_members)
  next
    case 3
    with Cons f show ?thesis by (simp add: request_field_def)
  qed
qed

lemma read_tool_call:
  assumes "json_wf 0 (JObject fs)" and "values_of ''method'' fs = [JString m]" and "values_of ''params'' fs = [JObject ps]"
    and "values_of ''name'' ps = [JString t]" and "header_value headers contentEncodingHeader = []"
  shows "readBody dec headers (json_text (JObject fs)) =
    \<lparr>br_status = statusMessage, br_method = m, br_tool = t, br_hasTool = (t \<noteq> [])\<rparr>"
proof -
  have "readBody dec headers (json_text (JObject fs)) = read_document (json_text (JObject fs))"
    using readBody_object [OF _ assms(5), of "json_members fs @ ''}''"] json_text_valid(1) [OF assms(1)] by simp
  then show ?thesis
    using request_members [of fs m ps "JString t"] assms(2-4)
    by (simp add: read_document_def Unmarshal_def json_document_text [OF assms(1)] Let_def del: json_text.simps)
qed


definition example_members :: "string \<Rightarrow> (string \<times> Json) list" where
  "example_members t =
     [(''jsonrpc'', JString ''2.0''), (''PARAMS'', JObject [(''name'', JString t), (''arguments'', JObject [(''force'', JBool True)])]),
      (''method'', JString ''tools/call'')]"

lemma example_keys [simp]:
  "json_key ''method'' ''method''" "json_key ''params'' ''PARAMS''" "json_key ''name'' ''name''"
  "\<not> json_key ''method'' ''jsonrpc''" "\<not> json_key ''params'' ''jsonrpc''" "\<not> json_key ''method'' ''PARAMS''"
  "\<not> json_key ''params'' ''method''" "\<not> json_key ''name'' ''arguments''"
  by code_simp+

lemma example_values:
  "values_of ''method'' (example_members t) = [JString ''tools/call'']"
  "values_of ''params'' (example_members t) = [JObject [(''name'', JString t), (''arguments'', JObject [(''force'', JBool True)])]]"
  "values_of ''name'' [(''name'', JString t), (''arguments'', JObject [(''force'', JBool True)])] = [JString t]"
  by (simp_all add: example_members_def)




definition example_call :: "string \<Rightarrow> Body" where
  "example_call t = \<lparr>body_Bytes = json_text (JObject (example_members t)), body_Complete = True\<rparr>"

definition example_read :: "string \<Rightarrow> bodyRead" where
  "example_read t = \<lparr>br_status = statusMessage, br_method = ''tools/call'', br_tool = t, br_hasTool = (t \<noteq> [])\<rparr>"



section \<open>Character encodings\<close>

text \<open>
  The octets of a text in the encodings a receiver may detect: plain UTF-8, UTF-8 behind a byte
  order mark, and UTF-16 in either order behind its mark.
\<close>

definition utf8_text :: "nat list \<Rightarrow> bytes" where
  "utf8_text rs = concat (map utf8_encode rs)"

definition utf16_encode :: "nat \<Rightarrow> nat list" where
  "utf16_encode r = (if r < 0x10000 then [r] else [0xD800 + (r - 0x10000) div 0x400, 0xDC00 + (r - 0x10000) mod 0x400])"

definition unit_octets :: "bool \<Rightarrow> nat \<Rightarrow> bytes" where
  "unit_octets little u =
     (if little then [char_of (u mod 256), char_of (u div 256)] else [char_of (u div 256), char_of (u mod 256)])"

definition utf16_text :: "bool \<Rightarrow> nat list \<Rightarrow> bytes" where
  "utf16_text little rs = concat (map (unit_octets little) (concat (map utf16_encode rs)))"

definition encodings :: "nat list \<Rightarrow> bytes list" where
  "encodings rs = [utf8_text rs, bom_utf8 @ utf8_text rs, bom_little @ utf16_text True rs, bom_big @ utf16_text False rs]"

lemma utf16_encode_unit: "is_scalar r \<Longrightarrow> \<forall>u\<in>set (utf16_encode r). u < 0x10000"
  by (auto simp: utf16_encode_def is_scalar_def)

lemma utf16_units_octets:
  assumes "\<forall>u\<in>set us. u < 0x10000"
  shows "utf16_units little (concat (map (unit_octets little) us)) = us" "even (length (concat (map (unit_octets little) us)))"
proof -
  have "octet (char_of (u mod 256)) + 256 * octet (char_of (u div 256)) = u" if "u < 0x10000" for u :: nat
    using that by (simp add: octet_def less_mult_imp_div_less)
  then show "utf16_units little (concat (map (unit_octets little) us)) = us"
    using assms by (induction us; cases little) (simp_all add: unit_octets_def add.commute)
  show "even (length (concat (map (unit_octets little) us)))"
    by (induction us) (simp_all add: unit_octets_def)
qed

lemma surrogates_pair:
  assumes "0x10000 \<le> r" and "r < 0x110000"
  shows "is_high_surrogate (0xD800 + (r - 0x10000) div 0x400)" "is_low_surrogate (0xDC00 + (r - 0x10000) mod 0x400)"
    "surrogate_pair (0xD800 + (r - 0x10000) div 0x400) (0xDC00 + (r - 0x10000) mod 0x400) = r"
proof -
  have "(r - 0x10000) div 0x400 < 0x400" using assms by (simp add: less_mult_imp_div_less)
  then show "is_high_surrogate (0xD800 + (r - 0x10000) div 0x400)" by (simp add: is_high_surrogate_def)
  show "is_low_surrogate (0xDC00 + (r - 0x10000) mod 0x400)" by (simp add: is_low_surrogate_def)
  show "surrogate_pair (0xD800 + (r - 0x10000) div 0x400) (0xDC00 + (r - 0x10000) mod 0x400) = r"
    using div_mult_mod_eq [of "r - 0x10000" "0x400"] assms by (simp add: surrogate_pair_def)
qed

lemma utf16_decode_plain:
  "\<not> is_high_surrogate u \<Longrightarrow> \<not> is_low_surrogate u \<Longrightarrow> utf16_decode (u # us) = utf8_encode u @ utf16_decode us"
  by (cases us) simp_all

lemma utf16_decode_text:
  "\<forall>r\<in>set rs. is_scalar r \<Longrightarrow> utf16_decode (concat (map utf16_encode rs)) = utf8_text rs"
proof (induction rs)
  case (Cons r rs)
  show ?case
  proof (cases "r < 0x10000")
    case True
    then have "\<not> is_high_surrogate r" "\<not> is_low_surrogate r"
      using Cons(2) by (auto simp: is_scalar_def is_high_surrogate_def is_low_surrogate_def)
    with True Cons show ?thesis by (simp add: utf16_encode_def utf8_text_def utf16_decode_plain)
  next
    case False
    then have "0x10000 \<le> r" "r < 0x110000" using Cons(2) by (auto simp: is_scalar_def)
    from surrogates_pair [OF this] False Cons show ?thesis by (simp add: utf16_encode_def utf8_text_def)
  qed
qed (simp add: utf8_text_def)

lemma decode_utf16_text:
  assumes "\<forall>r\<in>set rs. is_scalar r"
  shows "utf16ToUTF8 (utf16_text little rs) little = Some (utf8_text rs)"
proof -
  have "\<forall>u\<in>set (concat (map utf16_encode rs)). u < 0x10000" using assms utf16_encode_unit by auto
  from utf16_units_octets [OF this, of little] utf16_decode_text [OF assms] show ?thesis
    by (simp add: utf16ToUTF8_def utf16_text_def)
qed

lemma char_of_eq_octet: "n < 256 \<Longrightarrow> char_of n = c \<longleftrightarrow> n = octet c"
  using octet_char_of by auto

lemma utf8_encode_marks:
  assumes "is_scalar r" and "r \<noteq> 0xFEFF"
  shows "\<not> HasPrefix (utf8_encode r @ t) bom_utf8 \<and> \<not> HasPrefix (utf8_encode r @ t) bom_little \<and> \<not> HasPrefix (utf8_encode r @ t) bom_big"
proof -
  consider "r < 128" | "128 \<le> r" "r < 2048" | "2048 \<le> r" "r < 65536" | "65536 \<le> r" by linarith
  then show ?thesis
  proof cases
    case 1
    then show ?thesis by (simp add: HasPrefix_def bom_utf8_def bom_little_def bom_big_def utf8_encode_def char_of_eq_octet octet_def)
  next
    case 2
    then have "r div 64 < 32" by auto
    with 2 show ?thesis by (simp add: HasPrefix_def bom_utf8_def bom_little_def bom_big_def utf8_encode_def char_of_eq_octet octet_def)
  next
    case 3
    then have lim: "r div 4096 < 16" "r div 64 mod 64 < 64" "r mod 64 < 64" by auto
    have "\<not> (r div 4096 = 15 \<and> r div 64 mod 64 = 59 \<and> r mod 64 = 63)"
      using assms(2) base64_digits [of r] by auto
    with 3 lim show ?thesis
      by (auto simp: HasPrefix_def bom_utf8_def bom_little_def bom_big_def utf8_encode_def char_of_eq_octet octet_def)
  next
    case 4
    then have "r div 262144 < 5" using assms(1) by (auto simp: is_scalar_def)
    with 4 show ?thesis by (simp add: HasPrefix_def bom_utf8_def bom_little_def bom_big_def utf8_encode_def char_of_eq_octet octet_def)
  qed
qed

lemma decodeText_encodings:
  assumes "\<forall>r\<in>set rs. is_scalar r" and "take 1 rs \<noteq> [0xFEFF]" and "b \<in> set (encodings rs)"
  shows "decodeText b = Some (utf8_text rs)"
proof -
  have valid: "utf8_valid (utf8_text rs)" using utf8_concat_valid [OF assms(1)] by (simp add: utf8_text_def)
  have plain: "\<not> HasPrefix (utf8_text rs) bom_utf8 \<and> \<not> HasPrefix (utf8_text rs) bom_little \<and> \<not> HasPrefix (utf8_text rs) bom_big"
  proof (cases rs)
    case Nil
    then show ?thesis by (simp add: utf8_text_def HasPrefix_def bom_utf8_def bom_little_def bom_big_def)
  next
    case (Cons r rs')
    with assms utf8_encode_marks [of r "utf8_text rs'"] show ?thesis by (simp add: utf8_text_def)
  qed
  from assms(3) consider "b = utf8_text rs" | "b = bom_utf8 @ utf8_text rs" | "b = bom_little @ utf16_text True rs"
    | "b = bom_big @ utf16_text False rs"
    by (auto simp: encodings_def)
  then show ?thesis
    by cases (use valid plain decode_utf16_text [OF assms(1)] in
        \<open>simp_all add: decodeText_def HasPrefix_def bom_utf8_def bom_little_def bom_big_def Let_def\<close>)
qed

lemma marked_text_is_not_blank:
  "UnicodeTrimSpace (bom_utf8 @ t) \<noteq> []" "UnicodeTrimSpace (bom_little @ t) \<noteq> []" "UnicodeTrimSpace (bom_big @ t) \<noteq> []"
  unfolding bom_utf8_def bom_little_def bom_big_def append_Cons
  by (rule trim_nonspace; simp add: space_len_def octet_def split: list.split)+

text \<open>
  C38: The encoding of a body cannot hide a call: a text of Unicode scalars that does not itself start
  with a byte order mark is read the same in plain UTF-8, in UTF-8 behind a mark, and in UTF-16 of
  either order behind its mark.
\<close>

theorem text_encoding_cannot_hide_a_call:
  assumes "\<forall>r\<in>set rs. is_scalar r" and "take 1 rs \<noteq> [0xFEFF]" and "b \<in> set (encodings rs)"
    and "header_value headers contentEncodingHeader = []"
  shows "readBody dec headers b = readBody dec headers (utf8_text rs)"
proof -
  have blank: "UnicodeTrimSpace [] = []" by (simp add: UnicodeTrimSpace_def)
  have norm: "normalizeBody dec headers x = Some (utf8_text rs)" if "x \<in> set (encodings rs)" for x
    using decodeText_encodings [OF assms(1,2) that] assms(4) blank by (simp add: normalizeBody_def decodeContentEncoding_def)
  have "UnicodeTrimSpace b = [] \<Longrightarrow> b = utf8_text rs"
    using assms(3) marked_text_is_not_blank by (auto simp: encodings_def)
  moreover have "utf8_text rs \<in> set (encodings rs)" by (simp add: encodings_def)
  ultimately show ?thesis using norm [OF assms(3)] norm [of "utf8_text rs"] by (simp add: readBody_def)
qed

theorem text_encoding_cannot_hide_a_call_witness:
  "readBody no_decoders Map.empty (bom_big @ utf16_text False [0x5B, 0x1F600, 0x5D]) =
   readBody no_decoders Map.empty (utf8_text [0x5B, 0x1F600, 0x5D])"
  by (rule text_encoding_cannot_hide_a_call) (simp_all add: is_scalar_def encodings_def header_value_def)

text \<open>
  An \<open>Mcp-Name\<close> that is not a valid sentinel is compared with the body as it stands.  When the
  body names a tool by that very text, the comparison passes for a confirmed allow, although no
  phase evaluated the policy.
\<close>

definition sentinel_stream :: "unit Stream" where
  "sentinel_stream =
     StreamZero\<lparr>st_Request := HTTPRequestZero\<lparr>req_Headers :=
       [''mcp-protocol-version'' \<mapsto> ''2026-07-28'', ''mcp-method'' \<mapsto> ''tools/call'', ''mcp-name'' \<mapsto> ''=?base64?!?='']\<rparr>\<rparr>"

lemma undecodable_sentinel_skips_the_policy:
  "mcpacl_run no_decoders example_policy sentinel_stream (example_call ''=?base64?!?='') = Inr (Continue []) \<and>
   \<not> call_allowed (rc_Cfg example_policy) (example_read ''=?base64?!?='')"
proof -
  have wf: "json_wf 0 (JObject (example_members ''=?base64?!?=''))"
    by (simp add: example_members_def maxNestingDepth_def utf8_len_def octet_def)
  have h: "header_value (hdrs sentinel_stream) contentEncodingHeader = []" by code_simp
  have r: "readBody no_decoders (hdrs sentinel_stream) (body_Bytes (example_call ''=?base64?!?='')) = example_read ''=?base64?!?=''"
    using read_tool_call [OF wf example_values h, of no_decoders] by (simp add: example_call_def example_read_def)
  have a: "act_kind (mcpacl_OnRequestHeaders example_policy sentinel_stream) = KindNeedBody" by code_simp
  have c: "header_confirms (hdrs sentinel_stream) (example_read ''=?base64?!?='')" by code_simp
  have v: "header_value (hdrs sentinel_stream) mcpProtocolVersionHeader = gaMCPVersion" by code_simp
  have "mcpacl_OnRequestBody no_decoders example_policy sentinel_stream (example_call ''=?base64?!?='') = Continue []"
    using r c v by (simp add: mcpacl_OnRequestBody_def Let_def)
      (simp add: example_read_def governedMethods_def gaMCPVersion_def supportedMCPVersions_def)
  moreover have "\<not> call_allowed (rc_Cfg example_policy) (example_read ''=?base64?!?='')" by code_simp
  ultimately show ?thesis using a by (simp add: mcpacl_run_simp Let_def)
qed

end
