(* ===== verification/Xds_Update.thy ===== *)
theory Xds_Update
  imports Go_Prelude "HOL-Library.AList" "HOL-Library.List_Lexorder" "HOL-Library.Char_ord"
begin

section \<open>Invalidation notices of the control plane\<close>

text \<open>
  The resources the control plane publishes (\<open>pkg/model/resource.go\<close>) and the notices its store
  sends to the streams (\<open>pkg/xds/store/update.go\<close>).  A notice names the resources to select again
  and keeps the names and the selection facts they had; notices that wait are merged.  A Go map
  is a map or, where it is iterated, an association list; a set of the \<open>sets\<close> package is a set.
  The lazily built index that \<open>ForWorkload\<close> shares between streams is a cache of the candidates and
  is left out.  Go orders strings by their octets, as the order on strings of the library does.
\<close>

subsection \<open>Resources (\<open>resource.go\<close>)\<close>

definition ClusterType :: string where "ClusterType = ''type.googleapis.com/envoy.config.cluster.v3.Cluster''"
definition EndpointType :: string where
  "EndpointType = ''type.googleapis.com/envoy.config.endpoint.v3.ClusterLoadAssignment''"
definition ListenerType :: string where "ListenerType = ''type.googleapis.com/envoy.config.listener.v3.Listener''"
definition RouteType :: string where "RouteType = ''type.googleapis.com/envoy.config.route.v3.RouteConfiguration''"
definition SecretType :: string where
  "SecretType = ''type.googleapis.com/envoy.extensions.transport_sockets.tls.v3.Secret''"
definition ExtensionConfigurationType :: string where
  "ExtensionConfigurationType = ''type.googleapis.com/envoy.config.core.v3.TypedExtensionConfig''"
definition ProxyConfigType :: string where "ProxyConfigType = ''type.googleapis.com/istio.mesh.v1alpha1.ProxyConfig''"
definition AddressType :: string where "AddressType = ''type.googleapis.com/istio.workload.Address''"
definition TrafficPolicyType :: string where "TrafficPolicyType = ''type.googleapis.com/agentio.security.TrafficPolicy''"
definition SandboxType :: string where "SandboxType = ''type.googleapis.com/agentio.sandbox.Sandbox''"
definition WorkloadType :: string where "WorkloadType = ''type.googleapis.com/istio.workload.Workload''"
definition WorkloadAuthorizationType :: string where
  "WorkloadAuthorizationType = ''type.googleapis.com/istio.security.Authorization''"

record ResourceKey =
  key_TypeURL :: string
  key_Name :: string

record SourceRef =
  src_Registry :: string
  src_Key :: string

record WorkloadResourceFacts =
  wf_Namespace :: string
  wf_WorkloadUID :: string
  wf_Source :: SourceRef
  wf_NodeName :: string
  wf_Principal :: string
  wf_ServiceKeys :: "string list"
  wf_GatewayReferences :: "string list"
  wf_AuthorizationRefs :: "string list"
  wf_TrafficPolicyRefs :: "string list"

record AuthorizationResourceFacts =
  af_Scope :: "8 word"
  af_Namespace :: string

text \<open>
  The Sandbox and Service facts, the \<open>Principal\<close> and the \<open>SourceIdentity\<close> have one field each and are
  that string.
\<close>

record ResourceFacts =
  facts_References :: "ResourceKey list option"
  facts_SourceIdentity :: string
  facts_Workload :: "WorkloadResourceFacts option"
  facts_Sandbox :: "string option"
  facts_Service :: "string option"
  facts_Authorization :: "AuthorizationResourceFacts option"
  facts_GatewayOwner :: string
  facts_AgentioEgress :: bool

definition referenceKeys :: "ResourceFacts \<Rightarrow> ResourceKey list" where
  "referenceKeys facts = (case facts_References facts of None \<Rightarrow> [] | Some keys \<Rightarrow> keys)"

definition Facts_Equal :: "ResourceFacts \<Rightarrow> ResourceFacts \<Rightarrow> bool" where
  "Facts_Equal facts other \<longleftrightarrow>
     (if facts_SourceIdentity facts \<noteq> facts_SourceIdentity other \<or> facts_GatewayOwner facts \<noteq> facts_GatewayOwner other \<or>
         referenceKeys facts \<noteq> referenceKeys other \<or> facts_AgentioEgress facts \<noteq> facts_AgentioEgress other \<or>
         (facts_Workload facts = None) \<noteq> (facts_Workload other = None) \<or>
         (facts_Sandbox facts = None) \<noteq> (facts_Sandbox other = None) \<or>
         (facts_Service facts = None) \<noteq> (facts_Service other = None) \<or>
         (facts_Authorization facts = None) \<noteq> (facts_Authorization other = None)
      then False
      else if facts_Workload facts \<noteq> None \<and> facts_Workload facts \<noteq> facts_Workload other then False
      else if facts_Sandbox facts \<noteq> None \<and> facts_Sandbox facts \<noteq> facts_Sandbox other then False
      else if facts_Service facts \<noteq> None \<and> facts_Service facts \<noteq> facts_Service other then False
      else facts_Authorization facts = None \<or> facts_Authorization facts = facts_Authorization other)"

record Any_value =
  any_TypeUrl :: string
  any_Value :: bytes

record Resource =
  res_Key :: ResourceKey
  res_XDSName :: string
  res_Value :: "Any_value option"
  res_Aliases :: "string list"
  res_Hash :: string
  res_Facts :: ResourceFacts

definition ReferencedResources :: "Resource \<Rightarrow> ResourceKey list" where
  "ReferencedResources r =
     (let refs = (case facts_Workload (res_Facts r) of None \<Rightarrow> [] | Some w \<Rightarrow> wf_TrafficPolicyRefs w) in
      map (\<lambda>name. \<lparr>key_TypeURL = TrafficPolicyType, key_Name = name\<rparr>) refs @
      filter (\<lambda>key. \<not> (key_TypeURL key = TrafficPolicyType \<and> facts_Workload (res_Facts r) \<noteq> None \<and> key_Name key \<in> set refs))
        (referenceKeys (res_Facts r)))"

definition ReferencesResource :: "Resource \<Rightarrow> ResourceKey \<Rightarrow> bool" where
  "ReferencesResource r key \<longleftrightarrow> key \<in> set (ReferencedResources r)"

record ResourceChange =
  ch_Key :: ResourceKey
  ch_Old :: "Resource option"
  ch_New :: "Resource option"

subsection \<open>Notices (\<open>update.go\<close>)\<close>

record WorkloadIdentity =
  wi_UID :: string
  wi_Source :: SourceRef
  wi_Principal :: string
  wi_NodeName :: string

record Identity =
  id_Name :: string
  id_Facts :: ResourceFacts
  id_Workloads :: "WorkloadIdentity set"

record Candidate =
  cand_Key :: ResourceKey
  cand_Identities :: "Identity list"
  cand_DependencyOnly :: bool

record Update =
  u_version :: string
  u_candidates :: "string \<rightharpoonup> Candidate list"
  u_affectedTypes :: "string set"
  u_full :: bool
  u_fullTypes :: "string set"

definition workloadIdentity :: "WorkloadResourceFacts \<Rightarrow> WorkloadIdentity" where
  "workloadIdentity w =
     \<lparr>wi_UID = wf_WorkloadUID w, wi_Source = wf_Source w, wi_Principal = wf_Principal w, wi_NodeName = wf_NodeName w\<rparr>"

definition FullFor :: "Update \<Rightarrow> string \<Rightarrow> bool" where
  "FullFor u typeURL \<longleftrightarrow> u_full u \<and> (u_fullTypes u = {} \<or> typeURL \<in> u_fullTypes u)"

definition Affects :: "Update \<Rightarrow> string \<Rightarrow> bool" where
  "Affects u typeURL \<longleftrightarrow> FullFor u typeURL \<or> typeURL \<in> u_affectedTypes u"

definition candidates_at :: "Update \<Rightarrow> string \<Rightarrow> Candidate list" where
  "candidates_at u typeURL = (case u_candidates u typeURL of None \<Rightarrow> [] | Some cs \<Rightarrow> cs)"

definition Candidates :: "Update \<Rightarrow> string \<Rightarrow> Candidate list" where
  "Candidates u typeURL = candidates_at u (if typeURL = WorkloadType then AddressType else typeURL)"

definition same_identity :: "Identity \<Rightarrow> Identity \<Rightarrow> bool" where
  "same_identity existing identity \<longleftrightarrow>
     id_Name existing = id_Name identity \<and> Facts_Equal (id_Facts existing) (id_Facts identity)"

fun mergeIdentity :: "Identity list \<Rightarrow> Identity \<Rightarrow> Identity list" where
  "mergeIdentity [] identity = [identity]"
| "mergeIdentity (existing # rest) identity =
     (if same_identity existing identity
      then existing\<lparr>id_Workloads := id_Workloads existing \<union> id_Workloads identity\<rparr> # rest
      else existing # mergeIdentity rest identity)"

text \<open>The candidates under construction, by key.\<close>

type_synonym candidate_index = "(ResourceKey \<times> Candidate) list"

definition addCandidate :: "candidate_index \<Rightarrow> Resource \<Rightarrow> WorkloadResourceFacts option \<Rightarrow> candidate_index" where
  "addCandidate index resource workload =
     (let found = map_of index (res_Key resource);
          candidate = (case found of
              None \<Rightarrow> \<lparr>cand_Key = res_Key resource, cand_Identities = [], cand_DependencyOnly = workload \<noteq> None\<rparr>
            | Some c \<Rightarrow> if workload = None then c\<lparr>cand_DependencyOnly := False\<rparr> else c);
          identity = \<lparr>id_Name = res_XDSName resource, id_Facts = res_Facts resource,
            id_Workloads = (case workload of None \<Rightarrow> {} | Some w \<Rightarrow> {workloadIdentity w})\<rparr>
      in AList.update (res_Key resource)
           (candidate\<lparr>cand_Key := res_Key resource, cand_Identities := mergeIdentity (cand_Identities candidate) identity\<rparr>) index)"

definition indexedUpdate :: "string \<Rightarrow> candidate_index \<Rightarrow> Update" where
  "indexedUpdate version index =
     \<lparr>u_version = version,
      u_candidates = (\<lambda>typeURL.
        case map snd (filter (\<lambda>(k, c). key_TypeURL k = typeURL) index) of
          [] \<Rightarrow> None
        | cs \<Rightarrow> Some (sort_key (\<lambda>c. key_Name (cand_Key c)) cs)),
      u_affectedTypes = (\<Union>(k, c)\<in>set index.
        if key_TypeURL k = AddressType then {AddressType, WorkloadType} else {key_TypeURL k}),
      u_full = False, u_fullTypes = {}\<rparr>"

definition identity_known :: "Identity list \<Rightarrow> Identity \<Rightarrow> bool" where
  "identity_known existing incoming \<longleftrightarrow>
     list_ex (\<lambda>e. same_identity e incoming \<and> id_Workloads incoming \<subseteq> id_Workloads e) existing"

text \<open>The walk over two key-ordered batches: the keys they share, and whether the older one knows it all.\<close>

fun shared_walk :: "Candidate list \<Rightarrow> Candidate list \<Rightarrow> nat \<times> bool" where
  "shared_walk (a # as) (b # bs) =
     (if key_Name (cand_Key a) < key_Name (cand_Key b) then shared_walk as (b # bs)
      else if key_Name (cand_Key b) < key_Name (cand_Key a) then shared_walk (a # as) bs
      else
        (case shared_walk as bs of (n, unchanged) \<Rightarrow>
           (Suc n, unchanged \<and> \<not> (cand_DependencyOnly a \<and> \<not> cand_DependencyOnly b) \<and>
                   list_all (identity_known (cand_Identities a)) (cand_Identities b))))"
| "shared_walk _ _ = (0, True)"

definition candidateUnionSize :: "Candidate list \<Rightarrow> Candidate list \<Rightarrow> nat \<times> bool" where
  "candidateUnionSize older newer =
     (case shared_walk older newer of (n, unchanged) \<Rightarrow> (length older + length newer - n, unchanged))"

text \<open>
  One incoming identity: the first existing one that matches takes its workloads, unless it has
  them already.
\<close>

fun union_identity :: "Identity list \<Rightarrow> Identity \<Rightarrow> Identity list" where
  "union_identity [] incoming = [incoming]"
| "union_identity (existing # rest) incoming =
     (if same_identity existing incoming then
        (if id_Workloads incoming \<subseteq> id_Workloads existing then existing # rest
         else if id_Workloads existing = {} then existing\<lparr>id_Workloads := id_Workloads incoming\<rparr> # rest
         else existing\<lparr>id_Workloads := id_Workloads existing \<union> id_Workloads incoming\<rparr> # rest)
      else existing # union_identity rest incoming)"

definition union_candidate :: "Candidate \<Rightarrow> Candidate \<Rightarrow> Candidate" where
  "union_candidate a b =
     a\<lparr>cand_DependencyOnly := cand_DependencyOnly a \<and> cand_DependencyOnly b,
       cand_Identities := foldl union_identity (cand_Identities a) (cand_Identities b)\<rparr>"

fun merge_walk :: "Candidate list \<Rightarrow> Candidate list \<Rightarrow> Candidate list" where
  "merge_walk (a # as) (b # bs) =
     (if key_Name (cand_Key a) < key_Name (cand_Key b) then a # merge_walk as (b # bs)
      else if key_Name (cand_Key b) < key_Name (cand_Key a) then b # merge_walk (a # as) bs
      else union_candidate a b # merge_walk as bs)"
| "merge_walk [] bs = bs"
| "merge_walk as [] = as"

definition mergeCandidates :: "Candidate list \<Rightarrow> Candidate list \<Rightarrow> Candidate list \<times> bool" where
  "mergeCandidates older newer =
     (if older = [] then (newer, newer \<noteq> [])
      else if newer = [] then (older, False)
      else
        (case candidateUnionSize older newer of (count, unchanged) \<Rightarrow>
           if unchanged \<and> count = length older then (older, False)
           else (merge_walk older newer, True)))"

definition Merge :: "Update \<Rightarrow> Update \<Rightarrow> Update" where
  "Merge older newer =
     \<lparr>u_version = u_version newer,
      u_candidates = (\<lambda>typeURL.
        case u_candidates newer typeURL of
          None \<Rightarrow> u_candidates older typeURL
        | Some incoming \<Rightarrow>
            (case mergeCandidates (candidates_at older typeURL) incoming of
               (batch, changed) \<Rightarrow> if changed then Some batch else u_candidates older typeURL)),
      u_affectedTypes = u_affectedTypes older \<union> u_affectedTypes newer,
      u_full = (u_full older \<or> u_full newer),
      u_fullTypes =
        (if (u_full older \<or> u_full newer) \<and>
            \<not> (u_full older \<and> u_fullTypes older = {} \<or> u_full newer \<and> u_fullTypes newer = {})
         then u_fullTypes older \<union> u_fullTypes newer else {})\<rparr>"

definition sameResource :: "Resource option \<Rightarrow> Resource option \<Rightarrow> bool" where
  "sameResource left right =
     (case (left, right) of
        (Some l, Some r) \<Rightarrow> res_Hash l = res_Hash r
      | _ \<Rightarrow> left = None \<and> right = None)"

definition index_change :: "(ResourceKey \<times> ResourceChange) list \<Rightarrow> ResourceChange \<Rightarrow> (ResourceKey \<times> ResourceChange) list" where
  "index_change indexed change =
     AList.update (ch_Key change)
       (case map_of indexed (ch_Key change) of
          None \<Rightarrow> change
        | Some existing \<Rightarrow> change\<lparr>ch_Old := ch_Old existing\<rparr>) indexed"

definition coalesceChanges :: "ResourceChange list \<Rightarrow> ResourceChange list" where
  "coalesceChanges changes =
     filter (\<lambda>c. \<not> sameResource (ch_Old c) (ch_New c)) (map snd (foldl index_change [] changes))"

section \<open>No notice is lost in a merge\<close>

subsection \<open>Equality of facts\<close>

text \<open>Facts are equal when they differ at most in an absent or empty reference list.\<close>

lemma Facts_Equal_iff:
  "Facts_Equal a b \<longleftrightarrow>
     referenceKeys a = referenceKeys b \<and> a\<lparr>facts_References := None\<rparr> = b\<lparr>facts_References := None\<rparr>"
  by (cases a; cases b) (auto simp: Facts_Equal_def referenceKeys_def)

lemma Facts_Equal_refl [simp]: "Facts_Equal a a"
  by (simp add: Facts_Equal_iff)

lemma Facts_Equal_trans: "Facts_Equal a b \<Longrightarrow> Facts_Equal b c \<Longrightarrow> Facts_Equal a c"
  by (simp add: Facts_Equal_iff)

lemma Facts_Equal_sym: "Facts_Equal a b \<Longrightarrow> Facts_Equal b a"
  by (simp add: Facts_Equal_iff)

subsection \<open>What one notice says of another\<close>

text \<open>
  A notice covers another when it names every resource the other names, with every wire name,
  fact and workload the other recorded for it, and refreshes everything the other refreshes.
\<close>

definition identity_covers :: "Identity \<Rightarrow> Identity \<Rightarrow> bool" where
  "identity_covers a b \<longleftrightarrow> same_identity a b \<and> id_Workloads b \<subseteq> id_Workloads a"

definition candidate_covers :: "Candidate \<Rightarrow> Candidate \<Rightarrow> bool" where
  "candidate_covers a b \<longleftrightarrow>
     cand_Key a = cand_Key b \<and> (cand_DependencyOnly a \<longrightarrow> cand_DependencyOnly b) \<and>
     (\<forall>i\<in>set (cand_Identities b). \<exists>j\<in>set (cand_Identities a). identity_covers j i)"

definition batch_covers :: "Candidate list \<Rightarrow> Candidate list \<Rightarrow> bool" where
  "batch_covers as bs \<longleftrightarrow> (\<forall>b\<in>set bs. \<exists>a\<in>set as. candidate_covers a b)"

definition update_covers :: "Update \<Rightarrow> Update \<Rightarrow> bool" where
  "update_covers u v \<longleftrightarrow>
     (\<forall>typeURL. batch_covers (candidates_at u typeURL) (candidates_at v typeURL)) \<and>
     u_affectedTypes v \<subseteq> u_affectedTypes u \<and> (\<forall>typeURL. FullFor v typeURL \<longrightarrow> FullFor u typeURL)"

definition batch_wf :: "string \<Rightarrow> Candidate list \<Rightarrow> bool" where
  "batch_wf typeURL cs \<longleftrightarrow>
     sorted_wrt (\<lambda>a b. key_Name (cand_Key a) < key_Name (cand_Key b)) cs \<and>
     (\<forall>c\<in>set cs. key_TypeURL (cand_Key c) = typeURL)"

definition update_wf :: "Update \<Rightarrow> bool" where
  "update_wf u \<longleftrightarrow>
     (\<forall>typeURL. batch_wf typeURL (candidates_at u typeURL)) \<and> (\<not> u_full u \<longrightarrow> u_fullTypes u = {})"

lemma identity_covers_refl [simp]: "identity_covers a a"
  by (simp add: identity_covers_def same_identity_def)

lemma identity_covers_trans: "identity_covers a b \<Longrightarrow> identity_covers b c \<Longrightarrow> identity_covers a c"
  by (auto simp: identity_covers_def same_identity_def intro: Facts_Equal_trans)

lemma candidate_covers_refl [simp]: "candidate_covers a a"
  by (auto simp: candidate_covers_def intro: identity_covers_refl)

lemma candidate_covers_trans: "candidate_covers a b \<Longrightarrow> candidate_covers b c \<Longrightarrow> candidate_covers a c"
  unfolding candidate_covers_def by (metis identity_covers_trans)

lemma batch_covers_refl [simp]: "batch_covers as as"
  by (auto simp: batch_covers_def intro: candidate_covers_refl)

lemma batch_covers_trans: "batch_covers as bs \<Longrightarrow> batch_covers bs cs \<Longrightarrow> batch_covers as cs"
  unfolding batch_covers_def by (meson candidate_covers_trans)

lemma batch_covers_Nil [simp]: "batch_covers as []"
  by (simp add: batch_covers_def)

lemma update_covers_refl: "update_covers u u"
  by (simp add: update_covers_def)

lemma update_covers_trans: "update_covers u v \<Longrightarrow> update_covers v w \<Longrightarrow> update_covers u w"
  unfolding update_covers_def by (blast intro: batch_covers_trans)

subsection \<open>Identities\<close>

lemma union_identity_old: "e \<in> set es \<Longrightarrow> \<exists>e'\<in>set (union_identity es i). identity_covers e' e"
  by (induction es) (auto simp: identity_covers_def same_identity_def)

lemma union_identity_new: "\<exists>e'\<in>set (union_identity es i). identity_covers e' i"
  by (induction es) (auto simp: identity_covers_def same_identity_def)

lemma union_identities_old:
  "e \<in> set es \<Longrightarrow> \<exists>e'\<in>set (foldl union_identity es is). identity_covers e' e"
proof (induction "is" arbitrary: es e)
  case (Cons i "is")
  obtain e' where e': "e' \<in> set (union_identity es i)" "identity_covers e' e" using union_identity_old [OF Cons(2)] by blast
  from Cons(1) [OF e'(1)] e'(2) show ?case using identity_covers_trans by fastforce
qed (auto intro: identity_covers_refl)

lemma union_identities_new:
  "i \<in> set is \<Longrightarrow> \<exists>e'\<in>set (foldl union_identity es is). identity_covers e' i"
proof (induction "is" arbitrary: es)
  case (Cons k "is")
  show ?case
  proof (cases "i = k")
    case True
    obtain e where e: "e \<in> set (union_identity es k)" "identity_covers e k" using union_identity_new by blast
    from union_identities_old [OF e(1), of "is"] e(2) True show ?thesis using identity_covers_trans by fastforce
  next
    case False
    with Cons show ?thesis by simp
  qed
qed simp

lemma union_candidate_covers:
  assumes "cand_Key a = cand_Key b"
  shows "candidate_covers (union_candidate a b) a" "candidate_covers (union_candidate a b) b"
  using assms union_identities_old union_identities_new
  by (auto simp: candidate_covers_def union_candidate_def)

subsection \<open>Batches\<close>

lemma union_candidate_key [simp]: "cand_Key (union_candidate a b) = cand_Key a"
  by (simp add: union_candidate_def)

lemma key_eqI: "\<not> key_Name a < key_Name b \<Longrightarrow> \<not> key_Name b < key_Name a \<Longrightarrow> key_TypeURL a = key_TypeURL b \<Longrightarrow> a = (b :: ResourceKey)"
  by (simp add: linorder_not_less)

lemma batch_covers_Cons [simp]:
  "batch_covers as (b # bs) \<longleftrightarrow> (\<exists>a\<in>set as. candidate_covers a b) \<and> batch_covers as bs"
  by (auto simp: batch_covers_def)

lemma batch_covers_more: "batch_covers as bs \<Longrightarrow> batch_covers (a # as) bs"
  by (auto simp: batch_covers_def)

lemma merge_walk_covers:
  assumes "\<forall>c\<in>set as. key_TypeURL (cand_Key c) = t" and "\<forall>c\<in>set bs. key_TypeURL (cand_Key c) = t"
  shows "batch_covers (merge_walk as bs) as \<and> batch_covers (merge_walk as bs) bs"
  using assms
proof (induction as bs rule: merge_walk.induct)
  case (1 a as b bs)
  consider (less) "key_Name (cand_Key a) < key_Name (cand_Key b)" | (greater) "key_Name (cand_Key b) < key_Name (cand_Key a)"
    | (same) "\<not> key_Name (cand_Key a) < key_Name (cand_Key b)" "\<not> key_Name (cand_Key b) < key_Name (cand_Key a)" by blast
  then show ?case
  proof cases
    case less
    have "batch_covers (merge_walk as (b # bs)) as \<and> batch_covers (merge_walk as (b # bs)) (b # bs)"
      using "1.prems" by (intro "1.IH"(1) [OF less]) simp_all
    then have "batch_covers (a # merge_walk as (b # bs)) as" "batch_covers (a # merge_walk as (b # bs)) (b # bs)"
      by (blast intro: batch_covers_more)+
    with less show ?thesis by simp
  next
    case greater
    then have ng: "\<not> key_Name (cand_Key a) < key_Name (cand_Key b)" by simp
    have "batch_covers (merge_walk (a # as) bs) (a # as) \<and> batch_covers (merge_walk (a # as) bs) bs"
      using "1.prems" by (intro "1.IH"(2) [OF ng greater]) simp_all
    then have "batch_covers (b # merge_walk (a # as) bs) (a # as)" "batch_covers (b # merge_walk (a # as) bs) bs"
      by (blast intro: batch_covers_more)+
    with greater ng show ?thesis by simp
  next
    case same
    have "batch_covers (merge_walk as bs) as \<and> batch_covers (merge_walk as bs) bs"
      using "1.prems" by (intro "1.IH"(3) [OF same]) simp_all
    then have "batch_covers (union_candidate a b # merge_walk as bs) as" "batch_covers (union_candidate a b # merge_walk as bs) bs"
      by (blast intro: batch_covers_more)+
    moreover have "cand_Key a = cand_Key b" using "1.prems" same by (intro key_eqI) simp_all
    ultimately show ?thesis using same union_candidate_covers [of a b] by simp
  qed
qed simp_all

lemma merge_walk_keys: "cand_Key ` set (merge_walk as bs) \<subseteq> cand_Key ` set as \<union> cand_Key ` set bs"
proof (induction as bs rule: merge_walk.induct)
  case (1 a as b bs)
  then show ?case by (cases "key_Name (cand_Key a) < key_Name (cand_Key b)"; cases "key_Name (cand_Key b) < key_Name (cand_Key a)") auto
qed auto

lemma merge_walk_all:
  "\<forall>d\<in>set as. P (cand_Key d) \<Longrightarrow> \<forall>d\<in>set bs. P (cand_Key d) \<Longrightarrow> c \<in> set (merge_walk as bs) \<Longrightarrow> P (cand_Key c)"
  using subsetD [OF merge_walk_keys imageI, of c as bs] by auto

lemma batch_wf_Cons [simp]:
  "batch_wf t (c # cs) \<longleftrightarrow>
     key_TypeURL (cand_Key c) = t \<and> (\<forall>d\<in>set cs. key_Name (cand_Key c) < key_Name (cand_Key d)) \<and> batch_wf t cs"
  by (auto simp: batch_wf_def)

lemma batch_wf_Nil [simp]: "batch_wf t []"
  by (simp add: batch_wf_def)

lemma merge_walk_wf: "batch_wf t as \<Longrightarrow> batch_wf t bs \<Longrightarrow> batch_wf t (merge_walk as bs)"
proof (induction as bs rule: merge_walk.induct)
  case (1 a as b bs)
  let ?below = "\<lambda>x k. key_Name (cand_Key x) < key_Name k"
  consider (less) "key_Name (cand_Key a) < key_Name (cand_Key b)" | (greater) "key_Name (cand_Key b) < key_Name (cand_Key a)"
    | (same) "\<not> key_Name (cand_Key a) < key_Name (cand_Key b)" "\<not> key_Name (cand_Key b) < key_Name (cand_Key a)" by blast
  then show ?case
  proof cases
    case less
    then have below: "\<forall>d\<in>set (b # bs). ?below a (cand_Key d)" using "1.prems" by (auto intro: less_trans)
    from "1.prems" have "\<forall>d\<in>set as. ?below a (cand_Key d)" by simp
    then have "\<forall>c\<in>set (merge_walk as (b # bs)). ?below a (cand_Key c)"
      using merge_walk_all [of as "?below a" "b # bs"] below by blast
    moreover have "batch_wf t (merge_walk as (b # bs))" using "1.prems" by (intro "1.IH"(1) [OF less]) simp_all
    ultimately show ?thesis using less "1.prems" by simp
  next
    case greater
    then have ng: "\<not> key_Name (cand_Key a) < key_Name (cand_Key b)" by simp
    from greater have below: "\<forall>d\<in>set (a # as). ?below b (cand_Key d)" using "1.prems" by (auto intro: less_trans)
    from "1.prems" have "\<forall>d\<in>set bs. ?below b (cand_Key d)" by simp
    then have "\<forall>c\<in>set (merge_walk (a # as) bs). ?below b (cand_Key c)"
      using merge_walk_all [of "a # as" "?below b" bs] below by blast
    moreover have "batch_wf t (merge_walk (a # as) bs)" using "1.prems" by (intro "1.IH"(2) [OF ng greater]) simp_all
    ultimately show ?thesis using greater ng "1.prems" by simp
  next
    case same
    then have eq: "key_Name (cand_Key a) = key_Name (cand_Key b)" by simp
    from "1.prems" have "\<forall>d\<in>set as. ?below a (cand_Key d)" "\<forall>d\<in>set bs. ?below a (cand_Key d)" by (simp_all add: eq)
    then have "\<forall>c\<in>set (merge_walk as bs). ?below a (cand_Key c)"
      using merge_walk_all [of as "?below a" bs] by blast
    moreover have "batch_wf t (merge_walk as bs)" using "1.prems" by (intro "1.IH"(3) [OF same]) simp_all
    ultimately show ?thesis using same "1.prems" by simp
  qed
qed simp_all

lemma shared_walk_le: "fst (shared_walk as bs) \<le> length bs"
  by (induction as bs rule: shared_walk.induct) (auto split: prod.split)

text \<open>When the walk meets every newer key and learns nothing, the older batch says it all.\<close>

lemma shared_walk_covers:
  assumes "shared_walk as bs = (length bs, True)"
    and "\<forall>c\<in>set as. key_TypeURL (cand_Key c) = t" and "\<forall>c\<in>set bs. key_TypeURL (cand_Key c) = t"
  shows "batch_covers as bs"
  using assms
proof (induction as bs rule: shared_walk.induct)
  case (1 a as b bs)
  consider (less) "key_Name (cand_Key a) < key_Name (cand_Key b)" | (greater) "key_Name (cand_Key b) < key_Name (cand_Key a)"
      "\<not> key_Name (cand_Key a) < key_Name (cand_Key b)"
    | (same) "\<not> key_Name (cand_Key a) < key_Name (cand_Key b)" "\<not> key_Name (cand_Key b) < key_Name (cand_Key a)"
    by (meson less_not_sym)
  then show ?case
  proof cases
    case less
    have "batch_covers as (b # bs)" using "1.prems" less by (intro "1.IH"(1) [OF less]) simp_all
    then show ?thesis by (rule batch_covers_more)
  next
    case greater
    then have "fst (shared_walk (a # as) bs) = Suc (length bs)" using "1.prems"(1) by simp
    with shared_walk_le [of "a # as" bs] show ?thesis by simp
  next
    case same
    obtain n u where w: "shared_walk as bs = (n, u)" by fastforce
    have key: "cand_Key a = cand_Key b" using "1.prems" same by (intro key_eqI) simp_all
    have r: "n = length bs" u "\<not> (cand_DependencyOnly a \<and> \<not> cand_DependencyOnly b)"
      "list_all (identity_known (cand_Identities a)) (cand_Identities b)"
      using "1.prems"(1) same w by simp_all
    have "batch_covers as bs" using "1.prems" w r by (intro "1.IH"(3) [OF same]) simp_all
    moreover have "candidate_covers a b"
      using key r(3,4) by (auto simp: candidate_covers_def identity_covers_def identity_known_def list_all_iff list_ex_iff)
    ultimately show ?thesis by (auto intro: batch_covers_more)
  qed
qed (simp_all add: batch_covers_def)

lemma mergeCandidates_covers:
  assumes "batch_wf t older" and "batch_wf t newer" and "mergeCandidates older newer = (batch, changed)"
  shows "batch_covers batch older \<and> batch_covers batch newer \<and> batch_wf t batch \<and> (\<not> changed \<longrightarrow> batch = older)"
proof -
  have keys: "\<forall>c\<in>set older. key_TypeURL (cand_Key c) = t" "\<forall>c\<in>set newer. key_TypeURL (cand_Key c) = t"
    using assms(1,2) by (simp_all add: batch_wf_def)
  consider "older = []" | "older \<noteq> []" "newer = []" | "older \<noteq> []" "newer \<noteq> []" by blast
  then show ?thesis
  proof cases
    case 3
    obtain n unchanged where w: "shared_walk older newer = (n, unchanged)" by fastforce
    show ?thesis
    proof (cases "unchanged \<and> length older + length newer - n = length older")
      case True
      have "n \<le> length newer" using shared_walk_le [of older newer] w by simp
      moreover have "length older + length newer - n = length older" using True by simp
      ultimately have "n = length newer" by arith
      with True w keys have "batch_covers older newer" by (intro shared_walk_covers [of older newer t]) simp_all
      with assms 3 w True show ?thesis by (simp add: mergeCandidates_def candidateUnionSize_def)
    next
      case False
      then have "batch = merge_walk older newer" "changed" using assms(3) 3 w
        by (auto simp: mergeCandidates_def candidateUnionSize_def)
      with merge_walk_covers [OF keys] merge_walk_wf [OF assms(1,2)] show ?thesis by simp
    qed
  qed (use assms in \<open>auto simp: mergeCandidates_def\<close>)
qed

lemma Merge_candidates:
  assumes "batch_wf t (candidates_at older t)" and "batch_wf t (candidates_at newer t)"
  shows "batch_covers (candidates_at (Merge older newer) t) (candidates_at older t) \<and>
    batch_covers (candidates_at (Merge older newer) t) (candidates_at newer t) \<and>
    batch_wf t (candidates_at (Merge older newer) t)"
proof (cases "u_candidates newer t")
  case None
  then have "candidates_at (Merge older newer) t = candidates_at older t" "candidates_at newer t = []"
    by (simp_all add: candidates_at_def Merge_def)
  with assms show ?thesis by simp
next
  case (Some incoming)
  obtain batch changed where m: "mergeCandidates (candidates_at older t) incoming = (batch, changed)" by fastforce
  have "candidates_at newer t = incoming" using Some by (simp add: candidates_at_def)
  with mergeCandidates_covers [OF assms(1) _ m] assms(2)
  have c: "batch_covers batch (candidates_at older t) \<and> batch_covers batch (candidates_at newer t) \<and> batch_wf t batch \<and>
      (\<not> changed \<longrightarrow> batch = candidates_at older t)" by simp
  have "candidates_at (Merge older newer) t = batch"
    using Some m c by (auto simp: candidates_at_def Merge_def split: option.split)
  with c show ?thesis by simp
qed

lemma FullFor_Merge:
  assumes "update_wf older" and "update_wf newer"
  shows "FullFor (Merge older newer) t \<longleftrightarrow> FullFor older t \<or> FullFor newer t"
  using assms by (auto simp: FullFor_def Merge_def update_wf_def)

text \<open>
  The contract of a merge: what waits absorbs what arrives, and nothing either of them says
  is dropped.
\<close>

locale notice_merge =
  fixes merge :: "'u \<Rightarrow> 'u \<Rightarrow> 'u" and covers :: "'u \<Rightarrow> 'u \<Rightarrow> bool" and wf :: "'u \<Rightarrow> bool"
  assumes covers_refl: "covers u u"
    and covers_trans: "covers u v \<Longrightarrow> covers v w \<Longrightarrow> covers u w"
    and merge_older: "wf u \<Longrightarrow> wf v \<Longrightarrow> covers (merge u v) u"
    and merge_newer: "wf u \<Longrightarrow> wf v \<Longrightarrow> covers (merge u v) v"
    and merge_wf: "wf u \<Longrightarrow> wf v \<Longrightarrow> wf (merge u v)"
begin

lemma fold_covers:
  "wf u \<Longrightarrow> \<forall>v\<in>set vs. wf v \<Longrightarrow> wf (foldl merge u vs) \<and> covers (foldl merge u vs) u \<and> (\<forall>v\<in>set vs. covers (foldl merge u vs) v)"
proof (induction vs arbitrary: u)
  case (Cons v vs)
  have "wf (merge u v)" using Cons(2,3) by (simp add: merge_wf)
  with Cons(1) [of "merge u v"] Cons(2,3) show ?case
    using merge_older [of u v] merge_newer [of u v] covers_trans by auto
qed (simp add: covers_refl)

end

lemma Merge_wf: "update_wf u \<Longrightarrow> update_wf v \<Longrightarrow> update_wf (Merge u v)"
  using Merge_candidates [of _ u v] by (auto simp: update_wf_def Merge_def)

lemma Merge_covers_both:
  assumes "update_wf u" and "update_wf v"
  shows "update_covers (Merge u v) u \<and> update_covers (Merge u v) v"
  using Merge_candidates [of _ u v] FullFor_Merge [OF assms] assms
  by (auto simp: update_covers_def update_wf_def) (simp_all add: Merge_def)

interpretation notices: notice_merge Merge update_covers update_wf
  by unfold_locales (auto intro: update_covers_refl update_covers_trans Merge_wf simp: Merge_covers_both)

subsection \<open>A notice that is built is well formed\<close>

definition index_wf :: "candidate_index \<Rightarrow> bool" where
  "index_wf index \<longleftrightarrow> distinct (map fst index) \<and> (\<forall>(k, c)\<in>set index. cand_Key c = k)"

lemma update_entry: "x \<in> set (AList.update k c xs) \<Longrightarrow> x = (k, c) \<or> x \<in> set xs"
  by (induction xs) (auto split: if_splits)

lemma addCandidate_wf: "index_wf index \<Longrightarrow> index_wf (addCandidate index resource workload)"
  unfolding index_wf_def addCandidate_def Let_def by (auto simp: distinct_update dest!: update_entry)

lemma distinct_map_sort: "distinct (map f xs) \<Longrightarrow> distinct (map f (sort_key g xs))"
  by (simp add: distinct_map)

lemma index_type_wf:
  assumes "index_wf index"
  shows "batch_wf t (sort_key (\<lambda>c. key_Name (cand_Key c)) (map snd (filter (\<lambda>(k, c). key_TypeURL k = t) index)))"
proof -
  let ?f = "\<lambda>c. key_Name (cand_Key c)" and ?xs = "map snd (filter (\<lambda>(k, c). key_TypeURL k = t) index)"
  have keys: "map (cand_Key \<circ> snd) (filter (\<lambda>(k, c). key_TypeURL k = t) index) = map fst (filter (\<lambda>(k, c). key_TypeURL k = t) index)"
    using assms by (auto simp: index_wf_def)
  have "distinct (map fst (filter (\<lambda>(k, c). key_TypeURL k = t) index))"
    using assms by (auto simp: index_wf_def intro: distinct_map_filter)
  then have "distinct (map cand_Key ?xs)" by (simp only: keys map_map)
  moreover have type: "\<forall>c\<in>set ?xs. key_TypeURL (cand_Key c) = t" using assms by (auto simp: index_wf_def)
  ultimately have "distinct (map ?f ?xs)"
    by (auto simp: distinct_map inj_on_def)
  then have "distinct (map ?f (sort_key ?f ?xs))" by (rule distinct_map_sort)
  then have "sorted_wrt (<) (map ?f (sort_key ?f ?xs))" by (simp add: strict_sorted_iff)
  with type show ?thesis by (simp add: batch_wf_def sorted_wrt_map)
qed

lemma indexedUpdate_wf: "index_wf index \<Longrightarrow> update_wf (indexedUpdate version index)"
proof -
  assume "index_wf index"
  then have "batch_wf t (candidates_at (indexedUpdate version index) t)" for t
    using index_type_wf [of index t]
    by (cases "map snd (filter (\<lambda>(k, c). key_TypeURL k = t) index)") (auto simp: candidates_at_def indexedUpdate_def)
  then show ?thesis by (simp add: update_wf_def) (simp add: indexedUpdate_def)
qed

end
