(* ===== verification/Push_Scheduler.thy ===== *)
theory Push_Scheduler
  imports Xds_Update
begin

section \<open>The push scheduler\<close>

text \<open>
  \<open>pkg/xds/scheduler.go\<close>: pushes are scheduled first in, first out over the connections, at most
  one at a time for each, and at most as many at once as there are slots.  Updates that arrive
  while a connection waits or is being served are merged.  Every critical section of the mutex is
  one operation here; what a goroutine holds between two sections is part of the system state
  below, so that every interleaving of enqueuers, the dispatcher, completions, cancellations and
  the shutdown is a run.  A connection is the identity of its pointer.  The zero \<open>queuedUpdate\<close>,
  whose \<open>present\<close> is false, is \<open>None\<close>.  Waking the dispatcher is not modelled: it may look at any
  time.
\<close>

type_synonym conn = nat

record 'u queuedUpdate =
  q_Update :: 'u
  q_Started :: int

record 'u PushScheduler =
  ps_pending :: "conn \<rightharpoonup> 'u queuedUpdate"
  ps_queue :: "conn list"
  ps_processing :: "conn \<rightharpoonup> 'u queuedUpdate option"
  ps_cancellations :: "conn set"
  ps_slots :: nat
  ps_capacity :: nat
  ps_closing :: bool

definition NewPushScheduler :: "nat \<Rightarrow> 'u PushScheduler option" where
  "NewPushScheduler concurrency =
     (if concurrency = 0 then None
      else Some \<lparr>ps_pending = Map.empty, ps_queue = [], ps_processing = Map.empty, ps_cancellations = {},
                 ps_slots = 0, ps_capacity = concurrency, ps_closing = False\<rparr>)"

text \<open>What is queued for a connection, and whether it is being served.\<close>

definition queuedLocked :: "'u PushScheduler \<Rightarrow> conn \<Rightarrow> 'u queuedUpdate option \<times> bool" where
  "queuedLocked s c = (case ps_processing s c of Some later \<Rightarrow> (later, True) | None \<Rightarrow> (ps_pending s c, False))"

definition put_queued :: "'u PushScheduler \<Rightarrow> conn \<Rightarrow> 'u queuedUpdate \<Rightarrow> 'u PushScheduler" where
  "put_queued s c q =
     (if ps_processing s c \<noteq> None then s\<lparr>ps_processing := (ps_processing s)(c \<mapsto> Some q)\<rparr>
      else s\<lparr>ps_pending := (ps_pending s)(c \<mapsto> q)\<rparr>)"

text \<open>
  The loop of \<open>enqueue\<close> up to the point where it unlocks to merge: either the update is queued,
  or the entry to merge with is returned.
\<close>

definition enqueue_iteration ::
  "'u PushScheduler \<Rightarrow> conn \<Rightarrow> 'u \<Rightarrow> int \<Rightarrow> 'u PushScheduler \<times> 'u queuedUpdate option" where
  "enqueue_iteration s c update started =
     (case queuedLocked s c of
        (Some pending, _) \<Rightarrow> (s, Some pending)
      | (None, processing) \<Rightarrow>
          let incoming = \<lparr>q_Update = update, q_Started = started\<rparr> in
          (if processing then put_queued s c incoming
           else (put_queued s c incoming)\<lparr>ps_queue := ps_queue s @ [c]\<rparr>, None))"

definition enqueue_begin ::
  "conn set \<Rightarrow> 'u PushScheduler \<Rightarrow> conn \<Rightarrow> 'u \<Rightarrow> int \<Rightarrow> 'u PushScheduler \<times> 'u queuedUpdate option" where
  "enqueue_begin dead s c update started =
     (if c \<in> dead \<or> ps_closing s then (s, None)
      else enqueue_iteration (s\<lparr>ps_cancellations := insert c (ps_cancellations s)\<rparr>) c update started)"

definition enqueue_finish ::
  "('u \<Rightarrow> 'u \<Rightarrow> 'u) \<Rightarrow> conn set \<Rightarrow> 'u PushScheduler \<Rightarrow> conn \<Rightarrow> 'u queuedUpdate \<Rightarrow> 'u \<Rightarrow> int \<Rightarrow> 'u PushScheduler" where
  "enqueue_finish merge dead s c pending update started =
     (if ps_closing s \<or> c \<in> dead then s
      else
        (case queuedLocked s c of
           (Some current, _) \<Rightarrow>
             put_queued s c \<lparr>q_Update = merge (q_Update pending) update, q_Started = q_Started pending\<rparr>
         | (None, _) \<Rightarrow> fst (enqueue_iteration s c update started)))"

text \<open>The head of the queue that still has work and a live connection is assigned.\<close>

fun assign_head ::
  "conn set \<Rightarrow> conn list \<Rightarrow> (conn \<rightharpoonup> 'u queuedUpdate) \<Rightarrow> (conn \<times> 'u queuedUpdate) option \<times> conn list \<times> (conn \<rightharpoonup> 'u queuedUpdate)" where
  "assign_head dead [] pending = (None, [], pending)"
| "assign_head dead (c # queue) pending =
     (case pending c of
        None \<Rightarrow> assign_head dead queue pending
      | Some queued \<Rightarrow>
          if c \<in> dead then assign_head dead queue (pending(c := None))
          else (Some (c, queued), queue, pending(c := None)))"

definition releaseSlot :: "'u PushScheduler \<Rightarrow> 'u PushScheduler" where
  "releaseSlot s = s\<lparr>ps_slots := ps_slots s - 1\<rparr>"

definition next_assign :: "conn set \<Rightarrow> 'u PushScheduler \<Rightarrow> (conn \<times> 'u queuedUpdate) option \<times> 'u PushScheduler" where
  "next_assign dead s =
     (if ps_closing s then (None, releaseSlot s)
      else
        (case assign_head dead (ps_queue s) (ps_pending s) of
           (Some (c, queued), queue, pending) \<Rightarrow>
             (Some (c, queued), s\<lparr>ps_queue := queue, ps_pending := pending, ps_processing := (ps_processing s)(c \<mapsto> None)\<rparr>)
         | (None, queue, pending) \<Rightarrow> (None, releaseSlot (s\<lparr>ps_queue := queue, ps_pending := pending\<rparr>))))"

definition scheduler_Done :: "conn set \<Rightarrow> 'u PushScheduler \<Rightarrow> conn \<Rightarrow> 'u PushScheduler" where
  "scheduler_Done dead s c =
     (case ps_processing s c of
        None \<Rightarrow> s
      | Some later \<Rightarrow>
          let s1 = s\<lparr>ps_processing := (ps_processing s)(c := None)\<rparr>;
              s2 = (case later of
                  Some q \<Rightarrow> if \<not> ps_closing s \<and> c \<notin> dead
                    then s1\<lparr>ps_pending := (ps_pending s)(c \<mapsto> q), ps_queue := ps_queue s @ [c]\<rparr> else s1
                | None \<Rightarrow> s1)
          in releaseSlot s2)"

definition scheduler_cancel :: "'u PushScheduler \<Rightarrow> conn \<Rightarrow> 'u PushScheduler" where
  "scheduler_cancel s c =
     (let s1 = s\<lparr>ps_pending := (ps_pending s)(c := None), ps_processing := (ps_processing s)(c := None),
                 ps_cancellations := ps_cancellations s - {c}\<rparr>
      in if ps_processing s c \<noteq> None then releaseSlot s1 else s1)"

definition scheduler_Close :: "'u PushScheduler \<Rightarrow> 'u PushScheduler" where
  "scheduler_Close s =
     (if ps_closing s then s
      else s\<lparr>ps_closing := True, ps_queue := [], ps_pending := Map.empty, ps_processing := Map.empty,
             ps_cancellations := {}, ps_slots := ps_slots s - card (dom (ps_processing s))\<rparr>)"

subsection \<open>Runs\<close>

text \<open>
  The system: the scheduler, the connections whose context has ended, the merges under way (one
  at most for a connection, as \<open>enqueueMu\<close> has it) and the dispatchers that hold a slot and have not
  assigned it.  The field \<open>sy_owed\<close> only observes: it holds the updates accepted for a connection that
  no assigned push has covered yet.  \<open>cancel\<close> is what \<open>context.AfterFunc\<close> runs, so it follows the end of
  the context.  A dispatcher that saw work waiting may take its slot after the work is gone, so
  taking a slot asks for capacity only.
\<close>

record 'u system =
  sy_sched :: "'u PushScheduler"
  sy_dead :: "conn set"
  sy_merging :: "conn \<rightharpoonup> 'u queuedUpdate \<times> 'u \<times> int"
  sy_holders :: nat
  sy_owed :: "(conn \<times> 'u) set"

datatype 'u SchedulerEvent =
    BeginEnqueue conn 'u int
  | FinishEnqueue conn
  | AcquireSlot
  | AssignNext
  | PushDone conn
  | CancelConnection conn
  | EndContext conn
  | CloseScheduler

fun scheduler_step ::
  "('u \<Rightarrow> 'u \<Rightarrow> 'u) \<Rightarrow> ('u \<Rightarrow> 'u \<Rightarrow> bool) \<Rightarrow> 'u SchedulerEvent \<Rightarrow> 'u system \<Rightarrow> 'u system option" where
  "scheduler_step merge covers (BeginEnqueue c u started) sy =
     (if sy_merging sy c \<noteq> None then None
      else
        (case enqueue_begin (sy_dead sy) (sy_sched sy) c u started of (s, waiting) \<Rightarrow>
           Some (sy\<lparr>sy_sched := s,
                    sy_merging := (sy_merging sy)(c := map_option (\<lambda>pending. (pending, u, started)) waiting),
                    sy_owed := insert (c, u) (sy_owed sy)\<rparr>)))"
| "scheduler_step merge covers (FinishEnqueue c) sy =
     (case sy_merging sy c of
        None \<Rightarrow> None
      | Some (pending, u, started) \<Rightarrow>
          Some (sy\<lparr>sy_sched := enqueue_finish merge (sy_dead sy) (sy_sched sy) c pending u started,
                   sy_merging := (sy_merging sy)(c := None)\<rparr>))"
| "scheduler_step merge covers AcquireSlot sy =
     (let s = sy_sched sy in
      if ps_slots s \<ge> ps_capacity s then None
      else Some (sy\<lparr>sy_sched := s\<lparr>ps_slots := Suc (ps_slots s)\<rparr>, sy_holders := Suc (sy_holders sy)\<rparr>))"
| "scheduler_step merge covers AssignNext sy =
     (if sy_holders sy = 0 then None
      else
        (case next_assign (sy_dead sy) (sy_sched sy) of (push, s) \<Rightarrow>
           Some (sy\<lparr>sy_sched := s, sy_holders := sy_holders sy - 1,
                    sy_owed := (case push of
                        None \<Rightarrow> sy_owed sy
                      | Some (c, q) \<Rightarrow> {(d, u) \<in> sy_owed sy. \<not> (d = c \<and> covers (q_Update q) u)})\<rparr>)))"
| "scheduler_step merge covers (PushDone c) sy =
     Some (sy\<lparr>sy_sched := scheduler_Done (sy_dead sy) (sy_sched sy) c\<rparr>)"
| "scheduler_step merge covers (CancelConnection c) sy =
     (if c \<in> sy_dead sy then Some (sy\<lparr>sy_sched := scheduler_cancel (sy_sched sy) c\<rparr>) else None)"
| "scheduler_step merge covers (EndContext c) sy =
     Some (sy\<lparr>sy_dead := insert c (sy_dead sy)\<rparr>)"
| "scheduler_step merge covers CloseScheduler sy =
     Some (sy\<lparr>sy_sched := scheduler_Close (sy_sched sy)\<rparr>)"

definition initial_system :: "'u PushScheduler \<Rightarrow> 'u system" where
  "initial_system s =
     \<lparr>sy_sched = s, sy_dead = {}, sy_merging = Map.empty, sy_holders = 0, sy_owed = {}\<rparr>"

inductive reaches ::
  "('u \<Rightarrow> 'u \<Rightarrow> 'u) \<Rightarrow> ('u \<Rightarrow> 'u \<Rightarrow> bool) \<Rightarrow> ('u \<Rightarrow> bool) \<Rightarrow> 'u system \<Rightarrow> 'u system \<Rightarrow> bool"
  for merge covers ok sy where
  start: "reaches merge covers ok sy sy"
| step: "reaches merge covers ok sy sy1 \<Longrightarrow> (\<forall>c u t. ev = BeginEnqueue c u t \<longrightarrow> ok u) \<Longrightarrow>
    scheduler_step merge covers ev sy1 = Some sy2 \<Longrightarrow> reaches merge covers ok sy sy2"

section \<open>Invariants of every run\<close>

definition entry :: "'u PushScheduler \<Rightarrow> conn \<Rightarrow> 'u queuedUpdate option" where
  "entry s c = fst (queuedLocked s c)"

text \<open>
  The slots taken are those of the connections being served and of the dispatchers on their way; a
  connection waits or is served, never both; and whoever waits is in the queue.
\<close>

definition slots_inv :: "'u system \<Rightarrow> bool" where
  "slots_inv sy \<longleftrightarrow>
     (let s = sy_sched sy in
      finite (dom (ps_processing s)) \<and> ps_slots s = sy_holders sy + card (dom (ps_processing s)) \<and>
      ps_slots s \<le> ps_capacity s)"

definition queue_inv :: "'u PushScheduler \<Rightarrow> bool" where
  "queue_inv s \<longleftrightarrow> dom (ps_pending s) \<inter> dom (ps_processing s) = {} \<and> dom (ps_pending s) \<subseteq> set (ps_queue s)"

lemma entry_simps: "entry s c = (case ps_processing s c of Some later \<Rightarrow> later | None \<Rightarrow> ps_pending s c)"
  by (simp add: entry_def queuedLocked_def split: option.split)

lemma entry_put: "entry (put_queued s c q) d = (if d = c then Some q else entry s d)"
  by (auto simp: entry_simps put_queued_def split: option.split)

lemma enqueue_iteration_cases:
  "enqueue_iteration s c u t =
     (case entry s c of
        Some p \<Rightarrow> (s, Some p)
      | None \<Rightarrow>
          (if ps_processing s c \<noteq> None then put_queued s c \<lparr>q_Update = u, q_Started = t\<rparr>
           else (put_queued s c \<lparr>q_Update = u, q_Started = t\<rparr>)\<lparr>ps_queue := ps_queue s @ [c]\<rparr>, None))"
  by (auto simp: enqueue_iteration_def entry_def queuedLocked_def split: option.split)

lemma put_queued_fields [simp]:
  "ps_slots (put_queued s c q) = ps_slots s" "ps_capacity (put_queued s c q) = ps_capacity s"
  "ps_queue (put_queued s c q) = ps_queue s" "ps_closing (put_queued s c q) = ps_closing s"
  "dom (ps_processing (put_queued s c q)) = dom (ps_processing s)"
  by (auto simp: put_queued_def)

lemma put_queued_pending:
  "dom (ps_pending (put_queued s c q)) = (if ps_processing s c = None then insert c (dom (ps_pending s)) else dom (ps_pending s))"
  by (auto simp: put_queued_def)

text \<open>What the critical sections do to the slots and to the queue.\<close>

definition same_slots :: "'u PushScheduler \<Rightarrow> 'u PushScheduler \<Rightarrow> bool" where
  "same_slots s s' \<longleftrightarrow>
     dom (ps_processing s') = dom (ps_processing s) \<and> ps_slots s' = ps_slots s \<and> ps_capacity s' = ps_capacity s \<and>
     ps_closing s' = ps_closing s"

lemma iteration_slots: "same_slots s (fst (enqueue_iteration s c u t))"
  by (auto simp: same_slots_def enqueue_iteration_cases split: option.split)

lemma iteration_queue: "queue_inv s \<Longrightarrow> queue_inv (fst (enqueue_iteration s c u t))"
  by (auto simp: queue_inv_def enqueue_iteration_cases put_queued_pending split: option.split)

lemma begin_slots: "same_slots s (fst (enqueue_begin dead s c u t))"
  using iteration_slots [of "s\<lparr>ps_cancellations := insert c (ps_cancellations s)\<rparr>" c u t]
  by (simp add: enqueue_begin_def same_slots_def)

lemma begin_queue: "queue_inv s \<Longrightarrow> queue_inv (fst (enqueue_begin dead s c u t))"
  using iteration_queue [of "s\<lparr>ps_cancellations := insert c (ps_cancellations s)\<rparr>" c u t]
  by (simp add: enqueue_begin_def queue_inv_def)

lemma finish_slots: "same_slots s (enqueue_finish merge dead s c p u t)"
  using iteration_slots [of s c u t] by (auto simp: enqueue_finish_def same_slots_def split: prod.split option.split)

lemma entry_pending_queue:
  "queue_inv s \<Longrightarrow> entry s c \<noteq> None \<Longrightarrow> ps_processing s c = None \<Longrightarrow> c \<in> set (ps_queue s)"
  by (auto simp: queue_inv_def entry_simps)

lemma finish_queue: "queue_inv s \<Longrightarrow> queue_inv (enqueue_finish merge dead s c p u t)"
proof -
  assume inv: "queue_inv s"
  have "queue_inv (put_queued s c q)" if "entry s c \<noteq> None" for q
    using inv entry_pending_queue [OF inv that] by (auto simp: queue_inv_def put_queued_pending)
  with inv iteration_queue [OF inv, of c u t] show ?thesis
    by (auto simp: enqueue_finish_def entry_def split: prod.split option.split)
qed

lemma assign_head_spec:
  assumes "assign_head dead queue pending = (r, queue', pending')" and "dom pending \<subseteq> set queue"
  shows "dom pending' \<subseteq> set queue' \<and> dom pending' \<subseteq> dom pending \<and>
    (\<forall>c q. r = Some (c, q) \<longrightarrow> pending c = Some q \<and> c \<notin> dead \<and> pending' c = None) \<and>
    (\<forall>d. d \<notin> dead \<longrightarrow> (\<forall>q. r \<noteq> Some (d, q)) \<longrightarrow> pending' d = pending d)"
  using assms
proof (induction dead queue pending arbitrary: r queue' pending' rule: assign_head.induct)
  case (2 dead c queue pending)
  show ?case
  proof (cases "pending c")
    case None
    then have "dom pending \<subseteq> set queue" using 2(4) by (auto simp: subset_iff)
    moreover have "assign_head dead queue pending = (r, queue', pending')" using 2(3) None by simp
    ultimately show ?thesis by (intro 2(1) [OF None])
  next
    case (Some q)
    show ?thesis
    proof (cases "c \<in> dead")
      case True
      have "dom (pending(c := None)) \<subseteq> set queue" using 2(4) by auto
      moreover have "assign_head dead queue (pending(c := None)) = (r, queue', pending')" using 2(3) Some True by simp
      ultimately have ih: "dom pending' \<subseteq> set queue' \<and> dom pending' \<subseteq> dom (pending(c := None)) \<and>
          (\<forall>d q. r = Some (d, q) \<longrightarrow> (pending(c := None)) d = Some q \<and> d \<notin> dead \<and> pending' d = None) \<and>
          (\<forall>d. d \<notin> dead \<longrightarrow> (\<forall>q. r \<noteq> Some (d, q)) \<longrightarrow> pending' d = (pending(c := None)) d)"
        by (intro 2(2) [OF Some True])
      have "pending d = Some q" if "r = Some (d, q)" for d q
        using conjunct1 [OF conjunct2 [OF conjunct2 [OF ih]]] that by (simp split: if_splits)
      moreover have "pending' d = pending d" if "d \<notin> dead" "\<forall>q. r \<noteq> Some (d, q)" for d
        using conjunct2 [OF conjunct2 [OF conjunct2 [OF ih]]] that True by (auto split: if_splits)
      moreover have "dom (pending(c := None)) \<subseteq> dom pending" by auto
      ultimately show ?thesis using ih by blast
    next
      case False
      then have r: "r = Some (c, q)" "queue' = queue" "pending' = pending(c := None)" using 2(3) Some by simp_all
      have "dom (pending(c := None)) \<subseteq> set queue" "dom (pending(c := None)) \<subseteq> dom pending" using 2(4) by auto
      with Some False show ?thesis unfolding r by (intro conjI) (assumption | auto)+
    qed
  qed
qed auto

lemma same_slots_inv: "same_slots (sy_sched sy) s \<Longrightarrow> slots_inv sy \<Longrightarrow> slots_inv (sy\<lparr>sy_sched := s\<rparr>)"
  by (simp add: slots_inv_def same_slots_def Let_def)

lemma slots_inv_observers [simp]:
  "slots_inv (sy\<lparr>sy_merging := m\<rparr>) = slots_inv sy" "slots_inv (sy\<lparr>sy_owed := w\<rparr>) = slots_inv sy"
  "slots_inv (sy\<lparr>sy_dead := e\<rparr>) = slots_inv sy"
  by (simp_all add: slots_inv_def)

lemma assign_head_sub:
  "assign_head dead queue pending = (r, queue', pending') \<Longrightarrow> pending' d \<in> {None, pending d}"
  by (induction dead queue pending rule: assign_head.induct) (auto split: option.splits if_splits)

text \<open>What an assignment does.\<close>

lemma next_assign_cases:
  assumes "next_assign dead s = (push, s')" and "queue_inv s"
  obtains (closed) "ps_closing s" "push = None" "s' = releaseSlot s"
  | (idle) queue pending where "push = None" "s' = releaseSlot (s\<lparr>ps_queue := queue, ps_pending := pending\<rparr>)"
      "dom pending \<subseteq> set queue" "dom pending \<subseteq> dom (ps_pending s)" "\<forall>d. d \<notin> dead \<longrightarrow> pending d = ps_pending s d"
  | (assigned) c q queue pending where "push = Some (c, q)" "c \<notin> dead" "ps_pending s c = Some q"
      "s' = s\<lparr>ps_queue := queue, ps_pending := pending, ps_processing := (ps_processing s)(c \<mapsto> None)\<rparr>"
      "dom pending \<subseteq> set queue" "dom pending \<subseteq> dom (ps_pending s)" "pending c = None"
      "\<forall>d. d \<notin> dead \<longrightarrow> d \<noteq> c \<longrightarrow> pending d = ps_pending s d"
proof (cases "ps_closing s")
  case True
  then show ?thesis using assms(1) closed by (simp add: next_assign_def)
next
  case False
  obtain r queue pending where h: "assign_head dead (ps_queue s) (ps_pending s) = (r, queue, pending)"
    by (metis prod.collapse)
  have "dom (ps_pending s) \<subseteq> set (ps_queue s)" using assms(2) by (simp add: queue_inv_def)
  note spec = assign_head_spec [OF h this]
  show ?thesis
  proof (cases r)
    case None
    have "push = None" "s' = releaseSlot (s\<lparr>ps_queue := queue, ps_pending := pending\<rparr>)"
      using assms(1) False h None by (simp_all add: next_assign_def)
    with spec None show ?thesis by (intro idle) auto
  next
    case (Some cq)
    obtain c q where "cq = (c, q)" by fastforce
    then have "push = Some (c, q)"
        "s' = s\<lparr>ps_queue := queue, ps_pending := pending, ps_processing := (ps_processing s)(c \<mapsto> None)\<rparr>"
      using assms(1) False h Some by (simp_all add: next_assign_def)
    moreover have "c \<notin> dead" "ps_pending s c = Some q" "dom pending \<subseteq> set queue" "dom pending \<subseteq> dom (ps_pending s)"
        "pending c = None" "\<forall>d. d \<notin> dead \<longrightarrow> d \<noteq> c \<longrightarrow> pending d = ps_pending s d"
      using spec Some \<open>cq = (c, q)\<close> by auto
    ultimately show ?thesis using assigned by blast
  qed
qed

lemma assign_slots:
  assumes "next_assign dead (sy_sched sy) = (push, s')" and "queue_inv (sy_sched sy)" and "slots_inv sy"
    and "sy_holders sy \<noteq> 0"
  shows "slots_inv (sy\<lparr>sy_sched := s', sy_holders := sy_holders sy - 1\<rparr>) \<and> queue_inv s'"
  using assms(1,2)
proof (cases rule: next_assign_cases)
  case closed
  then show ?thesis using assms(2-4) by (auto simp: slots_inv_def queue_inv_def releaseSlot_def Let_def)
next
  case (idle queue pending)
  have "dom pending \<inter> dom (ps_processing (sy_sched sy)) = {}" using idle(4) assms(2) by (auto simp: queue_inv_def)
  with idle(2,3) assms(3,4) show ?thesis by (simp add: slots_inv_def queue_inv_def releaseSlot_def Let_def) linarith
next
  case (assigned c q queue pending)
  have c: "c \<notin> dom (ps_processing (sy_sched sy))" using assigned(3) assms(2) by (auto simp: queue_inv_def)
  have "dom pending \<inter> insert c (dom (ps_processing (sy_sched sy))) = {}"
    using assigned(6,7) assms(2) by (auto simp: queue_inv_def)
  with assigned(4,5) assms(3,4) c show ?thesis by (auto simp: slots_inv_def queue_inv_def Let_def)
qed

lemma done_slots:
  assumes "queue_inv (sy_sched sy)" and "slots_inv sy"
  shows "slots_inv (sy\<lparr>sy_sched := scheduler_Done dead (sy_sched sy) c\<rparr>) \<and> queue_inv (scheduler_Done dead (sy_sched sy) c)"
proof (cases "ps_processing (sy_sched sy) c")
  case None
  with assms show ?thesis by (simp add: scheduler_Done_def)
next
  case (Some later)
  then have mem: "c \<in> dom (ps_processing (sy_sched sy))" by blast
  then have pos: "card (dom (ps_processing (sy_sched sy))) > 0" using assms(2) by (auto simp: slots_inv_def Let_def card_gt_0_iff)
  have q: "queue_inv (scheduler_Done dead (sy_sched sy) c)"
    using assms(1) Some by (auto simp: scheduler_Done_def queue_inv_def releaseSlot_def Let_def split: option.split)
  have "ps_slots (scheduler_Done dead (sy_sched sy) c) = ps_slots (sy_sched sy) - 1"
    "ps_capacity (scheduler_Done dead (sy_sched sy) c) = ps_capacity (sy_sched sy)"
    "dom (ps_processing (scheduler_Done dead (sy_sched sy) c)) = dom (ps_processing (sy_sched sy)) - {c}"
    using Some by (auto simp: scheduler_Done_def releaseSlot_def Let_def split: option.split)
  with assms(2) mem pos q show ?thesis by (simp add: slots_inv_def Let_def) linarith
qed

lemma cancel_slots:
  assumes "queue_inv (sy_sched sy)" and "slots_inv sy"
  shows "slots_inv (sy\<lparr>sy_sched := scheduler_cancel (sy_sched sy) c\<rparr>) \<and> queue_inv (scheduler_cancel (sy_sched sy) c)"
proof -
  have q: "queue_inv (scheduler_cancel (sy_sched sy) c)"
    using assms(1) by (auto simp: scheduler_cancel_def queue_inv_def releaseSlot_def Let_def)
  show ?thesis
  proof (cases "ps_processing (sy_sched sy) c")
    case None
    then have "(ps_processing (sy_sched sy))(c := None) = ps_processing (sy_sched sy)" by (simp add: fun_upd_idem)
    with None assms(2) q show ?thesis by (simp add: scheduler_cancel_def slots_inv_def Let_def)
  next
    case (Some later)
    then have mem: "c \<in> dom (ps_processing (sy_sched sy))" by blast
    then have "card (dom (ps_processing (sy_sched sy))) > 0" using assms(2) by (auto simp: slots_inv_def Let_def card_gt_0_iff)
    with mem Some assms(2) q show ?thesis by (simp add: scheduler_cancel_def slots_inv_def releaseSlot_def Let_def) linarith
  qed
qed

lemma step_slots:
  assumes "scheduler_step merge covers ev sy = Some sy'" and "slots_inv sy" and "queue_inv (sy_sched sy)"
  shows "slots_inv sy' \<and> queue_inv (sy_sched sy')"
proof (cases ev)
  case (BeginEnqueue c u t)
  with assms same_slots_inv [OF begin_slots [of "sy_sched sy" "sy_dead sy" c u t]] begin_queue [OF assms(3), of "sy_dead sy" c u t]
  show ?thesis by (auto split: if_splits prod.splits)
next
  case (FinishEnqueue c)
  with assms same_slots_inv [OF finish_slots] finish_queue [OF assms(3)]
  show ?thesis by (auto split: option.splits)
next
  case AcquireSlot
  with assms show ?thesis by (clarsimp simp: slots_inv_def queue_inv_def Let_def split: if_splits)
next
  case AssignNext
  obtain push s' where n: "next_assign (sy_dead sy) (sy_sched sy) = (push, s')" by fastforce
  have "sy_holders sy \<noteq> 0" using assms(1) AssignNext by (simp split: if_splits)
  from assign_slots [OF n assms(3,2) this] assms(1) AssignNext n show ?thesis by (auto split: if_splits)
next
  case (PushDone c)
  with assms done_slots [OF assms(3,2)] show ?thesis by auto
next
  case (CancelConnection c)
  with assms cancel_slots [OF assms(3,2)] show ?thesis by (auto split: if_splits)
next
  case (EndContext c)
  with assms show ?thesis by auto
next
  case CloseScheduler
  then have sy': "sy' = sy\<lparr>sy_sched := scheduler_Close (sy_sched sy)\<rparr>" using assms(1) by simp
  show ?thesis
  proof (cases "ps_closing (sy_sched sy)")
    case True
    with assms(2,3) sy' show ?thesis by (simp add: scheduler_Close_def)
  next
    case False
    with assms(2,3) sy' show ?thesis by (simp add: scheduler_Close_def slots_inv_def queue_inv_def Let_def)
  qed
qed

text \<open>
  While a merge is under way, the entry it read is still there or has been taken; every update
  that is owed is covered by what is queued for its connection, or is the one being merged.
\<close>

definition live :: "'u system \<Rightarrow> conn \<Rightarrow> bool" where
  "live sy c \<longleftrightarrow> c \<notin> sy_dead sy \<and> \<not> ps_closing (sy_sched sy)"

definition merging_inv :: "('u \<Rightarrow> bool) \<Rightarrow> 'u system \<Rightarrow> bool" where
  "merging_inv ok sy \<longleftrightarrow>
     (\<forall>c q. entry (sy_sched sy) c = Some q \<longrightarrow> ok (q_Update q)) \<and>
     (\<forall>c p u t. sy_merging sy c = Some (p, u, t) \<longrightarrow>
        ok (q_Update p) \<and> ok u \<and> entry (sy_sched sy) c \<in> {None, Some p})"

definition owed_inv :: "('u \<Rightarrow> 'u \<Rightarrow> bool) \<Rightarrow> 'u system \<Rightarrow> bool" where
  "owed_inv covers sy \<longleftrightarrow>
     (\<forall>c u. (c, u) \<in> sy_owed sy \<longrightarrow> live sy c \<longrightarrow>
        (\<exists>q. entry (sy_sched sy) c = Some q \<and> covers (q_Update q) u) \<or> (\<exists>p t. sy_merging sy c = Some (p, u, t)))"

lemma entry_fields [simp]:
  "entry (s\<lparr>ps_queue := x\<rparr>) c = entry s c" "entry (s\<lparr>ps_cancellations := y\<rparr>) c = entry s c"
  "entry (releaseSlot s) c = entry s c" "entry (s\<lparr>ps_slots := z\<rparr>) c = entry s c"
  by (simp_all add: entry_simps releaseSlot_def split: option.split)

lemma begin_entry:
  assumes "enqueue_begin dead s c u t = (s', waiting)"
  shows "ps_closing s' = ps_closing s \<and>
    (if c \<in> dead \<or> ps_closing s then s' = s \<and> waiting = None
     else if entry s c = None then waiting = None \<and> (\<forall>d. entry s' d = (if d = c then Some \<lparr>q_Update = u, q_Started = t\<rparr> else entry s d))
     else waiting = entry s c \<and> (\<forall>d. entry s' d = entry s d))"
  using assms by (auto simp: enqueue_begin_def enqueue_iteration_cases entry_put split: if_splits option.splits)

lemma finish_entry:
  assumes "\<not> ps_closing s" and "c \<notin> dead"
  shows "entry (enqueue_finish merge dead s c p u t) d =
    (if d = c then Some (if entry s c = None then \<lparr>q_Update = u, q_Started = t\<rparr>
                         else \<lparr>q_Update = merge (q_Update p) u, q_Started = q_Started p\<rparr>)
     else entry s d)"
  using assms
  by (auto simp: enqueue_finish_def enqueue_iteration_cases entry_put split: prod.split option.split) (simp_all add: entry_def)

lemma done_entry: "d \<notin> dead \<Longrightarrow> \<not> ps_closing s \<Longrightarrow> queue_inv s \<Longrightarrow> entry (scheduler_Done dead s c) d = entry s d"
  by (auto simp: scheduler_Done_def queue_inv_def entry_simps releaseSlot_def Let_def split: option.splits)

lemma done_entry_sub: "queue_inv s \<Longrightarrow> entry (scheduler_Done dead s c) d \<in> {None, entry s d}"
  by (auto simp: scheduler_Done_def queue_inv_def entry_simps releaseSlot_def Let_def split: option.splits)

lemma cancel_entry: "entry (scheduler_cancel s c) d = (if d = c then None else entry s d)"
  by (auto simp: scheduler_cancel_def entry_simps releaseSlot_def Let_def split: option.splits)

lemma close_entry: "entry (scheduler_Close s) d \<in> {None, entry s d}"
  by (auto simp: scheduler_Close_def entry_simps)

lemma assign_entry:
  assumes "next_assign dead s = (push, s')" and "queue_inv s"
  shows assign_entry_sub: "entry s' d \<in> {None, entry s d}"
    and assign_closing: "ps_closing s' = ps_closing s"
    and assign_pushed: "push = Some (c, q) \<Longrightarrow> entry s c = Some q"
    and assign_others: "d \<notin> dead \<Longrightarrow> (\<And>q. push \<noteq> Some (d, q)) \<Longrightarrow> entry s' d = entry s d"
proof -
  have sub: "pending d \<in> {None, ps_pending s d}"
    if "assign_head dead (ps_queue s) (ps_pending s) = (r, queue', pending)" for r queue' pending
    using assign_head_sub [OF that] .
  show "entry s' d \<in> {None, entry s d}"
    using assms(1)
    by (auto simp: next_assign_def entry_simps releaseSlot_def split: if_splits prod.splits option.splits dest!: sub)
  show "ps_closing s' = ps_closing s"
    using assms(1) by (auto simp: next_assign_def releaseSlot_def split: if_splits prod.splits option.splits)
  show "entry s c = Some q" if "push = Some (c, q)"
    using assms
  proof (cases rule: next_assign_cases)
    case (assigned c' q' queue pending)
    then have "c \<in> dom (ps_pending s)" "ps_pending s c = Some q" using that by auto
    moreover from this have "ps_processing s c = None" using assms(2) by (auto simp: queue_inv_def)
    ultimately show ?thesis by (simp add: entry_simps)
  qed (use that in simp_all)
  show "entry s' d = entry s d" if "d \<notin> dead" "\<And>q. push \<noteq> Some (d, q)"
    using assms
  proof (cases rule: next_assign_cases)
    case (assigned c' q' queue pending)
    with that have "d \<noteq> c'" by auto
    with assigned that show ?thesis by (simp add: entry_simps split: option.split)
  qed (use that in \<open>simp_all add: entry_simps releaseSlot_def split: option.split\<close>)
qed

lemma merging_inv_sub:
  assumes "merging_inv ok sy" and "\<And>d. entry (sy_sched sy') d \<in> {None, entry (sy_sched sy) d}"
    and "sy_merging sy' = sy_merging sy"
  shows "merging_inv ok sy'"
  unfolding merging_inv_def
proof (intro conjI allI impI)
  show "ok (q_Update q)" if "entry (sy_sched sy') c = Some q" for c q
    using assms(1) assms(2) [of c] that by (auto simp: merging_inv_def)
next
  fix c p u t
  assume "sy_merging sy' c = Some (p, u, t)"
  with assms(1,3) have "ok (q_Update p) \<and> ok u \<and> entry (sy_sched sy) c \<in> {None, Some p}"
    unfolding merging_inv_def by metis
  with assms(2) [of c] show "ok (q_Update p)" "ok u" "entry (sy_sched sy') c \<in> {None, Some p}" by auto
qed

lemma owed_inv_keep:
  assumes "owed_inv covers sy" and "sy_merging sy' = sy_merging sy"
    and "\<And>d u. (d, u) \<in> sy_owed sy' \<Longrightarrow> live sy' d \<Longrightarrow> (d, u) \<in> sy_owed sy \<and> live sy d"
    and "\<And>d u q. (d, u) \<in> sy_owed sy' \<Longrightarrow> live sy' d \<Longrightarrow> entry (sy_sched sy) d = Some q \<Longrightarrow> covers (q_Update q) u \<Longrightarrow>
      entry (sy_sched sy') d = Some q"
  shows "owed_inv covers sy'"
  unfolding owed_inv_def
proof (intro allI impI)
  fix c u
  assume o: "(c, u) \<in> sy_owed sy'" "live sy' c"
  with assms(1,3) have "(\<exists>q. entry (sy_sched sy) c = Some q \<and> covers (q_Update q) u) \<or> (\<exists>p t. sy_merging sy c = Some (p, u, t))"
    unfolding owed_inv_def by blast
  then show "(\<exists>q. entry (sy_sched sy') c = Some q \<and> covers (q_Update q) u) \<or> (\<exists>p t. sy_merging sy' c = Some (p, u, t))"
    using assms(2,4) o by auto
qed

lemma observers_keep:
  assumes "merging_inv ok sy" and "owed_inv covers sy" and "sy_merging sy' = sy_merging sy" and "sy_owed sy' = sy_owed sy"
    and "\<And>d. entry (sy_sched sy') d \<in> {None, entry (sy_sched sy) d}"
    and "\<And>d. live sy' d \<Longrightarrow> live sy d \<and> entry (sy_sched sy') d = entry (sy_sched sy) d"
  shows "merging_inv ok sy' \<and> owed_inv covers sy'"
  using merging_inv_sub [OF assms(1,5,3)] owed_inv_keep [OF assms(2,3)] assms(4,6) by simp

lemma reaches_slots:
  assumes "reaches merge covers ok (initial_system s) sy" and "NewPushScheduler n = Some s"
  shows "slots_inv sy \<and> queue_inv (sy_sched sy)"
  using assms(1)
proof (induction rule: reaches.induct)
  case start
  show ?case using assms(2)
    by (auto simp: NewPushScheduler_def initial_system_def slots_inv_def queue_inv_def split: if_splits)
next
  case (step sy1 ev sy2)
  with step_slots [OF step(3)] show ?case by blast
qed

context notice_merge
begin

lemma begin_keeps:
  assumes m: "merging_inv wf sy" and o: "owed_inv covers sy" and none: "sy_merging sy c = None" and "wf u"
    and e: "enqueue_begin (sy_dead sy) (sy_sched sy) c u t = (s, waiting)"
    and sy': "sy' = sy\<lparr>sy_sched := s, sy_merging := (sy_merging sy)(c := map_option (\<lambda>p. (p, u, t)) waiting),
      sy_owed := insert (c, u) (sy_owed sy)\<rparr>"
  shows "merging_inv wf sy' \<and> owed_inv covers sy'"
proof -
  note e = begin_entry [OF e]
  have keep: "(\<exists>q. entry (sy_sched sy) c = Some q \<and> covers (q_Update q) v)" if "(c, v) \<in> sy_owed sy" "live sy c" for v
    using o none that unfolding owed_inv_def by fastforce
  have old: "ok = wf \<Longrightarrow> entry (sy_sched sy) d = Some q \<Longrightarrow> ok (q_Update q)" for ok d q using m unfolding merging_inv_def by blast
  consider (refused) "c \<in> sy_dead sy \<or> ps_closing (sy_sched sy)" "s = sy_sched sy" "waiting = None"
    | (queued) "c \<notin> sy_dead sy" "\<not> ps_closing (sy_sched sy)" "entry (sy_sched sy) c = None" "waiting = None"
        "\<forall>d. entry s d = (if d = c then Some \<lparr>q_Update = u, q_Started = t\<rparr> else entry (sy_sched sy) d)"
    | (merging) p where "entry (sy_sched sy) c = Some p" "waiting = Some p" "\<forall>d. entry s d = entry (sy_sched sy) d"
    using e by (auto split: if_splits)
  then show ?thesis
  proof cases
    case refused
    then show ?thesis using m o none unfolding sy'
      by (auto simp: merging_inv_def owed_inv_def live_def)
  next
    case queued
    have "live sy c" using queued by (simp add: live_def)
    with keep queued(3) have "(c, v) \<notin> sy_owed sy" for v by auto
    then show ?thesis using m o none queued e \<open>wf u\<close> covers_refl unfolding sy'
      by (auto simp: merging_inv_def owed_inv_def live_def)
  next
    case (merging p)
    then show ?thesis using m o none \<open>wf u\<close> e keep unfolding sy'
      by (auto simp: merging_inv_def owed_inv_def live_def)
  qed
qed

lemma finish_keeps:
  assumes m: "merging_inv wf sy" and o: "owed_inv covers sy" and c: "sy_merging sy c = Some (p, u, t)"
    and sy': "sy' = sy\<lparr>sy_sched := enqueue_finish merge (sy_dead sy) (sy_sched sy) c p u t,
      sy_merging := (sy_merging sy)(c := None)\<rparr>"
  shows "merging_inv wf sy' \<and> owed_inv covers sy'"
proof (cases "live sy c")
  case False
  then have "enqueue_finish merge (sy_dead sy) (sy_sched sy) c p u t = sy_sched sy"
    by (auto simp: live_def enqueue_finish_def)
  with m o False show ?thesis unfolding sy' by (auto simp: merging_inv_def owed_inv_def live_def)
next
  case True
  define s' where "s' = enqueue_finish merge (sy_dead sy) (sy_sched sy) c p u t"
  note e = finish_entry [of "sy_sched sy" c "sy_dead sy" merge p u t]
  have ok: "wf (q_Update p)" "wf u" "entry (sy_sched sy) c \<in> {None, Some p}"
    using m c unfolding merging_inv_def by blast+
  have same: "d \<noteq> c \<Longrightarrow> entry s' d = entry (sy_sched sy) d" for d using e True by (simp add: live_def s'_def)
  obtain q where q: "entry s' c = Some q" "wf (q_Update q)" "covers (q_Update q) u"
    "\<And>v. entry (sy_sched sy) c = Some p \<Longrightarrow> covers (q_Update p) v \<Longrightarrow> covers (q_Update q) v"
  proof (cases "entry (sy_sched sy) c")
    case None
    with e [of c] True have "entry s' c = Some \<lparr>q_Update = u, q_Started = t\<rparr>" by (simp add: live_def s'_def)
    with None ok covers_refl show ?thesis
      by (intro that [of "\<lparr>q_Update = u, q_Started = t\<rparr>"]) simp_all
  next
    case (Some x)
    with e [of c] True have "entry s' c = Some \<lparr>q_Update = merge (q_Update p) u, q_Started = q_Started p\<rparr>"
      by (simp add: live_def s'_def)
    with ok merge_wf merge_newer merge_older [OF ok(1,2)] show ?thesis
      by (intro that [of "\<lparr>q_Update = merge (q_Update p) u, q_Started = q_Started p\<rparr>"]) (auto intro: covers_trans)
  qed
  have closing: "ps_closing s' = ps_closing (sy_sched sy)"
    using finish_slots [of "sy_sched sy" merge "sy_dead sy" c p u t] by (simp add: same_slots_def s'_def)
  have "merging_inv wf sy'"
    using m q(1,2) same unfolding sy' s'_def [symmetric] merging_inv_def by (auto split: if_splits) (metis option.inject)+
  moreover have "\<exists>x. entry s' d = Some x \<and> covers (q_Update x) v \<or> (d \<noteq> c \<and> (\<exists>p t. sy_merging sy d = Some (p, v, t)))"
    if owed: "(d, v) \<in> sy_owed sy" and "live sy' d" for d v
  proof -
    have "live sy d" using that(2) closing unfolding sy' s'_def [symmetric] by (simp add: live_def)
    with o owed have "(\<exists>x. entry (sy_sched sy) d = Some x \<and> covers (q_Update x) v) \<or> (\<exists>p t. sy_merging sy d = Some (p, v, t))"
      unfolding owed_inv_def by blast
    then show ?thesis using same [of d] q ok(3) c by (cases "d = c") auto
  qed
  ultimately show ?thesis unfolding owed_inv_def unfolding sy' s'_def [symmetric] by auto
qed

lemma assign_keeps:
  assumes step: "scheduler_step merge covers AssignNext sy = Some sy'"
    and q: "queue_inv (sy_sched sy)" and m: "merging_inv wf sy" and o: "owed_inv covers sy"
  shows "merging_inv wf sy' \<and> owed_inv covers sy'"
proof -
  obtain push s where n: "next_assign (sy_dead sy) (sy_sched sy) = (push, s)" by fastforce
  then have sy': "sy_sched sy' = s" "sy_merging sy' = sy_merging sy" "sy_dead sy' = sy_dead sy"
    "sy_owed sy' = (case push of None \<Rightarrow> sy_owed sy
       | Some (c, q) \<Rightarrow> {(d, u) \<in> sy_owed sy. \<not> (d = c \<and> covers (q_Update q) u)})"
    using step by (auto split: if_splits)
  have "merging_inv wf sy'" by (intro merging_inv_sub [OF m]) (simp_all only: sy' assign_entry_sub [OF n q])
  moreover have "entry s d = Some x"
    if "(d, u) \<in> sy_owed sy'" "live sy' d" "entry (sy_sched sy) d = Some x" "covers (q_Update x) u" for d u x
  proof -
    have "push \<noteq> Some (d, y)" for y using that assign_pushed [OF n q, of d y] by (auto simp: sy'(4))
    then show ?thesis using assign_others [OF n q, of d] that by (simp add: live_def sy')
  qed
  then have "owed_inv covers sy'"
    by (intro owed_inv_keep [OF o]) (auto simp: sy' live_def assign_closing [OF n q] split: option.splits)
  ultimately show ?thesis ..
qed

lemma step_keeps:
  assumes step: "scheduler_step merge covers ev sy = Some sy'" and ok: "\<forall>c u t. ev = BeginEnqueue c u t \<longrightarrow> wf u"
    and q: "queue_inv (sy_sched sy)" and m: "merging_inv wf sy" and o: "owed_inv covers sy"
  shows "merging_inv wf sy' \<and> owed_inv covers sy'"
proof (cases ev)
  case (BeginEnqueue c u t)
  obtain s waiting where b: "enqueue_begin (sy_dead sy) (sy_sched sy) c u t = (s, waiting)" by fastforce
  have "sy_merging sy c = None" using step BeginEnqueue by (cases "sy_merging sy c") simp_all
  with step BeginEnqueue ok b show ?thesis by (intro begin_keeps [OF m o _ _ b]) simp_all
next
  case (FinishEnqueue c)
  then obtain p u t where "sy_merging sy c = Some (p, u, t)" using step by (auto split: option.splits)
  with step FinishEnqueue show ?thesis by (intro finish_keeps [OF m o]) auto
next
  case AcquireSlot
  with step show ?thesis by (intro observers_keep [OF m o]) (auto simp: live_def Let_def split: if_splits)
next
  case AssignNext
  then show ?thesis using assign_keeps [OF _ q m o] step by simp
next
  case (PushDone c)
  have "ps_closing (scheduler_Done (sy_dead sy) (sy_sched sy) c) = ps_closing (sy_sched sy)"
    by (simp add: scheduler_Done_def releaseSlot_def Let_def split: option.split)
  moreover have "sy' = sy\<lparr>sy_sched := scheduler_Done (sy_dead sy) (sy_sched sy) c\<rparr>" using step PushDone by simp
  ultimately show ?thesis
    by (intro observers_keep [OF m o]) (simp_all add: live_def done_entry [OF _ _ q] done_entry_sub [OF q] del: insert_iff)
next
  case (CancelConnection c)
  have "ps_closing (scheduler_cancel (sy_sched sy) c) = ps_closing (sy_sched sy)"
    by (simp add: scheduler_cancel_def releaseSlot_def Let_def)
  with CancelConnection step show ?thesis
    by (intro observers_keep [OF m o]) (auto simp: live_def cancel_entry split: if_splits)
next
  case (EndContext c)
  with step show ?thesis by (intro observers_keep [OF m o]) (auto simp: live_def)
next
  case CloseScheduler
  have "ps_closing (scheduler_Close (sy_sched sy))" by (simp add: scheduler_Close_def)
  moreover have "sy' = sy\<lparr>sy_sched := scheduler_Close (sy_sched sy)\<rparr>" using step CloseScheduler by simp
  ultimately show ?thesis
    by (intro observers_keep [OF m o]) (simp_all add: live_def close_entry del: insert_iff)
qed

lemma reaches_keeps:
  assumes "reaches merge covers wf (initial_system s) sy" and "NewPushScheduler n = Some s"
  shows "queue_inv (sy_sched sy) \<and> merging_inv wf sy \<and> owed_inv covers sy"
  using assms(1)
proof (induction rule: reaches.induct)
  case start
  show ?case using assms(2)
    by (auto simp: NewPushScheduler_def initial_system_def queue_inv_def merging_inv_def owed_inv_def entry_simps split: if_splits)
next
  case (step sy1 ev sy2)
  have "slots_inv sy1" using reaches_slots [OF step(1) assms(2)] by simp
  with step step_slots [OF step(3)] step_keeps [OF step(3,2)] show ?case by blast
qed

end



fun scheduler_run ::
  "('u \<Rightarrow> 'u \<Rightarrow> 'u) \<Rightarrow> ('u \<Rightarrow> 'u \<Rightarrow> bool) \<Rightarrow> 'u SchedulerEvent list \<Rightarrow> 'u system \<Rightarrow> 'u system option" where
  "scheduler_run merge covers [] sy = Some sy"
| "scheduler_run merge covers (ev # evs) sy =
     (case scheduler_step merge covers ev sy of None \<Rightarrow> None | Some sy1 \<Rightarrow> scheduler_run merge covers evs sy1)"

lemma run_reaches:
  "scheduler_run merge covers evs sy1 = Some sy2 \<Longrightarrow> reaches merge covers ok sy sy1 \<Longrightarrow>
   \<forall>c u t. BeginEnqueue c u t \<in> set evs \<longrightarrow> ok u \<Longrightarrow> reaches merge covers ok sy sy2"
proof (induction evs arbitrary: sy1)
  case (Cons ev evs)
  then obtain sy3 where step: "scheduler_step merge covers ev sy1 = Some sy3" "scheduler_run merge covers evs sy3 = Some sy2"
    by (auto split: option.splits)
  have "reaches merge covers ok sy sy3" by (rule reaches.step [OF Cons(3) _ step(1)]) (use Cons(4) in auto)
  moreover have "\<forall>c u t. BeginEnqueue c u t \<in> set evs \<longrightarrow> ok u" using Cons(4) by (meson list.set_intros(2))
  ultimately show ?case using Cons(1) [OF step(2)] by blast
qed simp

section \<open>Properties\<close>

text \<open>
  C3: no notice is lost.  In every interleaving of enqueuers, dispatchers, completions, ended contexts,
  cancellations and the shutdown, an update accepted for a connection whose context lives is, until a push
  that covers it is assigned, covered by what is queued for the connection or is being merged
  into it by its enqueuer; and a connection with queued work is being served (and is queued
  again when the push is done) or stands in the queue.  Merging is what \<open>update.go\<close> does.
\<close>

theorem no_notice_is_lost:
  assumes "NewPushScheduler n = Some s0" and "reaches Merge update_covers update_wf (initial_system s0) sy"
    and "(c, u) \<in> sy_owed sy" and "c \<notin> sy_dead sy" and "\<not> ps_closing (sy_sched sy)"
  shows "(\<exists>q serving. queuedLocked (sy_sched sy) c = (Some q, serving) \<and> update_covers (q_Update q) u \<and>
            (serving \<or> c \<in> set (ps_queue (sy_sched sy)))) \<or>
         (\<exists>p t. sy_merging sy c = Some (p, u, t))"
proof -
  have inv: "queue_inv (sy_sched sy)" "owed_inv update_covers sy"
    using notices.reaches_keeps [OF assms(2,1)] by simp_all
  have "live sy c" using assms(4,5) by (simp add: live_def)
  with inv(2) assms(3) consider q where "entry (sy_sched sy) c = Some q" "update_covers (q_Update q) u"
    | "\<exists>p t. sy_merging sy c = Some (p, u, t)"
    unfolding owed_inv_def by blast
  then show ?thesis
  proof cases
    case (1 q)
    then have "ps_processing (sy_sched sy) c = None \<Longrightarrow> c \<in> set (ps_queue (sy_sched sy))"
      using entry_pending_queue [OF inv(1), of c] by simp
    with 1 show ?thesis by (auto simp: entry_def queuedLocked_def split: option.splits)
  qed simp
qed

definition every_type :: Update where
  "every_type = \<lparr>u_version = ''1'', u_candidates = Map.empty, u_affectedTypes = {}, u_full = True, u_fullTypes = {}\<rparr>"

definition address_only :: Update where
  "address_only = \<lparr>u_version = ''2'', u_candidates = Map.empty, u_affectedTypes = {AddressType}, u_full = False, u_fullTypes = {}\<rparr>"

lemma concrete_notices: "update_wf every_type" "update_wf address_only" "\<not> update_covers every_type address_only"
  by (simp_all add: update_wf_def every_type_def address_only_def candidates_at_def batch_wf_def update_covers_def)

definition concrete_run :: "Update SchedulerEvent list" where
  "concrete_run =
     [BeginEnqueue 7 every_type 0, AcquireSlot, BeginEnqueue 7 address_only 1, AssignNext, FinishEnqueue 7]"

theorem no_notice_is_lost_witness:
  "\<exists>s0 sy. NewPushScheduler 1 = Some s0 \<and> scheduler_run Merge update_covers concrete_run (initial_system s0) = Some sy \<and>
     (7, address_only) \<in> sy_owed sy \<and> ps_processing (sy_sched sy) 7 \<noteq> None \<and>
     (\<exists>q. queuedLocked (sy_sched sy) 7 = (Some q, True) \<and> update_covers (q_Update q) address_only)"
proof -
  define s0 :: "Update PushScheduler" where "s0 = the (NewPushScheduler 1)"
  have s0: "NewPushScheduler 1 = Some s0" by (simp add: s0_def NewPushScheduler_def)
  obtain sy where run: "scheduler_run Merge update_covers concrete_run (initial_system s0) = Some sy"
    and sy: "(7, address_only) \<in> sy_owed sy" "7 \<notin> sy_dead sy" "\<not> ps_closing (sy_sched sy)"
      "ps_processing (sy_sched sy) 7 \<noteq> None" "sy_merging sy 7 = None"
    by (simp add: concrete_run_def s0_def NewPushScheduler_def initial_system_def enqueue_begin_def enqueue_iteration_def
        queuedLocked_def put_queued_def next_assign_def enqueue_finish_def concrete_notices Let_def)
  have "reaches Merge update_covers update_wf (initial_system s0) sy"
    by (rule run_reaches [OF run reaches.start]) (simp add: concrete_run_def concrete_notices)
  from no_notice_is_lost [OF s0 this sy(1-3)] sy(4,5) run s0 sy(1) show ?thesis
    by (auto simp: queuedLocked_def split: option.splits)
qed



end
