(* ===== verification/Snapshot_Index.thy ===== *)
theory Snapshot_Index
  imports Resource_Set
begin

section \<open>The indexes of a snapshot are correct\<close>

text \<open>
  Every read of a snapshot through its postings is the scan of its resources: for snapshots that
  \<open>NewResourceSet\<close> builds, and after any batch of changes, with the memberships that \<open>Apply\<close> updates
  at once and those it defers to the end of the batch.
\<close>

subsection \<open>Sorted names\<close>

definition sd :: "string list \<Rightarrow> bool" where
  "sd xs \<longleftrightarrow> sorted xs \<and> distinct xs"

lemma sd_Nil [simp]: "sd []"
  by (simp add: sd_def)

lemma sd_append: "sd (xs @ ys) \<longleftrightarrow> sd xs \<and> sd ys \<and> (\<forall>x\<in>set xs. \<forall>y\<in>set ys. x < y)"
  by (auto simp: sd_def sorted_append order_less_le)

lemma sd_Cons: "sd (x # xs) \<longleftrightarrow> sd xs \<and> (\<forall>y\<in>set xs. x < y)"
  by (auto simp: sd_def order_less_le)

lemma sd_eq: "sd xs \<Longrightarrow> sd ys \<Longrightarrow> set xs = set ys \<Longrightarrow> xs = ys"
  by (simp add: sd_def sorted_distinct_set_unique)

lemma sd_take_drop: "sd xs \<Longrightarrow> sd (take n xs) \<and> sd (drop n xs)"
  by (simp add: sd_def)

lemma search_between_spec:
  "i \<le> j \<Longrightarrow> j \<le> length names \<Longrightarrow> sorted names \<Longrightarrow> (\<forall>k<i. names ! k < x) \<Longrightarrow>
   (\<forall>k. j \<le> k \<longrightarrow> k < length names \<longrightarrow> x \<le> names ! k) \<Longrightarrow>
   search_between names x i j \<le> length names \<and> (\<forall>k. k < search_between names x i j \<longrightarrow> names ! k < x) \<and>
   (\<forall>k. search_between names x i j \<le> k \<longrightarrow> k < length names \<longrightarrow> x \<le> names ! k)"
proof (induction names x i j rule: search_between.induct)
  case (1 names x i j)
  show ?case
  proof (cases "i < j")
    case True
    define h where "h = (i + j) div 2"
    have h: "i \<le> h" "h < j" using True by (auto simp: h_def)
    show ?thesis
    proof (cases "names ! h < x")
      case less: True
      have "names ! k < x" if "k < Suc h" for k
      proof -
        have "names ! k \<le> names ! h" using that h "1.prems" by (intro sorted_nth_mono) auto
        with less show ?thesis by (rule le_less_trans [rotated])
      qed
      with "1.IH"(1) [OF True h_def less] h "1.prems" show ?thesis
        by (subst (1 2 3) search_between.simps) (simp add: True less h_def [symmetric] Let_def)
    next
      case geq: False
      have "x \<le> names ! k" if "h \<le> k" "k < length names" for k
      proof -
        have "names ! h \<le> names ! k" using that "1.prems" by (intro sorted_nth_mono) auto
        with geq show ?thesis by (meson not_le order_trans linear)
      qed
      with "1.IH"(2) [OF True h_def geq] h "1.prems" show ?thesis
        by (subst (1 2 3) search_between.simps) (simp add: True geq h_def [symmetric] Let_def)
    qed
  next
    case False
    with "1.prems" show ?thesis by (subst (1 2 3) search_between.simps) simp
  qed
qed

lemma SearchStrings_spec:
  assumes "sd names"
  shows "SearchStrings names x \<le> length names"
    and "y \<in> set (take (SearchStrings names x) names) \<Longrightarrow> y < x"
    and "y \<in> set (drop (SearchStrings names x) names) \<Longrightarrow> x \<le> y"
  using search_between_spec [of 0 "length names" names x] assms
  by (auto simp: SearchStrings_def sd_def in_set_conv_nth)

lemma contains_name_iff:
  assumes "sd names"
  shows "contains_name names x \<longleftrightarrow> x \<in> set names"
proof
  define p where "p = SearchStrings names x"
  assume "x \<in> set names"
  then have "x \<in> set (take p names) \<or> x \<in> set (drop p names)" by (metis append_take_drop_id Un_iff set_append)
  then have mem: "x \<in> set (drop p names)" using SearchStrings_spec(2) [OF assms, of x x] by (auto simp: p_def)
  then have "p < length names" by (metis drop_all empty_iff not_less list.set(1))
  then have dr: "drop p names = names ! p # drop (Suc p) names" by (simp add: Cons_nth_drop_Suc)
  have "x \<le> names ! p" using SearchStrings_spec(3) [OF assms, of "names ! p" x] dr by (simp add: p_def)
  moreover have "names ! p \<le> x" using mem dr sd_take_drop [OF assms, of p] by (auto simp: sd_Cons)
  ultimately show "contains_name names x" using \<open>p < length names\<close> by (simp add: contains_name_def Let_def p_def)
qed (metis contains_name_def nth_mem)

lemma split_at:
  assumes "sd names" and "x \<in> set names"
  shows "names = take (SearchStrings names x) names @ x # drop (Suc (SearchStrings names x)) names"
  using assms contains_name_iff [OF assms(1), of x] id_take_nth_drop [of "SearchStrings names x" names]
  by (simp add: contains_name_def Let_def)

lemma insert_at:
  assumes "sd names" and "x \<notin> set names"
  defines "p \<equiv> SearchStrings names x"
  shows "sd (take p names @ x # drop p names)" "set (take p names @ x # drop p names) = insert x (set names)"
proof -
  have "x < y" if "y \<in> set (drop p names)" for y
    using SearchStrings_spec(3) [OF assms(1), of y x] that assms(2) by (auto simp: p_def order_less_le dest: in_set_dropD)
  then show "sd (take p names @ x # drop p names)"
    using sd_take_drop [OF assms(1), of p] SearchStrings_spec(2) [OF assms(1), of _ x]
    by (auto simp: sd_append sd_Cons p_def intro: less_trans)
  show "set (take p names @ x # drop p names) = insert x (set names)"
    by (metis append_take_drop_id set_append list.simps(15) Un_insert_right)
qed

lemma delete_at:
  assumes "sd names" and "x \<in> set names"
  defines "p \<equiv> SearchStrings names x"
  shows "sd (take p names @ drop (Suc p) names)" "set (take p names @ drop (Suc p) names) = set names - {x}"
proof -
  have s: "names = take p names @ x # drop (Suc p) names" using split_at [OF assms(1,2)] by (simp add: p_def)
  with assms(1) have "sd (take p names @ x # drop (Suc p) names)" by simp
  then have "sd (take p names @ drop (Suc p) names)" "x \<notin> set (take p names @ drop (Suc p) names)"
    by (auto simp: sd_append sd_Cons)
  then show "sd (take p names @ drop (Suc p) names)" "set (take p names @ drop (Suc p) names) = set names - {x}"
    using arg_cong [OF s, of set] by auto
qed

subsection \<open>One posting\<close>

lemma lookupNames_put:
  "lookupNames (put_names l k v) k' = (if k' = k then (case v of None \<Rightarrow> [] | Some names \<Rightarrow> names) else lookupNames l k')"
  by (auto simp: lookupNames_def put_names_def split: option.split)

lemma updateLookupMembership_spec:
  fixes n :: string and add :: bool
  assumes "sd (lookupNames l key)"
  defines "l' \<equiv> updateLookupMembership l key (lookupNames l key) n add"
  shows "sd (lookupNames l' key) \<and>
    set (lookupNames l' key) = (if add then insert n (set (lookupNames l key)) else set (lookupNames l key) - {n})"
    and "k \<noteq> key \<Longrightarrow> lookupNames l' k = lookupNames l k"
proof -
  note c = contains_name_iff [OF assms(1), of n]
  show "sd (lookupNames l' key) \<and>
    set (lookupNames l' key) = (if add then insert n (set (lookupNames l key)) else set (lookupNames l key) - {n})"
  proof (cases "add = contains_name (lookupNames l key) n")
    case True
    then have "l' = l" by (simp add: l'_def updateLookupMembership_def Let_def)
    with True c assms(1) show ?thesis by auto
  next
    case False
    show ?thesis
    proof (cases add)
      case True
      with False c insert_at [OF assms(1), of n] show ?thesis
        by (simp add: l'_def updateLookupMembership_def Let_def lookupNames_put)
    next
      case del: False
      with False c have mem: "n \<in> set (lookupNames l key)" by simp
      show ?thesis
      proof (cases "length (lookupNames l key) = 1")
        case True
        with mem have "set (lookupNames l key) = {n}" by (auto simp: length_Suc_conv)
        with True del False show ?thesis by (simp add: l'_def updateLookupMembership_def Let_def lookupNames_put)
      next
        case len: False
        with del False mem delete_at [OF assms(1) mem] show ?thesis
          by (simp add: l'_def updateLookupMembership_def Let_def lookupNames_put)
      qed
    qed
  qed
  show "k \<noteq> key \<Longrightarrow> lookupNames l' k = lookupNames l k"
    by (simp add: l'_def updateLookupMembership_def Let_def lookupNames_put)
qed

text \<open>The one pass over a posting with deferred changes.\<close>

definition decided :: "membership_change list \<Rightarrow> string list \<Rightarrow> string \<Rightarrow> bool" where
  "decided changes names n = (case map_of (rev changes) n of Some add \<Rightarrow> add | None \<Rightarrow> n \<in> set names)"

lemma decided_Nil [simp]: "decided [] names = (\<lambda>n. n \<in> set names)"
  by (simp add: decided_def fun_eq_iff)

lemma map_of_filter_eq: "map_of (filter (\<lambda>c. fst c = n) xs) n = map_of xs n"
  by (induction xs) auto

lemma map_of_rev_sort: "map_of (rev (sort_key fst cs)) n = map_of (rev cs) n"
proof -
  have "filter (\<lambda>c. fst c = n) (rev (sort_key fst cs)) = filter (\<lambda>c. fst c = n) (rev cs)"
    by (simp add: rev_filter [symmetric] sort_key_stable)
  then show ?thesis by (metis map_of_filter_eq)
qed

lemma last_decisions_spec:
  "sorted (map fst cs) \<Longrightarrow> sd (map fst (last_decisions cs)) \<and> set (map fst (last_decisions cs)) = set (map fst cs) \<and>
   (\<forall>n. map_of (last_decisions cs) n = map_of (rev cs) n)"
proof (induction cs rule: last_decisions.induct)
  case (3 c d cs)
  show ?case
  proof (cases "fst c = fst d")
    case True
    have "map_of (rev (c # d # cs)) n = map_of (rev (d # cs)) n" for n
      using True by (cases c; cases d) (auto simp: map_add_def split: option.split)
    with 3 True show ?thesis by auto
  next
    case False
    with 3(3) have lt: "fst c < x" if "x \<in> set (map fst (d # cs))" for x
      using that by (auto simp: order_less_le)
    have "map_of (c # last_decisions (d # cs)) n = map_of (rev (c # d # cs)) n" for n
    proof (cases "n = fst c")
      case True
      have "map_of (rev (d # cs)) n = None"
        using lt True by (auto simp: map_of_eq_None_iff)
      with True show ?thesis by (cases c) (auto simp: map_add_def split: option.splits if_splits)
    next
      case ne: False
      with 3(2) [OF False] 3(3) show ?thesis by (cases c) (auto simp: map_add_def split: option.split)
    qed
    with 3(2) [OF False] 3(3) False lt show ?thesis by (auto simp: sd_Cons)
  qed
qed (auto simp: sd_Cons)

lemma rebuild_drop: "rebuild names position cs = rebuild (drop position names) 0 cs"
proof (induction cs arbitrary: position names)
  case (Cons c cs)
  obtain n add where c: "c = (n, add)" by fastforce
  define p where "p = SearchStrings (drop position names) n"
  have "rebuild names (position + p) cs = rebuild (drop position names) p cs"
    "rebuild names (Suc (position + p)) cs = rebuild (drop position names) (Suc p) cs"
    by (subst Cons.IH, subst (2) Cons.IH, simp add: add.commute)+
  then show ?case by (simp add: c p_def [symmetric] Let_def)
qed simp

lemma rebuild_step:
  "rebuild ns 0 ((n, add) # cs) =
     (let p = SearchStrings ns n in
      take p ns @ (if add then n # rebuild (drop p ns) 0 cs else rebuild (drop (Suc p) ns) 0 cs))"
  by (simp add: Let_def rebuild_drop [of ns])

lemma rebuild_spec:
  "sd ns \<Longrightarrow> sd (map fst cs) \<Longrightarrow> \<forall>(n, add)\<in>set cs. add = (n \<notin> set ns) \<Longrightarrow>
   sd (rebuild ns 0 cs) \<and> set (rebuild ns 0 cs) = {m \<in> set ns. (m, False) \<notin> set cs} \<union> {m. (m, True) \<in> set cs}"
proof (induction cs arbitrary: ns)
  case (Cons c cs)
  obtain n add where c: "c = (n, add)" by fastforce
  define p where "p = SearchStrings ns n"
  have later: "n < m" if "(m, a) \<in> set cs" for m a
    using Cons.prems(2) that by (force simp: c sd_Cons)
  have low: "y < n" if "y \<in> set (take p ns)" for y using SearchStrings_spec(2) [OF Cons.prems(1)] that by (simp add: p_def)
  have apart: "(x, a) \<notin> set cs" if "x \<in> set (take p ns) \<or> x = n" for x a
    using low [of x] later [of x a] that by (auto dest: less_asym)
  have sds: "sd (take p ns)" "sd (drop p ns)" "sd (drop (Suc p) ns)" using sd_take_drop [OF Cons.prems(1)] by blast+
  have cs: "sd (map fst cs)" using Cons.prems(2) by (simp add: sd_Cons)
  have mem: "m \<in> set ns \<longleftrightarrow> m \<in> set (drop p ns)" if "n < m" for m
    using low that by (metis Un_iff append_take_drop_id not_less_iff_gr_or_eq set_append)
  show ?case
  proof (cases add)
    case True
    have nn: "n \<notin> set ns" using Cons.prems(3) True by (simp add: c)
    have high: "n < y" if "y \<in> set (drop p ns)" for y
      using SearchStrings_spec(3) [OF Cons.prems(1), of y n] that nn by (auto simp: p_def order_less_le dest: in_set_dropD)
    have "\<forall>(m, a)\<in>set cs. a = (m \<notin> set (drop p ns))" using Cons.prems(3) mem later by (fastforce simp: c)
    note ih = Cons.IH [OF sds(2) cs this]
    have "n < y" if "y \<in> set (rebuild (drop p ns) 0 cs)" for y using ih that high later by auto
    then have "sd (take p ns @ n # rebuild (drop p ns) 0 cs)"
      using ih sds(1) low by (auto simp: sd_append sd_Cons intro: less_trans)
    moreover have "set ns = set (take p ns) \<union> set (drop p ns)" by (metis append_take_drop_id set_append)
    ultimately show ?thesis using ih True apart nn
      by (auto simp: c rebuild_step p_def [symmetric] Let_def simp del: rebuild.simps)
  next
    case False
    have nn: "n \<in> set ns" using Cons.prems(3) False by (simp add: c)
    have split: "ns = take p ns @ n # drop (Suc p) ns" using split_at [OF Cons.prems(1) nn] by (simp add: p_def)
    have high: "n < y" if "y \<in> set (drop (Suc p) ns)" for y
      using Cons.prems(1) that by (subst (asm) split) (auto simp: sd_append sd_Cons)
    have mem': "m \<in> set ns \<longleftrightarrow> m \<in> set (drop (Suc p) ns)" if "n < m" for m
      using low that arg_cong [OF split, of set] by (auto dest: less_not_sym)
    have "\<forall>(m, a)\<in>set cs. a = (m \<notin> set (drop (Suc p) ns))" using Cons.prems(3) mem' later by (fastforce simp: c)
    note ih = Cons.IH [OF sds(3) cs this]
    have "n < y" if "y \<in> set (rebuild (drop (Suc p) ns) 0 cs)" for y using ih that high later by auto
    then have "sd (take p ns @ rebuild (drop (Suc p) ns) 0 cs)"
      using ih sds(1) low by (auto simp: sd_append intro: less_trans)
    moreover have "set ns = set (take p ns) \<union> insert n (set (drop (Suc p) ns))" using arg_cong [OF split, of set] by simp
    ultimately show ?thesis using ih False apart low [of n] high [of n]
      by (auto simp: c rebuild_step p_def [symmetric] Let_def simp del: rebuild.simps)
  qed
qed simp

lemma emptied_posting:
  assumes "sd names" and "sd (map fst effective)" and "\<forall>(n, add)\<in>set effective. add = (n \<notin> set names)"
    and "length names + length (filter snd effective) - length (filter (\<lambda>c. \<not> snd c) effective) = 0"
  shows "{m \<in> set names. (m, False) \<notin> set effective} \<union> {m. (m, True) \<in> set effective} = {}"
proof -
  define R where "R = map fst (filter (\<lambda>c. \<not> snd c) effective)"
  have d: "distinct R" "distinct names" using assms(1,2) by (simp_all add: R_def sd_def distinct_map_filter)
  have sub: "set R \<subseteq> set names" using assms(3) by (auto simp: R_def)
  have "length R \<le> length names" using card_mono [OF _ sub] d by (simp add: distinct_card)
  moreover have "length R = length (filter (\<lambda>c. \<not> snd c) effective)" by (simp add: R_def)
  ultimately have len: "length R = length names" "length (filter snd effective) = 0" using assms(4) by linarith+
  have "set R = set names" using sub d len(1) by (intro card_subset_eq) (simp_all add: distinct_card)
  then have "(m, False) \<in> set effective" if "m \<in> set names" for m using that by (auto simp: R_def image_iff)
  moreover have "(m, True) \<notin> set effective" for m using len(2) by (auto simp: filter_empty_conv)
  ultimately show ?thesis by auto
qed

lemma apply_posting_spec:
  fixes changes :: "membership_change list"
  assumes "sd (lookupNames l key)" and "changes \<noteq> []"
  defines "l' \<equiv> apply_posting l key changes"
  shows "sd (lookupNames l' key) \<and> set (lookupNames l' key) = {n. decided changes (lookupNames l key) n}"
    and "k \<noteq> key \<Longrightarrow> lookupNames l' k = lookupNames l k"
proof -
  define names where "names = lookupNames l key"
  define last where "last = last_decisions (sort_key fst changes)"
  define effective where "effective = filter (\<lambda>(name, add). add \<noteq> contains_name names name) last"
  have sdn: "sd names" using assms(1) by (simp add: names_def)
  have last: "sd (map fst last)" "map_of last n = map_of (rev changes) n" for n
    using last_decisions_spec [of "sort_key fst changes"] map_of_rev_sort [of changes] by (simp_all add: last_def)
  have eff: "effective = filter (\<lambda>(name, add). add = (name \<notin> set names)) last"
    unfolding effective_def using contains_name_iff [OF sdn] by (intro filter_cong) auto
  have sde: "sd (map fst effective)" using last(1) by (simp add: eff sd_def sorted_filter distinct_map_filter)
  have agree: "\<forall>(n, add)\<in>set effective. add = (n \<notin> set names)" by (auto simp: eff)
  have mem: "(n, a) \<in> set last \<longleftrightarrow> map_of (rev changes) n = Some a" for n a
    using map_of_eq_Some_iff [of last n a] last by (simp add: sd_def)
  have target: "{m \<in> set names. (m, False) \<notin> set effective} \<union> {m. (m, True) \<in> set effective} = {n. decided changes names n}"
  proof (intro set_eqI iffI)
    fix n
    assume "n \<in> {m \<in> set names. (m, False) \<notin> set effective} \<union> {m. (m, True) \<in> set effective}"
    then show "n \<in> {n. decided changes names n}"
      by (cases "map_of (rev changes) n") (auto simp: eff mem decided_def)
  next
    fix n
    assume "n \<in> {n. decided changes names n}"
    then show "n \<in> {m \<in> set names. (m, False) \<notin> set effective} \<union> {m. (m, True) \<in> set effective}"
      by (cases "map_of (rev changes) n") (auto simp: eff mem decided_def)
  qed
  show "sd (lookupNames l' key) \<and> set (lookupNames l' key) = {n. decided changes (lookupNames l key) n}"
  proof (cases "length changes = 1")
    case True
    then obtain n a where "changes = [(n, a)]" by (auto simp: length_Suc_conv)
    with updateLookupMembership_spec(1) [OF assms(1), of n a] show ?thesis
      by (auto simp: l'_def apply_posting_def Let_def decided_def)
  next
    case False
    note spec = rebuild_spec [OF sdn sde agree, unfolded target]
    define size where "size = length names + length (filter snd effective) - length (filter (\<lambda>c. \<not> snd c) effective)"
    have l': "l' = (if effective = [] then l else if size = 0 then put_names l key None else put_names l key (Some (rebuild names 0 effective)))"
      using False by (simp add: l'_def apply_posting_def Let_def names_def effective_def last_def size_def)
    have empty: "{n. decided changes names n} = {}" if "size = 0"
      using emptied_posting [OF sdn sde agree] that target by (simp add: size_def)
    have none: "{n. decided changes names n} = set names" if "effective = []" using target that by simp
    show ?thesis using spec empty none sdn by (auto simp: l' lookupNames_put names_def [symmetric])
  qed
  show "k \<noteq> key \<Longrightarrow> lookupNames l' k = lookupNames l k"
    by (simp add: l'_def apply_posting_def Let_def lookupNames_put updateLookupMembership_def)
qed

subsection \<open>Deferred and direct changes together\<close>

definition posting :: "resourceTypeIndex \<Rightarrow> resourceLookupEntry \<Rightarrow> string list" where
  "posting index e = lookupNames (lookup_of index (le_kind e)) (le_key e)"

text \<open>
  What the postings of a type and the changes that wait say of every entry and name, \<open>M\<close>.  Only
  postings with more than one name have changes waiting.
\<close>

definition tracks ::
  "bool \<Rightarrow> string \<Rightarrow> resourceTypeIndex \<Rightarrow> pending_updates \<Rightarrow> (resourceLookupEntry \<Rightarrow> string \<Rightarrow> bool) \<Rightarrow> bool" where
  "tracks batch typeURL index pending M \<longleftrightarrow>
     (\<forall>e. le_kind e \<le> 1 \<longrightarrow>
        sd (posting index e) \<and>
        (pending_of pending (typeURL, e) \<noteq> [] \<longrightarrow> batch \<and> length (posting index e) > 1) \<and>
        (\<forall>n. M e n = decided (pending_of pending (typeURL, e)) (posting index e) n))"

lemma lookup_of_set: "lookup_of (set_lookup index k l) k' = (if (k' = 1) = (k = 1) then l else lookup_of index k')"
  by (simp add: lookup_of_def set_lookup_def)

lemma set_lookup_fields [simp]:
  "ti_shards (set_lookup index k l) = ti_shards index" "ti_length (set_lookup index k l) = ti_length index"
  "shard_get (set_lookup index k l) n = shard_get index n"
  by (simp_all add: set_lookup_def shard_get_def)

lemma entry_eq: "le_kind e \<le> 1 \<Longrightarrow> le_kind e' \<le> 1 \<Longrightarrow> (le_kind e = 1) = (le_kind e' = 1) \<Longrightarrow> le_key e = le_key e' \<Longrightarrow> e = (e' :: resourceLookupEntry)"
  by (cases e; cases e') auto

lemma posting_set:
  assumes "le_kind e \<le> 1" and "le_kind e' \<le> 1"
    and "\<And>k. k \<noteq> le_key e \<Longrightarrow> lookupNames l k = lookupNames (lookup_of index (le_kind e)) k"
  shows "posting (set_lookup index (le_kind e) l) e' = (if e' = e then lookupNames l (le_key e) else posting index e')"
proof (cases "(le_kind e' = 1) = (le_kind e = 1)")
  case True
  then have "le_kind e' = le_kind e" using assms(1,2) by auto
  moreover have "le_key e' \<noteq> le_key e" if "e' \<noteq> e" using entry_eq [OF assms(2,1) True] that by blast
  ultimately show ?thesis using assms(3) [of "le_key e'"] by (auto simp: posting_def lookup_of_set)
next
  case False
  then show ?thesis by (auto simp: posting_def lookup_of_set)
qed

lemma pending_of_update: "pending_of (AList.update k v p) k' = (if k' = k then v else pending_of p k')"
  by (simp add: pending_of_def update_conv')

definition pending_wf :: "pending_updates \<Rightarrow> bool" where
  "pending_wf pending \<longleftrightarrow> distinct (map fst pending) \<and> (\<forall>((t, e), cs)\<in>set pending. le_kind e \<le> 1 \<and> cs \<noteq> [])"

lemma pending_wf_update: "pending_wf pending \<Longrightarrow> le_kind e \<le> 1 \<Longrightarrow> pending_wf (AList.update (t, e) (xs @ [x]) pending)"
  by (fastforce simp: pending_wf_def distinct_update dest!: update_entry)

lemma record_tracks:
  assumes "tracks batch t index pending M" and "le_kind e0 \<le> 1"
    and "record_membership batch t n0 add (index, pending) e0 = (index', pending')"
  shows "tracks batch t index' pending' (\<lambda>e n. if e = e0 \<and> n = n0 then add else M e n)"
    and "ti_shards index' = ti_shards index" "ti_length index' = ti_length index"
    and "t' \<noteq> t \<Longrightarrow> pending_of pending' (t', e) = pending_of pending (t', e)"
    and "pending_wf pending \<Longrightarrow> pending_wf pending'"
proof -
  have e0: "sd (posting index e0)" "pending_of pending (t, e0) \<noteq> [] \<Longrightarrow> batch \<and> length (posting index e0) > 1"
    using assms(1,2) by (auto simp: tracks_def)
  show "ti_shards index' = ti_shards index" "ti_length index' = ti_length index"
    "t' \<noteq> t \<Longrightarrow> pending_of pending' (t', e) = pending_of pending (t', e)"
    using assms(3) by (auto simp: record_membership_def Let_def pending_of_update split: if_splits)
  show "pending_wf pending \<Longrightarrow> pending_wf pending'"
    using assms(2,3) pending_wf_update [of pending e0 t] by (auto simp: record_membership_def Let_def split: if_splits)
  show "tracks batch t index' pending' (\<lambda>e n. if e = e0 \<and> n = n0 then add else M e n)"
  proof (cases "batch \<and> length (posting index e0) > 1")
    case True
    then have r: "index' = index" "pending' = AList.update (t, e0) (pending_of pending (t, e0) @ [(n0, add)]) pending"
      using assms(3) by (simp_all add: record_membership_def posting_def Let_def)
    have "decided (pending_of pending' (t, e)) names n =
        (if e = e0 \<and> n = n0 then add else decided (pending_of pending (t, e)) names n)" for e names n
      by (auto simp: r(2) pending_of_update decided_def)
    moreover have "pending_of pending' (t, e) \<noteq> [] \<longrightarrow> batch \<and> length (posting index e) > 1" if "le_kind e \<le> 1" for e
      using assms(1) that True by (auto simp: r(2) pending_of_update tracks_def)
    ultimately show ?thesis using assms(1) unfolding r(1) by (simp add: tracks_def)
  next
    case False
    define l where "l = updateLookupMembership (lookup_of index (le_kind e0)) (le_key e0) (posting index e0) n0 add"
    have r: "index' = set_lookup index (le_kind e0) l" "pending' = pending"
      using assms(3) False by (auto simp: record_membership_def posting_def Let_def l_def)
    have none: "pending_of pending (t, e0) = []" using e0(2) False by blast
    note spec = updateLookupMembership_spec [OF e0(1) [unfolded posting_def], where n = n0 and add = add, folded posting_def, folded l_def]
    have post: "posting index' e = (if e = e0 then lookupNames l (le_key e0) else posting index e)" if "le_kind e \<le> 1" for e
      unfolding r(1) by (rule posting_set [OF assms(2) that]) (simp add: spec(2))
    show ?thesis unfolding tracks_def
    proof (intro allI impI)
      fix e :: resourceLookupEntry
      assume k: "le_kind e \<le> 1"
      have old: "sd (posting index e)" "pending_of pending (t, e) \<noteq> [] \<longrightarrow> batch \<and> length (posting index e) > 1"
        "\<And>n. M e n = decided (pending_of pending (t, e)) (posting index e) n"
        using assms(1) k by (auto simp: tracks_def)
      show "sd (posting index' e) \<and> (pending_of pending' (t, e) \<noteq> [] \<longrightarrow> batch \<and> length (posting index' e) > 1) \<and>
        (\<forall>n. (if e = e0 \<and> n = n0 then add else M e n) = decided (pending_of pending' (t, e)) (posting index' e) n)"
        using spec(1) old none by (auto simp: post [OF k] r(2) decided_def)
    qed
  qed
qed

lemma records_track:
  assumes "tracks batch t index pending M" and "\<forall>e\<in>set es. le_kind e \<le> 1"
    and "foldl (record_membership batch t n0 add) (index, pending) es = (index', pending')"
  shows "tracks batch t index' pending' (\<lambda>e n. if e \<in> set es \<and> n = n0 then add else M e n) \<and>
    ti_shards index' = ti_shards index \<and> ti_length index' = ti_length index \<and>
    (\<forall>t' e. t' \<noteq> t \<longrightarrow> pending_of pending' (t', e) = pending_of pending (t', e)) \<and>
    (pending_wf pending \<longrightarrow> pending_wf pending')"
  using assms
proof (induction es arbitrary: index pending M)
  case (Cons e0 es)
  obtain i1 p1 where r: "record_membership batch t n0 add (index, pending) e0 = (i1, p1)" by fastforce
  note step = record_tracks [OF Cons.prems(1) _ r]
  have e0: "le_kind e0 \<le> 1" using Cons.prems(2) by simp
  have "foldl (record_membership batch t n0 add) (i1, p1) es = (index', pending')" using Cons.prems(3) r by simp
  note ih = Cons.IH [OF step(1) [OF e0] _ this]
  have "(\<lambda>e n. if e \<in> set es \<and> n = n0 then add else if e = e0 \<and> n = n0 then add else M e n) =
      (\<lambda>e n. if e \<in> set (e0 # es) \<and> n = n0 then add else M e n)" by (auto simp: fun_eq_iff)
  with ih step(2-5) [OF e0] Cons.prems(2) show ?case by simp
qed simp

lemma diff_tracks:
  assumes "tracks batch t index pending M"
    and "updateResourceLookupDiff batch t old new (index, pending) = (index', pending')"
    and "\<And>r. new = Some r \<Longrightarrow> key_Name (res_Key r) = n0" and "\<And>r. old = Some r \<Longrightarrow> key_Name (res_Key r) = n0"
    and "new = None \<Longrightarrow> old \<noteq> None"
  shows "tracks batch t index' pending' (\<lambda>e n. if n = n0 then
      (if e \<in> set (resourceLookupEntries new) \<and> e \<notin> set (resourceLookupEntries old) then True
       else if e \<in> set (resourceLookupEntries old) \<and> e \<notin> set (resourceLookupEntries new) then False else M e n) else M e n)"
    and "ti_shards index' = ti_shards index \<and> ti_length index' = ti_length index"
    and "\<forall>t' e. t' \<noteq> t \<longrightarrow> pending_of pending' (t', e) = pending_of pending (t', e)"
    and "pending_wf pending \<longrightarrow> pending_wf pending'"
proof -
  define gone where "gone = filter (\<lambda>e. e \<notin> set (resourceLookupEntries new)) (resourceLookupEntries old)"
  define fresh where "fresh = filter (\<lambda>e. e \<notin> set (resourceLookupEntries old)) (resourceLookupEntries new)"
  have kinds: "le_kind e \<le> 1" if "e \<in> set (resourceLookupEntries r)" for e r
    using that by (auto simp: resourceLookupEntries_def split: option.splits if_splits)
  have name: "(case new of Some r \<Rightarrow> key_Name (res_Key r)
      | None \<Rightarrow> (case old of Some r \<Rightarrow> key_Name (res_Key r) | None \<Rightarrow> [])) = n0"
    using assms(3-5) by (auto split: option.split)
  obtain i1 p1 where g: "foldl (record_membership batch t n0 False) (index, pending) gone = (i1, p1)" by fastforce
  have f: "foldl (record_membership batch t n0 True) (i1, p1) fresh = (index', pending')"
    using assms(2) g by (simp add: updateResourceLookupDiff_def name Let_def gone_def fresh_def)
  have k: "\<forall>e\<in>set gone. le_kind e \<le> 1" "\<forall>e\<in>set fresh. le_kind e \<le> 1" using kinds by (auto simp: gone_def fresh_def)
  note s1 = records_track [OF assms(1) k(1) g]
  note s2 = records_track [OF conjunct1 [OF s1] k(2) f]
  have "(\<lambda>e n. if e \<in> set fresh \<and> n = n0 then True else if e \<in> set gone \<and> n = n0 then False else M e n) =
    (\<lambda>e n. if n = n0 then
      (if e \<in> set (resourceLookupEntries new) \<and> e \<notin> set (resourceLookupEntries old) then True
       else if e \<in> set (resourceLookupEntries old) \<and> e \<notin> set (resourceLookupEntries new) then False else M e n) else M e n)"
    by (auto simp: fun_eq_iff gone_def fresh_def)
  with s2 show "tracks batch t index' pending' (\<lambda>e n. if n = n0 then
      (if e \<in> set (resourceLookupEntries new) \<and> e \<notin> set (resourceLookupEntries old) then True
       else if e \<in> set (resourceLookupEntries old) \<and> e \<notin> set (resourceLookupEntries new) then False else M e n) else M e n)"
    by (simp only:)
  show "ti_shards index' = ti_shards index \<and> ti_length index' = ti_length index"
    "\<forall>t' e. t' \<noteq> t \<longrightarrow> pending_of pending' (t', e) = pending_of pending (t', e)"
    "pending_wf pending \<longrightarrow> pending_wf pending'"
    using s1 s2 by auto
qed

subsection \<open>The invariant of a type\<close>

definition has_entry :: "resourceTypeIndex \<Rightarrow> resourceLookupEntry \<Rightarrow> string \<Rightarrow> bool" where
  "has_entry index e n \<longleftrightarrow> (\<exists>r. shard_get index n = Some r \<and> e \<in> set (resourceLookupEntries (Some r)))"

definition shards_ok :: "string \<Rightarrow> resourceTypeIndex \<Rightarrow> bool" where
  "shards_ok t index \<longleftrightarrow>
     (\<forall>sh. distinct (map fst (ti_shards index sh)) \<and>
        (\<forall>(n, r)\<in>set (ti_shards index sh). resourceShard n = sh \<and> n \<noteq> [] \<and> res_Key r = \<lparr>key_TypeURL = t, key_Name = n\<rparr>))"

definition index_ok :: "bool \<Rightarrow> string \<Rightarrow> resourceTypeIndex \<Rightarrow> pending_updates \<Rightarrow> bool" where
  "index_ok batch t index pending \<longleftrightarrow>
     shards_ok t index \<and> tracks batch t index pending (has_entry index) \<and>
     ti_length index = int (card (dom (shard_get index)))"

lemma shard_get_cong: "ti_shards i = ti_shards j \<Longrightarrow> shard_get i n = shard_get j n"
  by (simp add: shard_get_def)

lemma shard_get_put [simp]: "shard_get (shard_put index n r) m = (if m = n then Some r else shard_get index m)"
  by (auto simp: shard_get_def shard_put_def update_conv')

lemma shard_get_delete [simp]: "shard_get (shard_delete index n) m = (if m = n then None else shard_get index m)"
  by (auto simp: shard_get_def shard_delete_def delete_conv')

lemma shard_get_length [simp]: "shard_get (index\<lparr>ti_length := x\<rparr>) = shard_get index"
  by (simp add: shard_get_def fun_eq_iff)

lemma finite_dom_shards: "finite (dom (shard_get index))"
proof -
  have "dom (shard_get index) \<subseteq> (\<Union>sh. fst ` set (ti_shards index sh))"
    by (auto simp: shard_get_def dom_def dest!: map_of_SomeD) force
  then show ?thesis by (rule finite_subset) simp
qed

lemma shards_ok_get: "shards_ok t index \<Longrightarrow> shard_get index n = Some r \<Longrightarrow> n \<noteq> [] \<and> res_Key r = \<lparr>key_TypeURL = t, key_Name = n\<rparr>"
  by (fastforce simp: shards_ok_def shard_get_def dest: map_of_SomeD)

lemma shards_ok_put:
  assumes "shards_ok t index" and "res_Key r = \<lparr>key_TypeURL = t, key_Name = n\<rparr>" and "n \<noteq> []"
  shows "shards_ok t (shard_put index n r)"
  unfolding shards_ok_def
proof (intro allI conjI)
  fix sh
  have ok: "distinct (map fst (ti_shards index sh))"
    "\<forall>(n, r)\<in>set (ti_shards index sh). resourceShard n = sh \<and> n \<noteq> [] \<and> res_Key r = \<lparr>key_TypeURL = t, key_Name = n\<rparr>"
    using assms(1) by (auto simp: shards_ok_def)
  then show "distinct (map fst (ti_shards (shard_put index n r) sh))" by (auto simp: shard_put_def distinct_update)
  show "\<forall>(m, x)\<in>set (ti_shards (shard_put index n r) sh). resourceShard m = sh \<and> m \<noteq> [] \<and> res_Key x = \<lparr>key_TypeURL = t, key_Name = m\<rparr>"
    using ok(2) assms(2,3) by (auto simp: shard_put_def dest!: update_entry)
qed

lemma shards_ok_delete: "shards_ok t index \<Longrightarrow> shards_ok t (shard_delete index n)"
  by (auto simp: shards_ok_def shard_delete_def AList.delete_eq distinct_map_filter)

subsection \<open>One change\<close>

definition state_ok :: "bool \<Rightarrow> apply_state \<Rightarrow> bool" where
  "state_ok batch st \<longleftrightarrow>
     distinct (map fst (as_resources st)) \<and> pending_wf (as_pending st) \<and>
     (\<forall>t. index_ok batch t (type_index (as_resources st) t) (as_pending st))"

definition state_get :: "apply_state \<Rightarrow> ResourceKey \<Rightarrow> Resource option" where
  "state_get st key = shard_get (type_index (as_resources st) (key_TypeURL key)) (key_Name key)"

lemma type_index_update: "type_index (AList.update t i resources) t' = (if t' = t then i else type_index resources t')"
  by (simp add: type_index_def update_conv')

lemma posting_more [simp]:
  "posting (index\<lparr>ti_length := x\<rparr>) e = posting index e"
  "posting (shard_put index n r) e = posting index e" "posting (shard_delete index n) e = posting index e"
  by (simp_all add: posting_def lookup_of_def shard_put_def shard_delete_def)

lemma tracks_cong:
  "(\<And>e. posting i e = posting j e) \<Longrightarrow> (\<And>e. pending_of p (t, e) = pending_of q (t, e)) \<Longrightarrow>
   (\<And>e n. le_kind e \<le> 1 \<Longrightarrow> M e n = N e n) \<Longrightarrow> tracks b t i p M = tracks b t j q N"
  by (simp add: tracks_def)

lemma entries_None [simp]: "resourceLookupEntries None = []"
  by (simp add: resourceLookupEntries_def)

lemma index_ok_put:
  assumes "index_ok batch t index pending"
    and "updateResourceLookupDiff batch t old (Some r) (index, pending) = (index', pending')"
    and "old = shard_get index n" and "res_Key r = \<lparr>key_TypeURL = t, key_Name = n\<rparr>" and "n \<noteq> []"
    and "i = shard_put index' n r"
  shows "index_ok batch t (if old = None then i\<lparr>ti_length := ti_length i + 1\<rparr> else i) pending'"
proof -
  have ok: "shards_ok t index" "tracks batch t index pending (has_entry index)" "ti_length index = int (card (dom (shard_get index)))"
    using assms(1) by (auto simp: index_ok_def)
  have old: "key_Name (res_Key x) = n" if "old = Some x" for x
    using shards_ok_get [OF ok(1), of n x] that assms(3) by simp
  note d = diff_tracks [OF ok(2) assms(2), of n]
  have d': "tracks batch t index' pending' (\<lambda>e m. if m = n then
      (if e \<in> set (resourceLookupEntries (Some r)) \<and> e \<notin> set (resourceLookupEntries old) then True
       else if e \<in> set (resourceLookupEntries old) \<and> e \<notin> set (resourceLookupEntries (Some r)) then False
       else has_entry index e m) else has_entry index e m)"
    "ti_shards index' = ti_shards index" "ti_length index' = ti_length index"
    using d(1,2) old assms(4) by auto
  have sh: "shard_get index' m = shard_get index m" for m using d'(2) by (rule shard_get_cong)
  have "has_entry i e m = (if m = n then
      (if e \<in> set (resourceLookupEntries (Some r)) \<and> e \<notin> set (resourceLookupEntries old) then True
       else if e \<in> set (resourceLookupEntries old) \<and> e \<notin> set (resourceLookupEntries (Some r)) then False
       else has_entry index e m) else has_entry index e m)" for e m
    using assms(3) [symmetric] by (cases old) (auto simp: has_entry_def assms(6) sh)
  with d'(1) have "tracks batch t i pending' (has_entry i)" by (subst tracks_cong [where j = index']) (simp_all add: assms(6))
  moreover have "shards_ok t i"
    using shards_ok_put [of t index' r n] ok(1) d'(2) assms(4-6) by (simp add: shards_ok_def)
  moreover have "card (dom (shard_get i)) = (if old = None then Suc (card (dom (shard_get index))) else card (dom (shard_get index)))"
  proof -
    have "dom (shard_get i) = insert n (dom (shard_get index))" by (auto simp: assms(6) sh)
    then show ?thesis using finite_dom_shards [of index] assms(3) by (auto simp: card_insert_if domIff)
  qed
  moreover have "ti_length i = ti_length index" using d'(3) by (simp add: assms(6) shard_put_def)
  moreover have "tracks batch t (i\<lparr>ti_length := x\<rparr>) pending' (has_entry (i\<lparr>ti_length := x\<rparr>)) = tracks batch t i pending' (has_entry i)" for x
    by (intro tracks_cong) (simp_all add: has_entry_def)
  ultimately show ?thesis using ok(3) by (auto simp: index_ok_def shards_ok_def)
qed

lemma index_ok_delete:
  assumes "index_ok batch t index pending"
    and "updateResourceLookupDiff batch t (Some old) None (index, pending) = (index', pending')"
    and "shard_get index n = Some old" and "i = shard_delete index' n"
  shows "index_ok batch t (i\<lparr>ti_length := ti_length i - 1\<rparr>) pending'"
proof -
  have ok: "shards_ok t index" "tracks batch t index pending (has_entry index)" "ti_length index = int (card (dom (shard_get index)))"
    using assms(1) by (auto simp: index_ok_def)
  have old: "key_Name (res_Key old) = n" using shards_ok_get [OF ok(1) assms(3)] by simp
  note d = diff_tracks [OF ok(2) assms(2), of n]
  have "tracks batch t index' pending' (\<lambda>e m. if m = n then
      (if e \<in> set (resourceLookupEntries None) \<and> e \<notin> set (resourceLookupEntries (Some old)) then True
       else if e \<in> set (resourceLookupEntries (Some old)) \<and> e \<notin> set (resourceLookupEntries None) then False
       else has_entry index e m) else has_entry index e m)"
    by (rule d(1)) (use old in auto)
  then have d': "tracks batch t index' pending' (\<lambda>e m. if m = n then
      (if e \<in> set (resourceLookupEntries (Some old)) then False else has_entry index e m) else has_entry index e m)"
    "ti_shards index' = ti_shards index" "ti_length index' = ti_length index"
    using d(2) old by (simp_all cong: if_cong)
  have sh: "shard_get index' m = shard_get index m" for m using d'(2) by (rule shard_get_cong)
  have "has_entry i e m = (if m = n then
      (if e \<in> set (resourceLookupEntries (Some old)) then False else has_entry index e m) else has_entry index e m)" for e m
    using assms(3) by (auto simp: has_entry_def assms(4) sh)
  with d'(1) have "tracks batch t (i\<lparr>ti_length := x\<rparr>) pending' (has_entry (i\<lparr>ti_length := x\<rparr>))" for x
    by (subst tracks_cong [where j = index']) (simp_all add: assms(4) has_entry_def)
  moreover have "shards_ok t i" using shards_ok_delete [of t index' n] ok(1) d'(2) assms(4) by (simp add: shards_ok_def)
  moreover have "int (card (dom (shard_get i))) = int (card (dom (shard_get index))) - 1"
  proof -
    have "dom (shard_get i) = dom (shard_get index) - {n}" by (auto simp: assms(4) sh split: if_splits)
    moreover have "n \<in> dom (shard_get index)" using assms(3) by blast
    ultimately show ?thesis using finite_dom_shards [of index] card_Suc_Diff1 [of "dom (shard_get index)" n] by simp
  qed
  moreover have "ti_length i = ti_length index" using d'(3) by (simp add: assms(4) shard_delete_def)
  ultimately show ?thesis using ok(3) by (auto simp: index_ok_def shards_ok_def)
qed

text \<open>
  The reference: the resources as one map.  A change is honest when it names no old resource where
  there is none.
\<close>

definition reference_change ::
  "resource_env \<Rightarrow> (ResourceKey \<Rightarrow> Resource option) \<Rightarrow> ResourceChange \<Rightarrow> ResourceKey \<Rightarrow> Resource option" where
  "reference_change env content change =
     (case ch_New change of
        None \<Rightarrow> content(ch_Key change := None)
      | Some r \<Rightarrow>
          (case normalizeChangedResource env (ch_Key change) r of
             Inl _ \<Rightarrow> content
           | Inr normalized \<Rightarrow>
               if map_option res_Hash (content (ch_Key change)) = Some (res_Hash normalized) then content
               else content(ch_Key change := Some normalized)))"

fun honest_changes :: "resource_env \<Rightarrow> (ResourceKey \<Rightarrow> Resource option) \<Rightarrow> ResourceChange list \<Rightarrow> bool" where
  "honest_changes env content [] \<longleftrightarrow> True"
| "honest_changes env content (c # cs) \<longleftrightarrow>
     (content (ch_Key c) = None \<longrightarrow> ch_Old c = None) \<and> honest_changes env (reference_change env content c) cs"

lemma blank_Nil [simp]: "blank []"
  by (simp add: blank_def UnicodeTrimSpace_def)

lemma prehashed_key: "prehashed env r = Inr r' \<Longrightarrow> res_Key r' = res_Key r \<and> \<not> blank (key_Name (res_Key r))"
  by (auto simp: prehashed_def normalizeResource_def validateResource_def Let_def split: if_splits option.splits)

lemma commit_ok:
  assumes st: "state_ok batch st" and cur: "current = state_get st (ch_Key change)"
    and new: "\<And>r. ch_New change = Some r \<Longrightarrow> res_Key r = ch_Key change"
    and name: "key_Name (ch_Key change) \<noteq> []"
    and honest: "current = None \<Longrightarrow> ch_Old change = None" and some: "ch_New change = None \<Longrightarrow> current \<noteq> None"
  shows "state_ok batch (commit_change batch change current st)"
    and "state_get (commit_change batch change current st) = (state_get st)(ch_Key change := ch_New change)"
proof -
  define t where "t = key_TypeURL (ch_Key change)"
  define n where "n = key_Name (ch_Key change)"
  define index where "index = type_index (as_resources st) t"
  have key: "ch_Key change = \<lparr>key_TypeURL = t, key_Name = n\<rparr>" by (simp add: t_def n_def)
  have cur': "current = shard_get index n" using cur by (simp add: state_get_def index_def t_def n_def)
  obtain i1 p1 where d: "updateResourceLookupDiff batch t current (ch_New change) (index, as_pending st) = (i1, p1)" by fastforce
  have ok: "index_ok batch t index (as_pending st)" using st by (simp add: state_ok_def index_def)
  define i2 where "i2 = (case ch_New change of
      None \<Rightarrow> (let i = shard_delete i1 n in i\<lparr>ti_length := ti_length i - 1\<rparr>)
    | Some r \<Rightarrow> (let i = shard_put i1 n r in if current = None then i\<lparr>ti_length := ti_length i + 1\<rparr> else i))"
  have inv: "shards_ok t index" "tracks batch t index (as_pending st) (has_entry index)" using ok by (simp_all add: index_ok_def)
  have new_name: "\<And>r. ch_New change = Some r \<Longrightarrow> key_Name (res_Key r) = n" using new n_def by metis
  have old_name: "\<And>r. current = Some r \<Longrightarrow> key_Name (res_Key r) = n"
    using shards_ok_get [OF inv(1), of n] cur' by (metis ResourceKey.select_convs(2))
  note diff = diff_tracks(2-4) [OF inv(2) d new_name old_name some]
  have st': "as_resources (commit_change batch change current st) = AList.update t i2 (as_resources st)"
    "as_pending (commit_change batch change current st) = p1"
    using d honest
    by (auto simp: commit_change_def Let_def t_def [symmetric] n_def [symmetric] index_def [symmetric] i2_def
        split: option.splits)
  have get: "shard_get i1 m = shard_get index m" for m using diff(1) by (intro shard_get_cong) simp
  have i2: "index_ok batch t i2 p1 \<and> shard_get i2 = (shard_get index)(n := ch_New change)"
  proof (cases "ch_New change")
    case None
    then obtain o' where "current = Some o'" using some by blast
    then have "index_ok batch t ((shard_delete i1 n)\<lparr>ti_length := ti_length (shard_delete i1 n) - 1\<rparr>) p1"
      by (intro index_ok_delete [OF ok d [unfolded None \<open>current = Some o'\<close>] _ refl]) (simp add: cur' [symmetric])
    then have "index_ok batch t i2 p1" by (simp add: i2_def None Let_def)
    with None get show ?thesis by (simp add: i2_def Let_def fun_eq_iff)
  next
    case (Some r)
    have "res_Key r = \<lparr>key_TypeURL = t, key_Name = n\<rparr>" "n \<noteq> []"
      using new [OF Some] name unfolding key by simp_all
    then have "index_ok batch t (if current = None then (shard_put i1 n r)\<lparr>ti_length := ti_length (shard_put i1 n r) + 1\<rparr>
        else shard_put i1 n r) p1"
      by (rule index_ok_put [OF ok d [unfolded Some] cur' _ _ refl])
    then have "index_ok batch t i2 p1" by (simp add: i2_def Some Let_def)
    with Some get show ?thesis by (simp add: i2_def Let_def fun_eq_iff)
  qed
  show "state_ok batch (commit_change batch change current st)"
    unfolding state_ok_def
  proof (intro conjI allI)
    fix t'
    show "index_ok batch t' (type_index (as_resources (commit_change batch change current st)) t')
        (as_pending (commit_change batch change current st))"
    proof (cases "t' = t")
      case False
      have "index_ok batch t' (type_index (as_resources st) t') (as_pending st)" using st by (simp add: state_ok_def)
      moreover have "pending_of p1 (t', e) = pending_of (as_pending st) (t', e)" for e using diff(2) False by blast
      ultimately have "index_ok batch t' (type_index (as_resources st) t') p1" by (simp add: index_ok_def tracks_def)
      with False show ?thesis by (simp add: st' type_index_update)
    qed (use i2 in \<open>simp add: st' type_index_update\<close>)
  qed (use st diff(3) in \<open>simp_all add: st' state_ok_def distinct_update\<close>)
  show "state_get (commit_change batch change current st) = (state_get st)(ch_Key change := ch_New change)"
  proof
    fix k
    show "state_get (commit_change batch change current st) k = ((state_get st)(ch_Key change := ch_New change)) k"
      using i2 by (cases k) (simp add: key state_get_def st' type_index_update index_def)
  qed
qed

lemma apply_change_ok:
  assumes "state_ok batch st" and "apply_change env batch change st = Inr st'"
    and "state_get st (ch_Key change) = None \<longrightarrow> ch_Old change = None"
  shows "state_ok batch st' \<and> state_get st' = reference_change env (state_get st) change"
proof -
  define current where "current = state_get st (ch_Key change)"
  have cur: "shard_get (type_index (as_resources st) (key_TypeURL (ch_Key change))) (key_Name (ch_Key change)) = current"
    by (simp add: current_def state_get_def)
  have name: "key_Name (ch_Key change) \<noteq> []"
    using assms(2) by (auto simp: apply_change_def Let_def split: if_splits)
  have a: "(case ch_New change of
      None \<Rightarrow> Inr (if current = None then st else commit_change batch change current st)
    | Some r \<Rightarrow>
        (case normalizeChangedResource env (ch_Key change) r of
           Inl e \<Rightarrow> Inl e
         | Inr normalized \<Rightarrow>
             Inr (if map_option res_Hash current = Some (res_Hash normalized) then st
                  else commit_change batch (change\<lparr>ch_New := Some normalized\<rparr>) current st))) = Inr st'"
    using assms(2) unfolding apply_change_def Let_def cur
    by (cases "blank (key_TypeURL (ch_Key change)) \<or> blank (key_Name (ch_Key change))") simp_all
  show ?thesis
  proof (cases "ch_New change")
    case None
    show ?thesis
    proof (cases "current = None")
      case True
      then have "(state_get st)(ch_Key change := None) = state_get st" by (simp add: fun_upd_idem current_def)
      with a None True assms(1) show ?thesis by (simp add: reference_change_def)
    next
      case False
      note ok = commit_ok [OF assms(1) current_def _ name _ _]
      have "state_ok batch (commit_change batch change current st)"
        "state_get (commit_change batch change current st) = (state_get st)(ch_Key change := ch_New change)"
        by (rule ok; use None False in simp)+
      with a None False show ?thesis by (auto simp: reference_change_def)
    qed
  next
    case (Some r)
    with a obtain normalized where n: "normalizeChangedResource env (ch_Key change) r = Inr normalized"
      by (auto split: sum.splits)
    have key: "res_Key normalized = ch_Key change"
      using n prehashed_key [of env r normalized] by (auto simp: normalizeChangedResource_def split: if_splits)
    show ?thesis
    proof (cases "map_option res_Hash current = Some (res_Hash normalized)")
      case True
      with a Some n assms(1) show ?thesis by (simp add: reference_change_def current_def)
    next
      case False
      define change1 where "change1 = change\<lparr>ch_New := Some normalized\<rparr>"
      have cur1: "current = state_get st (ch_Key change1)" by (simp add: current_def change1_def)
      have "state_ok batch (commit_change batch change1 current st)"
        "state_get (commit_change batch change1 current st) = (state_get st)(ch_Key change1 := ch_New change1)"
        by (rule commit_ok [OF assms(1) cur1]; use key name assms(3) in \<open>simp add: change1_def current_def\<close>)+
      with a Some n False show ?thesis by (auto simp: reference_change_def change1_def current_def)
    qed
  qed
qed

lemma apply_changes_ok:
  "apply_changes env batch changes st = Inr st' \<Longrightarrow> state_ok batch st \<Longrightarrow> honest_changes env (state_get st) changes \<Longrightarrow>
   state_ok batch st' \<and> state_get st' = foldl (reference_change env) (state_get st) changes"
proof (induction changes arbitrary: st)
  case (Cons c cs)
  obtain st1 where s1: "apply_change env batch c st = Inr st1" and "apply_changes env batch cs st1 = Inr st'"
    using Cons.prems(1) by (auto split: sum.splits)
  have "state_ok batch st1" "state_get st1 = reference_change env (state_get st) c"
    using apply_change_ok [OF Cons.prems(2) s1] Cons.prems(3) by auto
  with Cons.IH [OF \<open>apply_changes env batch cs st1 = Inr st'\<close>] Cons.prems(3) show ?case by simp
qed simp

lemma unchanged_state:
  "apply_changes env batch changes st = Inr st' \<Longrightarrow> length (as_effective st) \<le> length (as_effective st') \<and>
   (as_effective st' = as_effective st \<longrightarrow> st' = st)"
proof (induction changes arbitrary: st)
  case (Cons c cs)
  obtain st1 where s1: "apply_change env batch c st = Inr st1" and s2: "apply_changes env batch cs st1 = Inr st'"
    using Cons.prems(1) by (auto split: sum.splits)
  have "st1 = st \<or> length (as_effective st1) = Suc (length (as_effective st))"
    using s1 by (auto simp: apply_change_def commit_change_def Let_def split: if_splits option.splits sum.splits prod.splits)
  with Cons.IH [OF s2] show ?case by auto
qed simp

subsection \<open>The deferred changes\<close>

lemma apply_key_spec:
  assumes "le_kind e \<le> 1" and "sd (posting (type_index resources t) e)" and "cs \<noteq> []"
  defines "resources' \<equiv> apply_pending_key resources ((t, e), cs)"
  shows "le_kind e' \<le> 1 \<Longrightarrow> sd (posting (type_index resources' t) e) \<and>
      set (posting (type_index resources' t) e) = {n. decided cs (posting (type_index resources t) e) n}"
    and "le_kind e' \<le> 1 \<Longrightarrow> (t', e') \<noteq> (t, e) \<Longrightarrow> posting (type_index resources' t') e' = posting (type_index resources t') e'"
    and "ti_shards (type_index resources' t') = ti_shards (type_index resources t') \<and>
      ti_length (type_index resources' t') = ti_length (type_index resources t')"
    and "distinct (map fst resources) \<Longrightarrow> distinct (map fst resources')"
    and "dom (map_of resources') = insert t (dom (map_of resources))"
proof -
  define index where "index = type_index resources t"
  define l where "l = apply_posting (lookup_of index (le_kind e)) (le_key e) cs"
  have r: "resources' = AList.update t (set_lookup index (le_kind e) l) resources"
    by (simp add: resources'_def apply_pending_key_def index_def l_def Let_def)
  note spec = apply_posting_spec [OF assms(2) [folded index_def, unfolded posting_def] assms(3), folded l_def]
  have post: "posting (set_lookup index (le_kind e) l) e' = (if e' = e then lookupNames l (le_key e) else posting index e')"
    if "le_kind e' \<le> 1" for e'
    by (rule posting_set [OF assms(1) that]) (simp add: spec(2))
  show "le_kind e' \<le> 1 \<Longrightarrow> sd (posting (type_index resources' t) e) \<and>
      set (posting (type_index resources' t) e) = {n. decided cs (posting (type_index resources t) e) n}"
    using spec(1) post [OF assms(1)] by (simp add: r type_index_update index_def [symmetric]) (simp add: posting_def)
  show "le_kind e' \<le> 1 \<Longrightarrow> (t', e') \<noteq> (t, e) \<Longrightarrow> posting (type_index resources' t') e' = posting (type_index resources t') e'"
    using post [of e'] by (auto simp: r type_index_update index_def)
  show "ti_shards (type_index resources' t') = ti_shards (type_index resources t') \<and>
      ti_length (type_index resources' t') = ti_length (type_index resources t')"
    by (simp add: r type_index_update index_def)
  show "distinct (map fst resources) \<Longrightarrow> distinct (map fst resources')" by (simp add: r distinct_update)
  show "dom (map_of resources') = insert t (dom (map_of resources))" by (simp add: r update_conv')
qed

lemma updates_apply_spec:
  assumes "distinct (map fst pending)"
    and "\<forall>((t, e), cs)\<in>set pending. le_kind e \<le> 1 \<and> cs \<noteq> [] \<and> sd (posting (type_index resources t) e) \<and> t \<in> dom (map_of resources)"
    and "resources' = updates_apply pending resources"
  shows "(\<forall>t e. le_kind e \<le> 1 \<longrightarrow> sd (posting (type_index resources t) e) \<longrightarrow>
       sd (posting (type_index resources' t) e) \<and>
       set (posting (type_index resources' t) e) = {n. decided (pending_of pending (t, e)) (posting (type_index resources t) e) n}) \<and>
    (\<forall>t. ti_shards (type_index resources' t) = ti_shards (type_index resources t) \<and>
       ti_length (type_index resources' t) = ti_length (type_index resources t)) \<and>
    (distinct (map fst resources) \<longrightarrow> distinct (map fst resources')) \<and> dom (map_of resources') = dom (map_of resources)"
  using assms
proof (induction pending arbitrary: resources resources')
  case Nil
  then show ?case by (simp add: updates_apply_def pending_of_def)
next
  case (Cons p pending)
  obtain t0 e0 cs where p: "p = ((t0, e0), cs)" by (metis surj_pair)
  have p0: "le_kind e0 \<le> 1" "cs \<noteq> []" "sd (posting (type_index resources t0) e0)" "t0 \<in> dom (map_of resources)"
    using Cons.prems(2) by (simp_all add: p)
  define r1 where "r1 = apply_pending_key resources p"
  note spec = apply_key_spec [OF p0(1,3,2), folded p, folded r1_def]
  have d: "distinct (map fst pending)" "(t0, e0) \<notin> fst ` set pending" using Cons.prems(1) by (simp_all add: p)
  have dom1: "dom (map_of r1) = dom (map_of resources)" using spec(5) p0(4) by auto
  have pre: "\<forall>((t, e), cs)\<in>set pending. le_kind e \<le> 1 \<and> cs \<noteq> [] \<and> sd (posting (type_index r1 t) e) \<and> t \<in> dom (map_of r1)"
  proof clarify
    fix t e cs'
    assume mem: "((t, e), cs') \<in> set pending"
    then have "(t, e) \<noteq> (t0, e0)" using d(2) by force
    moreover have "le_kind e \<le> 1 \<and> cs' \<noteq> [] \<and> sd (posting (type_index resources t) e) \<and> t \<in> dom (map_of resources)"
      using Cons.prems(2) mem by fastforce
    ultimately show "le_kind e \<le> 1 \<and> cs' \<noteq> [] \<and> sd (posting (type_index r1 t) e) \<and> t \<in> dom (map_of r1)"
      using spec(2) dom1 by simp
  qed
  have r': "resources' = updates_apply pending r1" using Cons.prems(3) by (simp add: updates_apply_def r1_def)
  note ih = Cons.IH [OF d(1) pre r']
  have none: "pending_of pending (t0, e0) = []" using d(2) by (simp add: pending_of_def map_of_eq_None_iff split: option.split) (metis map_of_eq_None_iff option.distinct(1))
  have "sd (posting (type_index resources' t) e) \<and>
       set (posting (type_index resources' t) e) = {n. decided (pending_of (p # pending) (t, e)) (posting (type_index resources t) e) n}"
    if k: "le_kind e \<le> 1" and sd: "sd (posting (type_index resources t) e)" for t e
  proof (cases "(t, e) = (t0, e0)")
    case True
    then have "pending_of (p # pending) (t, e) = cs" by (simp add: p pending_of_def)
    moreover have "sd (posting (type_index r1 t) e) \<and> set (posting (type_index r1 t) e) = {n. decided cs (posting (type_index resources t) e) n}"
      using spec(1) [OF p0(1)] True by simp
    ultimately show ?thesis using ih k True none by (auto simp: decided_def)
  next
    case False
    then have "pending_of (p # pending) (t, e) = pending_of pending (t, e)" by (auto simp: p pending_of_def)
    moreover have "posting (type_index r1 t) e = posting (type_index resources t) e" using spec(2) [OF k False] .
    ultimately show ?thesis using ih k sd by simp
  qed
  with ih spec(3,4) dom1 show ?case by simp
qed

subsection \<open>The snapshot\<close>

definition set_ok :: "ResourceSet \<Rightarrow> bool" where
  "set_ok s \<longleftrightarrow> distinct (map fst (rs_resources s)) \<and> (\<forall>(t, index)\<in>set (rs_resources s). index_ok False t index [])"

lemma pending_of_Nil [simp]: "pending_of [] k = []"
  by (simp add: pending_of_def)

lemma pending_wf_Nil [simp]: "pending_wf []"
  by (simp add: pending_wf_def)

lemma index_ok_Nil: "index_ok b t index [] = index_ok False t index []"
  by (simp add: index_ok_def tracks_def)

lemma index_ok_empty: "index_ok b t empty_index []"
  by (simp add: index_ok_def shards_ok_def tracks_def empty_index_def posting_def lookup_of_def lookupNames_def has_entry_def
      shard_get_def dom_def)

lemma set_Get_state: "state_get \<lparr>as_resources = rs_resources s, as_cloned = c, as_pending = p, as_effective = e, as_length = l\<rparr> = set_Get s"
  by (auto simp: state_get_def set_Get_def type_index_def empty_index_def shard_get_def fun_eq_iff split: option.split)

lemma set_ok_state:
  "set_ok s \<Longrightarrow> state_ok b \<lparr>as_resources = rs_resources s, as_cloned = c, as_pending = [], as_effective = e, as_length = l\<rparr>"
  using index_ok_empty index_ok_Nil
  by (fastforce simp: set_ok_def state_ok_def type_index_def split: option.split dest: map_of_SomeD)

lemma finished_index:
  assumes "state_ok b st" and "resources = updates_apply (as_pending st) (as_resources st)"
  shows "distinct (map fst resources) \<and> index_ok False t (type_index resources t) [] \<and>
    shard_get (type_index resources t) = shard_get (type_index (as_resources st) t)"
proof -
  have ok: "distinct (map fst (as_resources st))" "pending_wf (as_pending st)"
    "\<And>t. index_ok b t (type_index (as_resources st) t) (as_pending st)"
    using assms(1) by (auto simp: state_ok_def)
  have pre: "\<forall>((t, e), cs)\<in>set (as_pending st). le_kind e \<le> 1 \<and> cs \<noteq> [] \<and>
      sd (posting (type_index (as_resources st) t) e) \<and> t \<in> dom (map_of (as_resources st))"
  proof clarify
    fix t e cs
    assume mem: "((t, e), cs) \<in> set (as_pending st)"
    then have e: "le_kind e \<le> 1" "cs \<noteq> []" "pending_of (as_pending st) (t, e) = cs"
      using ok(2) by (auto simp: pending_wf_def pending_of_def)
    then have "sd (posting (type_index (as_resources st) t) e)" "length (posting (type_index (as_resources st) t) e) > 1"
      using ok(3) [of t] by (auto simp: index_ok_def tracks_def)
    moreover have "posting empty_index e = []" by (simp add: posting_def lookup_of_def lookupNames_def empty_index_def)
    ultimately show "le_kind e \<le> 1 \<and> cs \<noteq> [] \<and> sd (posting (type_index (as_resources st) t) e) \<and> t \<in> dom (map_of (as_resources st))"
      using e by (auto simp: type_index_def split: option.splits)
  qed
  have "distinct (map fst (as_pending st))" using ok(2) by (simp add: pending_wf_def)
  note spec = updates_apply_spec [OF this pre assms(2)]
  have sh: "ti_shards (type_index resources t) = ti_shards (type_index (as_resources st) t)"
    "ti_length (type_index resources t) = ti_length (type_index (as_resources st) t)" using spec by blast+
  have get: "shard_get (type_index resources t) = shard_get (type_index (as_resources st) t)"
    using sh(1) by (simp add: shard_get_def fun_eq_iff)
  have "tracks False t (type_index resources t) [] (has_entry (type_index resources t))"
    unfolding tracks_def
  proof (intro allI impI)
    fix e :: resourceLookupEntry
    assume k: "le_kind e \<le> 1"
    have "sd (posting (type_index (as_resources st) t) e)" and
      M: "has_entry (type_index (as_resources st) t) e n = decided (pending_of (as_pending st) (t, e)) (posting (type_index (as_resources st) t) e) n" for n
      using ok(3) [of t] k by (auto simp: index_ok_def tracks_def)
    with spec k have "sd (posting (type_index resources t) e)"
      "set (posting (type_index resources t) e) = {n. has_entry (type_index (as_resources st) t) e n}" by auto
    then show "sd (posting (type_index resources t) e) \<and>
        (pending_of [] (t, e) \<noteq> [] \<longrightarrow> False \<and> length (posting (type_index resources t) e) > 1) \<and>
        (\<forall>n. has_entry (type_index resources t) e n = decided (pending_of [] (t, e)) (posting (type_index resources t) e) n)"
      by (simp add: has_entry_def get)
  qed
  then show ?thesis using spec ok(1,3) sh get by (auto simp: index_ok_def shards_ok_def)
qed

lemma map_of_filter_pair: "distinct (map fst xs) \<Longrightarrow>
   map_of (filter (\<lambda>(k, v). P k v) xs) k = (case map_of xs k of None \<Rightarrow> None | Some v \<Rightarrow> if P k v then Some v else None)"
  by (induction xs) (auto simp: map_of_eq_None_iff image_iff split: option.splits)

lemma index_ok_no_length: "index_ok b t index p \<Longrightarrow> ti_length index = 0 \<Longrightarrow> shard_get index n = None"
  using finite_dom_shards [of index] by (auto simp: index_ok_def dom_def)

lemma set_Apply_ok:
  assumes "set_ok s" and "set_Apply env s changes = Inr (s', changed)" and "honest_changes env (set_Get s) changes"
  shows "set_ok s' \<and> set_Get s' = foldl (reference_change env) (set_Get s) changes"
proof (cases "changes = []")
  case True
  with assms(1,2) show ?thesis by (simp add: set_Apply_def)
next
  case False
  define st0 where "st0 = \<lparr>as_resources = rs_resources s, as_cloned = {}, as_pending = [], as_effective = [], as_length = rs_length s\<rparr>"
  obtain st where st: "apply_changes env (length changes > 1) changes st0 = Inr st"
    using assms(2) False by (auto simp: set_Apply_def st0_def [symmetric] split: sum.splits)
  have ok: "state_ok (length changes > 1) st" "state_get st = foldl (reference_change env) (set_Get s) changes"
    using apply_changes_ok [OF st] set_ok_state [OF assms(1)] assms(3) by (simp_all add: st0_def set_Get_state)
  show ?thesis
  proof (cases "as_effective st = []")
    case True
    then have "s' = s" using assms(2) False st by (simp add: set_Apply_def st0_def [symmetric])
    moreover have "st = st0" using unchanged_state [OF st] True by (simp add: st0_def)
    ultimately show ?thesis using ok(2) assms(1) by (simp add: st0_def set_Get_state)
  next
    case eff: False
    define resources where "resources = updates_apply (as_pending st) (as_resources st)"
    note fin = finished_index [OF ok(1) resources_def]
    define P where "P = (\<lambda>t (index :: resourceTypeIndex). \<not> (t \<in> as_cloned st \<and> ti_length index = 0))"
    have s': "rs_resources s' = filter (\<lambda>(t, index). P t index) resources"
      using assms(2) False st eff by (auto simp: set_Apply_def st0_def [symmetric] resources_def P_def)
    have "index_ok False t index []" if "(t, index) \<in> set resources" for t index
    proof -
      have "map_of resources t = Some index" using fin that by (intro map_of_is_SomeI) simp_all
      then have "type_index resources t = index" by (simp add: type_index_def del: map_of_eq_Some_iff)
      then show ?thesis using fin [of t] by simp
    qed
    then have "set_ok s'" using fin by (auto simp: set_ok_def s' distinct_map_filter)
    moreover have "set_Get s' k = state_get st k" for k
    proof -
      have "state_get st k = shard_get (type_index resources (key_TypeURL k)) (key_Name k)"
        using fin [of "key_TypeURL k"] by (simp add: state_get_def)
      moreover have "shard_get index n = None" if "map_of resources t = Some index" "\<not> P t index" for t index n
        using fin [of t] that index_ok_no_length [of False t index "[]" n] by (auto simp: P_def type_index_def)
      ultimately show ?thesis using fin
        by (auto simp: set_Get_def s' map_of_filter_pair type_index_def empty_index_def shard_get_def split: option.split)
    qed
    ultimately show ?thesis using ok(2) by (simp add: fun_eq_iff)
  qed
qed

subsection \<open>The list of a type\<close>

abbreviation resource_name :: "Resource \<Rightarrow> string" where
  "resource_name r \<equiv> key_Name (res_Key r)"

definition index_list :: "resourceTypeIndex \<Rightarrow> Resource list" where
  "index_list index = sort_key resource_name (concat (map (\<lambda>i. map snd (ti_shards index (of_nat i))) [0..<1024]))"

lemma resourceShard_less: "unat (resourceShard n) < 1024"
proof -
  define x :: "32 word" where "x = foldl (\<lambda>hash c. (hash XOR of_nat (of_char c)) * 16777619) 2166136261 n AND 1023"
  have "x \<le> 1023" unfolding x_def by (rule word_and_le1)
  then have "unat x \<le> 1023" by (simp add: word_le_nat_alt)
  moreover have "resourceShard n = ucast x" by (simp add: resourceShard_def x_def)
  moreover have "unat (ucast x :: 16 word) \<le> unat x"
    by (simp add: unsigned_ucast_eq take_bit_nat_eq_self_iff take_bit_nat_less_eq_self)
  ultimately show ?thesis by simp
qed

lemma distinct_tagged:
  assumes "\<And>i. distinct (F i)" and "\<And>i x. x \<in> set (F i) \<Longrightarrow> tag x = (of_nat i :: 16 word)"
  shows "n \<le> 1024 \<Longrightarrow> distinct (concat (map F [0..<n]))"
proof (induction n)
  case (Suc n)
  have "x \<notin> set (F n)" if "x \<in> set (F i)" "i < n" for x i
  proof
    assume "x \<in> set (F n)"
    then have "(of_nat i :: 16 word) = of_nat n" using assms(2) that(1) by metis
    then show False using that(2) Suc.prems by (simp add: word_unat_eq_iff unat_of_nat)
  qed
  with Suc assms(1) show ?case by auto
qed simp

lemma index_list_spec:
  assumes "shards_ok t index"
  shows "sd (map resource_name (index_list index))" and "set (index_list index) = {r. shard_get index (resource_name r) = Some r}"
proof -
  define L where "L = concat (map (\<lambda>i. map snd (ti_shards index (of_nat i))) [0..<1024])"
  have ok: "distinct (map fst (ti_shards index sh))"
    "(n, r) \<in> set (ti_shards index sh) \<Longrightarrow> resourceShard n = sh \<and> resource_name r = n" for sh n r
    using assms unfolding shards_ok_def by (blast, fastforce)
  have "map resource_name L = concat (map (\<lambda>i. map fst (ti_shards index (of_nat i))) [0..<1024])"
    unfolding L_def map_concat map_map by (rule arg_cong [where f = concat], rule map_cong) (use ok(2) in \<open>auto intro!: map_cong\<close>)
  moreover have "distinct (concat (map (\<lambda>i. map fst (ti_shards index (of_nat i))) [0..<1024]))"
    by (rule distinct_tagged [where tag = resourceShard]) (use ok in \<open>auto\<close>)
  ultimately have d: "distinct (map resource_name L)" by simp
  then show "sd (map resource_name (index_list index))" by (simp add: sd_def index_list_def L_def [symmetric] distinct_map_sort)
  have "r \<in> set L \<longleftrightarrow> shard_get index (resource_name r) = Some r" for r
  proof
    assume "r \<in> set L"
    then obtain i n where "(n, r) \<in> set (ti_shards index (of_nat i))" by (auto simp: L_def)
    with ok(2) [OF this] ok(1) show "shard_get index (resource_name r) = Some r" by (simp add: shard_get_def)
  next
    assume "shard_get index (resource_name r) = Some r"
    then have "(resource_name r, r) \<in> set (ti_shards index (resourceShard (resource_name r)))"
      by (simp add: shard_get_def map_of_SomeD)
    moreover have "resourceShard (resource_name r) = of_nat (unat (resourceShard (resource_name r)))" by simp
    ultimately show "r \<in> set L" using resourceShard_less [of "resource_name r"] unfolding L_def
      by (auto simp: image_iff intro!: bexI [of _ "unat (resourceShard (resource_name r))"]) force
  qed
  then show "set (index_list index) = {r. shard_get index (resource_name r) = Some r}"
    by (auto simp: index_list_def L_def [symmetric])
qed

lemma shard_get_list:
  assumes "shards_ok t index"
  shows "shard_get index n = Some r \<longleftrightarrow> n = resource_name r \<and> r \<in> set (index_list index)"
proof
  assume g: "shard_get index n = Some r"
  then have "resource_name r = n" using shards_ok_get [OF assms g] by simp
  with g show "n = resource_name r \<and> r \<in> set (index_list index)" by (simp add: index_list_spec(2) [OF assms])
qed (simp add: index_list_spec(2) [OF assms])

lemma eq_by_name:
  assumes "sd (map resource_name xs)" and "sd (map resource_name ys)" and "set xs = set ys"
  shows "xs = ys"
proof (rule map_inj_on)
  show "map resource_name xs = map resource_name ys" using assms by (intro sd_eq) simp_all
  show "inj_on resource_name (set xs \<union> set ys)" using assms(1,3) by (simp add: sd_def distinct_map)
qed

lemma sd_filter: "sd (map f xs) \<Longrightarrow> sd (map f (filter P xs))"
  by (simp add: sd_def sorted_filter distinct_map_filter)

lemma found_resources_spec:
  assumes "shards_ok t index"
  shows "set (found_resources index names unique) = {r. resource_name r \<in> set names - unique \<and> shard_get index (resource_name r) = Some r}"
    and "distinct (map resource_name (found_resources index names unique))"
proof (induction names arbitrary: unique)
  case (Cons n names)
  have get: "resource_name r = n" if "shard_get index n = Some r" for r using shards_ok_get [OF assms that] by simp
  {
    case 1
    show ?case using get Cons.IH(1) by (auto split: option.split)
  next
    case 2
    show ?case using get Cons.IH by (auto split: option.split)
  }
qed simp_all

lemma resourcesForNames_scan:
  assumes "shards_ok t index"
  shows "resourcesForNames index names = filter (\<lambda>r. resource_name r \<in> set names) (index_list index)"
  using found_resources_spec [OF assms, of names "{}"] index_list_spec [OF assms]
  by (intro eq_by_name) (auto simp: resourcesForNames_def sd_def distinct_map_sort sorted_filter distinct_map_filter)

subsection \<open>A snapshot that is built\<close>

lemma appended_names:
  "n \<noteq> [] \<Longrightarrow> set (lookupNames (foldl (appendLookupName n) l ks) k) =
     set (lookupNames l k) \<union> (if k \<in> set ks \<and> k \<noteq> [] then {n} else {})"
  by (induction ks arbitrary: l) (auto simp: appendLookupName_def lookupNames_put)

lemma mem_entries:
  "e \<in> set (resourceLookupEntries (Some r)) \<longleftrightarrow>
     le_key e \<noteq> [] \<and> (le_kind e = 0 \<and> le_key e \<in> set (res_XDSName r # res_Aliases r) \<or> le_kind e = 1 \<and> le_key e \<in> set (resourceFactKeys r))"
  by (cases e) (auto simp: resourceLookupEntries_def)

lemma posting_indexed:
  assumes "le_kind e \<le> 1" and "resource_name r \<noteq> []"
  shows "set (posting (indexResourceLookups index r) e) =
    set (posting index e) \<union> (if e \<in> set (resourceLookupEntries (Some r)) then {resource_name r} else {})"
proof (cases "le_kind e = 1")
  case True
  then show ?thesis
    using appended_names [OF assms(2), of "ti_facts index" "resourceFactKeys r" "le_key e"]
    by (simp add: posting_def lookup_of_def indexResourceLookups_def mem_entries)
next
  case False
  then have "le_kind e = 0" using assms(1) by simp
  then show ?thesis
    using appended_names [OF assms(2), of "ti_lookup index" "res_XDSName r # res_Aliases r" "le_key e"]
    by (simp add: posting_def lookup_of_def indexResourceLookups_def mem_entries del: foldl_Cons)
qed

lemma compact_after_spec: "sorted (k # vs) \<Longrightarrow> sd (k # compact_after k vs) \<and> insert k (set (compact_after k vs)) = insert k (set vs)"
proof (induction k vs rule: compact_after.induct)
  case (2 k v vs)
  show ?case
  proof (cases "v = k")
    case True
    with 2 show ?thesis by simp
  next
    case False
    then have "k < v" using 2(3) by (auto simp: order_less_le)
    with 2(2) [OF False] 2(3) False show ?thesis by (auto simp: sd_Cons)
  qed
qed (simp add: sd_Cons)

lemma compactSorted_spec: "sorted xs \<Longrightarrow> sd (compactSorted xs) \<and> set (compactSorted xs) = set xs"
  using compact_after_spec by (cases xs) auto

lemma posting_finalized:
  "sd (posting (finalize_index index) e) \<and> set (posting (finalize_index index) e) = set (posting index e)"
  using compactSorted_spec [of "sort xs" for xs]
  by (auto simp: posting_def lookup_of_def finalize_index_def finalizeLookupIndex_def lookupNames_def split: option.split)

definition building_ok :: "string \<Rightarrow> resourceTypeIndex \<Rightarrow> bool" where
  "building_ok t index \<longleftrightarrow>
     shards_ok t index \<and> (\<forall>e. le_kind e \<le> 1 \<longrightarrow> set (posting index e) = {n. has_entry index e n}) \<and>
     ti_length index = int (card (dom (shard_get index)))"

lemma building_add:
  assumes "building_ok t index" and "shard_get index n = None" and "res_Key r = \<lparr>key_TypeURL = t, key_Name = n\<rparr>" and "n \<noteq> []"
  defines "i \<equiv> indexResourceLookups (shard_put index n r) r"
  shows "building_ok t (i\<lparr>ti_length := ti_length i + 1\<rparr>)"
proof -
  have sh: "ti_shards i = ti_shards (shard_put index n r)" "ti_length i = ti_length index"
    by (simp_all add: i_def indexResourceLookups_def shard_put_def)
  have get: "shard_get i = (shard_get index)(n \<mapsto> r)" using shard_get_cong [OF sh(1)] by (simp add: fun_eq_iff)
  have "shards_ok t i" using shards_ok_put [of t index r n] assms(1,3,4) sh(1) by (simp add: building_ok_def shards_ok_def)
  moreover have "set (posting i e) = {m. has_entry i e m}" if "le_kind e \<le> 1" for e
    using posting_indexed [OF that, of r "shard_put index n r"] assms(1-4) that
    by (auto simp: i_def [symmetric] building_ok_def has_entry_def get)
  moreover have "card (dom (shard_get i)) = Suc (card (dom (shard_get index)))"
    using assms(2) finite_dom_shards [of index] by (simp add: get domIff)
  ultimately show ?thesis using assms(1) sh(2) by (simp add: building_ok_def shards_ok_def has_entry_def)
qed

lemma building_empty: "building_ok t empty_index"
  by (simp add: building_ok_def shards_ok_def empty_index_def posting_def lookup_of_def lookupNames_def has_entry_def
      shard_get_def dom_def)

lemma add_resources_ok:
  "add_resources env rs (resources, count) = Inr (resources', count') \<Longrightarrow> distinct (map fst resources) \<Longrightarrow>
   (\<forall>t. building_ok t (type_index resources t)) \<Longrightarrow>
   distinct (map fst resources') \<and> (\<forall>t. building_ok t (type_index resources' t))"
proof (induction rs arbitrary: resources count)
  case (Cons r rs)
  obtain r' where n: "prehashed env r = Inr r'" using Cons.prems(1) by (auto split: sum.splits)
  define t where "t = key_TypeURL (res_Key r')"
  define m where "m = key_Name (res_Key r')"
  define i where "i = indexResourceLookups (shard_put (type_index resources t) m r') r'"
  have none: "shard_get (type_index resources t) m = None"
    using Cons.prems(1) n by (auto simp: Let_def t_def m_def split: if_splits)
  then have rest: "add_resources env rs (AList.update t (i\<lparr>ti_length := ti_length i + 1\<rparr>) resources, count + 1) = Inr (resources', count')"
    using Cons.prems(1) n by (simp add: Let_def t_def [symmetric] m_def [symmetric] i_def)
  have key: "res_Key r' = \<lparr>key_TypeURL = t, key_Name = m\<rparr>" by (simp add: t_def m_def)
  have "m \<noteq> []" using prehashed_key [OF n] by (auto simp: m_def)
  then have "building_ok t (i\<lparr>ti_length := ti_length i + 1\<rparr>)"
    unfolding i_def by (intro building_add) (use Cons.prems(3) none key in simp_all)
  with Cons.IH [OF rest] Cons.prems(2,3) show ?case by (simp add: distinct_update type_index_update)
qed simp

lemma NewResourceSet_ok:
  assumes "NewResourceSet env rs = Inr s"
  shows "set_ok s"
proof -
  obtain resources count where add: "add_resources env rs ([], 0) = Inr (resources, count)"
    and s: "rs_resources s = map (\<lambda>(t, index). (t, finalize_index index)) resources"
    using assms by (auto simp: NewResourceSet_def Let_def split: sum.splits prod.splits)
  have ok: "distinct (map fst resources)" "\<And>t. building_ok t (type_index resources t)"
    using add_resources_ok [OF add] building_empty by (simp_all add: type_index_def)
  have "index_ok False t (finalize_index index) []" if "(t, index) \<in> set resources" for t index
  proof -
    have "type_index resources t = index" using ok(1) that by (simp add: type_index_def)
    with ok(2) [of t] have "building_ok t index" by simp
    moreover have "shard_get (finalize_index index) = shard_get index" "ti_shards (finalize_index index) = ti_shards index"
      "ti_length (finalize_index index) = ti_length index"
      by (simp_all add: shard_get_def finalize_index_def fun_eq_iff)
    ultimately show ?thesis using posting_finalized [of index]
      by (auto simp: index_ok_def building_ok_def tracks_def has_entry_def shards_ok_def)
  qed
  then have "\<forall>(t, index)\<in>set (rs_resources s). index_ok False t index []" by (auto simp: s)
  moreover have "map fst (rs_resources s) = map fst resources" unfolding s by auto
  ultimately show ?thesis using ok(1) by (simp add: set_ok_def)
qed

text \<open>The snapshots that are ever published.\<close>

inductive published :: "resource_env \<Rightarrow> ResourceSet \<Rightarrow> bool" for env where
  new: "NewResourceSet env rs = Inr s \<Longrightarrow> published env s"
| change: "published env s \<Longrightarrow> honest_changes env (set_Get s) changes \<Longrightarrow>
    set_Apply env s changes = Inr (s', changed) \<Longrightarrow> published env s'"

lemma published_ok: "published env s \<Longrightarrow> set_ok s"
  by (induction rule: published.induct) (use NewResourceSet_ok set_Apply_ok in blast)+

subsection \<open>Reads through the postings\<close>

lemma kind_byte_less: "kind_byte k < 256"
  by (cases k) simp_all

lemma kind_byte_inj: "kind_byte k = kind_byte k' \<longleftrightarrow> k = k'"
  by (cases k; cases k') simp_all

lemma index_key_eq [simp]: "resourceFactIndexKey k v = resourceFactIndexKey k' v' \<longleftrightarrow> k = k' \<and> v = v'"
proof -
  have "char_of (kind_byte k) = (char_of (kind_byte k') :: char) \<longleftrightarrow> k = k'"
    using kind_byte_less [of k] kind_byte_less [of k'] kind_byte_inj [of k k']
    by (metis mod_less of_char_of)
  then show ?thesis by (simp add: resourceFactIndexKey_def)
qed

lemma index_key_nonempty [simp]: "resourceFactIndexKey k v \<noteq> []"
  by (simp add: resourceFactIndexKey_def)

lemma mem_fact_key [simp]: "x \<in> set (fact_key k v) \<longleftrightarrow> v \<noteq> [] \<and> x = resourceFactIndexKey k v"
  by (auto simp: fact_key_def)

lemma reference_key_kinds [simp]:
  "resourceReferenceIndexKey key = resourceFactIndexKey k v \<longleftrightarrow>
     (if key_TypeURL key = TrafficPolicyType then k = resourceFactTrafficPolicyReference \<and> v = key_Name key
      else k = resourceFactReference \<and> v = key_TypeURL key @ [char_of (0 :: nat)] @ key_Name key)"
  "resourceFactIndexKey k v = resourceReferenceIndexKey key \<longleftrightarrow> resourceReferenceIndexKey key = resourceFactIndexKey k v"
  by (auto simp: resourceReferenceIndexKey_def)

lemmas fact_keys = resourceFactKeys_def workload_fact_keys_def authorization_fact_keys_def Let_def

lemma owner_key: "resourceFactIndexKey resourceFactGatewayOwner g \<in> set (resourceFactKeys r) \<longleftrightarrow> g \<noteq> [] \<and> facts_GatewayOwner (res_Facts r) = g"
  by (auto simp: fact_keys image_iff split: option.splits if_splits)

lemma attester_key: "resourceFactIndexKey resourceFactAttesterWorkloadUID u \<in> set (resourceFactKeys r) \<longleftrightarrow> u \<noteq> [] \<and> facts_Sandbox (res_Facts r) = Some u"
  by (auto simp: fact_keys image_iff split: option.splits if_splits)

lemma service_key: "resourceFactIndexKey resourceFactService k \<in> set (resourceFactKeys r) \<longleftrightarrow>
   k \<noteq> [] \<and> (facts_Service (res_Facts r) = Some k \<or> (\<exists>w. facts_Workload (res_Facts r) = Some w \<and> k \<in> set (wf_ServiceKeys w)))"
  by (auto simp: fact_keys image_iff split: option.splits if_splits)

lemma global_key: "resourceFactIndexKey resourceFactAuthorizationGlobal ''global'' \<in> set (resourceFactKeys r) \<longleftrightarrow>
   (\<exists>a. facts_Authorization (res_Facts r) = Some a \<and> af_Scope a = AuthorizationScopeGlobal)"
  by (cases "facts_Authorization (res_Facts r)") (auto simp: fact_keys image_iff split: option.splits if_splits)

lemma namespace_key: "resourceFactIndexKey resourceFactAuthorizationNamespace n \<in> set (resourceFactKeys r) \<longleftrightarrow>
   n \<noteq> [] \<and> (\<exists>a. facts_Authorization (res_Facts r) = Some a \<and> af_Scope a = AuthorizationScopeNamespace \<and> af_Namespace a = n)"
  by (cases "facts_Authorization (res_Facts r)") (auto simp: fact_keys image_iff AuthorizationScopeGlobal_def AuthorizationScopeNamespace_def split: option.splits if_splits)

lemma set_ok_index:
  assumes "set_ok s" and "map_of (rs_resources s) t = Some index"
  shows "index_ok False t index []" and "set_List s t = index_list index"
  using assms by (auto simp: set_ok_def set_List_def index_list_def dest: map_of_SomeD)

lemma posting_members:
  assumes "index_ok False t index []" and "r \<in> set (index_list index)" and "le_kind e \<le> 1"
  shows "resource_name r \<in> set (posting index e) \<longleftrightarrow> e \<in> set (resourceLookupEntries (Some r))"
proof -
  have "shard_get index (resource_name r) = Some r" using index_list_spec(2) [of t index] assms(1,2) by (simp add: index_ok_def)
  moreover have "has_entry index e (resource_name r) \<longleftrightarrow> resource_name r \<in> set (posting index e)"
    using assms(1,3) by (simp add: index_ok_def tracks_def)
  ultimately show ?thesis by (auto simp: has_entry_def)
qed

lemma listByFact_scan:
  assumes "set_ok s"
  shows "listByFact s t kind key = filter (\<lambda>r. key \<noteq> [] \<and> resourceFactIndexKey kind key \<in> set (resourceFactKeys r)) (set_List s t)"
proof (cases "map_of (rs_resources s) t")
  case None
  then show ?thesis by (simp add: listByFact_def set_List_def)
next
  case (Some index)
  note ok = set_ok_index [OF assms Some]
  have "lookupNames (ti_facts index) x = posting index \<lparr>le_kind = 1, le_key = x\<rparr>" for x
    by (simp add: posting_def lookup_of_def)
  then have "resource_name r \<in> set (lookupNames (ti_facts index) x) \<longleftrightarrow> x \<noteq> [] \<and> x \<in> set (resourceFactKeys r)"
    if "r \<in> set (index_list index)" for r x
    using posting_members [OF ok(1) that, of "\<lparr>le_kind = 1, le_key = x\<rparr>"] by (simp add: mem_entries)
  with ok resourcesForNames_scan [of t index] Some show ?thesis
    by (auto simp: listByFact_def index_ok_def intro: filter_cong)
qed

lemma set_Lookup_scan:
  assumes "set_ok s"
  shows "set_Lookup s t name =
    filter (\<lambda>r. name \<noteq> [] \<and> (name = res_XDSName r \<or> name \<in> set (res_Aliases r) \<or> name = resource_name r)) (set_List s t)"
proof (cases "map_of (rs_resources s) t")
  case None
  then show ?thesis by (simp add: set_Lookup_def set_List_def)
next
  case (Some index)
  note ok = set_ok_index [OF assms Some]
  define extra where "extra = (case set_Get s \<lparr>key_TypeURL = t, key_Name = name\<rparr> of None \<Rightarrow> [] | Some r \<Rightarrow> [resource_name r])"
  have posting: "lookupNames (ti_lookup index) name = posting index \<lparr>le_kind = 0, le_key = name\<rparr>"
    by (simp add: posting_def lookup_of_def)
  have mem: "resource_name r \<in> set (lookupNames (ti_lookup index) name @ extra) \<longleftrightarrow>
      name = res_XDSName r \<or> name \<in> set (res_Aliases r) \<or> name = resource_name r"
    if "r \<in> set (index_list index)" "name \<noteq> []" for r
  proof -
    have r: "shard_get index (resource_name r) = Some r" using index_list_spec(2) [of t index] ok(1) that(1) by (simp add: index_ok_def)
    have "resource_name r \<in> set extra \<longleftrightarrow> name = resource_name r"
      using r shards_ok_get [of t index name] ok(1) Some
      by (auto simp: extra_def set_Get_def index_ok_def split: option.splits)
    moreover have "resource_name r \<in> set (lookupNames (ti_lookup index) name) \<longleftrightarrow> name = res_XDSName r \<or> name \<in> set (res_Aliases r)"
      using posting_members [OF ok(1) that(1), of "\<lparr>le_kind = 0, le_key = name\<rparr>"] that(2) posting by (simp add: mem_entries)
    ultimately show ?thesis by auto
  qed
  have "set_Lookup s t name = (if name = [] then [] else resourcesForNames index (lookupNames (ti_lookup index) name @ extra))"
    by (simp add: set_Lookup_def Some extra_def)
  also have "\<dots> = filter (\<lambda>r. name \<noteq> [] \<and> (name = res_XDSName r \<or> name \<in> set (res_Aliases r) \<or> name = resource_name r)) (index_list index)"
    using resourcesForNames_scan [of t index] ok(1) mem by (auto simp: index_ok_def intro!: filter_cong)
  finally show ?thesis using ok(2) by simp
qed

lemma published_list:
  assumes "set_ok s"
  shows "sd (map resource_name (set_List s t)) \<and>
    set (set_List s t) = {r. key_TypeURL (res_Key r) = t \<and> set_Get s (res_Key r) = Some r}"
proof (cases "map_of (rs_resources s) t")
  case None
  then show ?thesis by (auto simp: set_List_def set_Get_def)
next
  case (Some index)
  note ok = set_ok_index [OF assms Some]
  have sh: "shards_ok t index" using ok(1) by (simp add: index_ok_def)
  have typed: "key_TypeURL (res_Key r) = t" if "shard_get index (resource_name r) = Some r" for r
    using shards_ok_get [OF sh that] by (metis ResourceKey.select_convs(1))
  have get: "set_Get s (res_Key r) = shard_get index (resource_name r)" if "key_TypeURL (res_Key r) = t" for r
    using Some that by (simp add: set_Get_def)
  have "set (index_list index) = {r. key_TypeURL (res_Key r) = t \<and> set_Get s (res_Key r) = Some r}"
    unfolding index_list_spec(2) [OF sh] by (intro Collect_cong) (metis typed get)
  then show ?thesis using ok(2) index_list_spec(1) [OF sh] by simp
qed

text \<open>A query considers only postings that hold every match, and keeps one of them.\<close>

lemma consider_postings_mem:
  "consider_postings index fs c = Some names \<Longrightarrow> c = Some names \<or> (\<exists>(k, v)\<in>set fs. names = lookupNames index (resourceFactIndexKey k v))"
proof (induction fs arbitrary: c)
  case (Cons f fs)
  then show ?case by (cases f; cases c) (auto simp: Let_def split: if_splits)
qed simp

lemma consider_postings_some: "fs \<noteq> [] \<or> c \<noteq> None \<Longrightarrow> consider_postings index fs c \<noteq> None"
proof (induction fs arbitrary: c)
  case (Cons f fs)
  then show ?case by (cases f; cases c) (auto simp: Let_def)
qed simp

lemma SourceRef_String_Nil: "SourceRef_String s = [] \<longleftrightarrow> s = zero_source"
  by (cases s) (auto simp: SourceRef_String_def zero_source_def)

lemma matched_workload:
  assumes "query_Matches q (Some w)"
  shows "wq_WorkloadUID q \<noteq> [] \<Longrightarrow> wf_WorkloadUID w = wq_WorkloadUID q"
    "wq_Source q \<noteq> zero_source \<Longrightarrow> wf_Source w = wq_Source q"
    "wq_NodeName q \<noteq> [] \<Longrightarrow> wf_NodeName w = wq_NodeName q"
    "wq_Namespace q \<noteq> [] \<Longrightarrow> wf_Namespace w = wq_Namespace q"
    "wq_Principal q = Some p \<Longrightarrow> wf_Principal w = p"
    "wq_ServiceKey q \<noteq> [] \<Longrightarrow> wq_ServiceKey q \<in> set (wf_ServiceKeys w)"
    "wq_GatewayReference q \<noteq> [] \<Longrightarrow> wq_GatewayReference q \<in> set (wf_GatewayReferences w)"
    "wq_AuthorizationReference q \<noteq> [] \<Longrightarrow> wq_AuthorizationReference q \<in> set (wf_AuthorizationRefs w)"
    "wq_TrafficPolicyReference q \<noteq> [] \<Longrightarrow> wq_TrafficPolicyReference q \<in> set (wf_TrafficPolicyRefs w)"
    "wq_AuthorizationRefsOnly q \<Longrightarrow> workloadHasAuthorizationRefs w"
    "wq_TrafficPolicyRefsOnly q \<Longrightarrow> wf_TrafficPolicyRefs w \<noteq> []"
  using assms by (simp_all add: query_Matches_def workloadReferencesMatch_def)

lemma workload_keys:
  "resourceFactIndexKey resourceFactWorkloadUID v \<in> set (workload_fact_keys w) \<longleftrightarrow> v \<noteq> [] \<and> v = wf_WorkloadUID w"
  "resourceFactIndexKey resourceFactSource v \<in> set (workload_fact_keys w) \<longleftrightarrow> v \<noteq> [] \<and> v = SourceRef_String (wf_Source w)"
  "resourceFactIndexKey resourceFactNode v \<in> set (workload_fact_keys w) \<longleftrightarrow> v \<noteq> [] \<and> v = wf_NodeName w"
  "resourceFactIndexKey resourceFactNamespace v \<in> set (workload_fact_keys w) \<longleftrightarrow> v \<noteq> [] \<and> v = wf_Namespace w"
  "resourceFactIndexKey resourceFactPrincipal v \<in> set (workload_fact_keys w) \<longleftrightarrow> v \<noteq> [] \<and> v = wf_Principal w"
  "resourceFactIndexKey resourceFactService v \<in> set (workload_fact_keys w) \<longleftrightarrow> v \<noteq> [] \<and> v \<in> set (wf_ServiceKeys w)"
  "resourceFactIndexKey resourceFactGatewayReference v \<in> set (workload_fact_keys w) \<longleftrightarrow> v \<noteq> [] \<and> v \<in> set (wf_GatewayReferences w)"
  "resourceFactIndexKey resourceFactAuthorizationReference v \<in> set (workload_fact_keys w) \<longleftrightarrow> v \<noteq> [] \<and> v \<in> set (wf_AuthorizationRefs w)"
  "resourceFactIndexKey resourceFactTrafficPolicyReference v \<in> set (workload_fact_keys w) \<longleftrightarrow> v \<noteq> [] \<and> v \<in> set (wf_TrafficPolicyRefs w)"
  "resourceFactIndexKey resourceFactWorkloadAuthorizationRefs v \<in> set (workload_fact_keys w) \<longleftrightarrow> v = ''enabled'' \<and> workloadHasAuthorizationRefs w"
  "resourceFactIndexKey resourceFactWorkloadTrafficPolicyRefs v \<in> set (workload_fact_keys w) \<longleftrightarrow> v = ''enabled'' \<and> wf_TrafficPolicyRefs w \<noteq> []"
  by (auto simp: workload_fact_keys_def)

lemma no_empty_principal [simp]: "\<not> Principal_Validate []"
  by (simp add: Principal_Validate_def ParsePrincipal_def HasPrefix_def)

lemma SplitByte_not_Nil: "SplitByte s c \<noteq> []"
  by (induction s c rule: SplitByte.induct) (auto split: list.splits)

lemma hd_SplitByte: "hd (SplitByte s c) = takeWhile (\<lambda>x. x \<noteq> c) s"
  by (induction s c rule: SplitByte.induct) (auto simp: SplitByte_not_Nil split: list.splits)

lemma canonical_segment: "list_all identity_byte td \<Longrightarrow> canonicalTrustDomain td = td"
  by (induction td) (auto simp: canonicalTrustDomain_def identity_byte_def)

lemma ParsePrincipal_validates:
  assumes "ParsePrincipal raw trustDomain = Some p"
  shows "p = raw \<and> TrustDomain p = canonicalTrustDomain trustDomain \<and> Principal_Validate p"
proof -
  define parts where "parts = SplitByte (TrimPrefix raw ''spiffe://'') CHR ''/''"
  have d: "TrustDomain raw = hd parts" by (simp add: TrustDomain_def parts_def hd_SplitByte)
  have p: "p = raw" "hd parts = canonicalTrustDomain trustDomain" "list_all validIdentitySegment parts"
    using assms by (simp_all add: ParsePrincipal_def Let_def parts_def split: if_splits)
  have "validIdentitySegment (hd parts)" using p(3) SplitByte_not_Nil by (cases parts) (auto simp: parts_def)
  then have "canonicalTrustDomain (TrustDomain raw) = canonicalTrustDomain trustDomain"
    using canonical_segment [of "hd parts"] d p(2) by (simp add: validIdentitySegment_def)
  then have "ParsePrincipal raw (TrustDomain raw) = ParsePrincipal raw trustDomain" by (simp only: ParsePrincipal_def)
  with assms d p(1,2) show ?thesis by (simp add: Principal_Validate_def)
qed

lemma NewPrincipal_validates:
  "NewPrincipal trustDomain path = Some p \<Longrightarrow> Principal_Validate p \<and> TrustDomain p = canonicalTrustDomain trustDomain"
  using ParsePrincipal_validates unfolding NewPrincipal_def by blast

lemma matching_posting:
  assumes "query_Matches q (facts_Workload (res_Facts r))" and "(k, v) \<in> set (query_postings q)"
    and "query_valid q"
  shows "resourceFactIndexKey k v \<in> set (resourceFactKeys r)"
proof -
  obtain w where w: "facts_Workload (res_Facts r) = Some w" using assms(1) by (auto simp: query_Matches_def split: option.splits)
  note m = matched_workload [OF assms(1) [unfolded w]]
  have "(k, v) \<in> set (query_fields q) \<and> v \<noteq> [] \<or>
      k = resourceFactWorkloadAuthorizationRefs \<and> v = ''enabled'' \<and> wq_AuthorizationRefsOnly q \<or>
      k = resourceFactWorkloadTrafficPolicyRefs \<and> v = ''enabled'' \<and> wq_TrafficPolicyRefsOnly q \<or>
      k = resourceFactPrincipal \<and> wq_Principal q = Some v"
    using assms(2) by (auto simp: query_postings_def split: if_splits option.splits)
  then have "resourceFactIndexKey k v \<in> set (workload_fact_keys w)"
  proof (elim disjE conjE)
    assume "(k, v) \<in> set (query_fields q)" "v \<noteq> []"
    then show ?thesis unfolding query_fields_def list.set insert_iff prod.inject
      by (elim disjE conjE emptyE; simp add: workload_keys m SourceRef_String_Nil)
  next
    assume "k = resourceFactPrincipal" "wq_Principal q = Some v"
    with m(5) assms(3) show ?thesis by (auto simp: workload_keys query_valid_def)
  qed (use m in \<open>simp_all add: workload_keys\<close>)
  then show ?thesis by (simp add: resourceFactKeys_def w Let_def)
qed

lemma set_map_filter_iff: "y \<in> set (List.map_filter f xs) \<longleftrightarrow> (\<exists>x\<in>set xs. f x = Some y)"
proof (induction xs)
  case (Cons x xs)
  then show ?case by (cases "f x") (auto simp: map_filter_simps)
qed (simp add: map_filter_simps)

lemma ListWorkloads_scan:
  assumes "set_ok s"
  shows "ListWorkloads s t q =
    (if query_valid q \<and> query_postings q \<noteq> []
     then filter (\<lambda>r. query_Matches q (facts_Workload (res_Facts r))) (set_List s t) else [])"
proof (cases "map_of (rs_resources s) t")
  case None
  then show ?thesis by (simp add: ListWorkloads_def set_List_def)
next
  case (Some index)
  note ok = set_ok_index [OF assms(1) Some]
  have sh: "shards_ok t index" using ok(1) by (simp add: index_ok_def)
  show ?thesis
  proof (cases "query_valid q \<and> query_postings q \<noteq> []")
    case False
    then show ?thesis by (auto simp: ListWorkloads_def Some workloadQueryCandidates_def map_filter_simps)
  next
    case True
    then obtain names where c: "consider_postings (ti_facts index) (query_postings q) None = Some names"
      using consider_postings_some [of "query_postings q" None "ti_facts index"] by auto
    then obtain k v where kv: "(k, v) \<in> set (query_postings q)" "names = lookupNames (ti_facts index) (resourceFactIndexKey k v)"
      using consider_postings_mem by blast
    then have names: "names = posting index \<lparr>le_kind = 1, le_key = resourceFactIndexKey k v\<rparr>" by (simp add: posting_def lookup_of_def)
    have sdn: "sd names" using ok(1) unfolding names by (simp add: index_ok_def tracks_def)
    have mem: "resource_name r \<in> set names" if "r \<in> set (index_list index)" "query_Matches q (facts_Workload (res_Facts r))" for r
      using posting_members [OF ok(1) that(1), of "\<lparr>le_kind = 1, le_key = resourceFactIndexKey k v\<rparr>"]
        matching_posting [OF that(2) kv(1)] True by (simp add: names mem_entries)
    define out where "out = List.map_filter (found_match index q) names"
    have found: "found_match index q n = Some r \<longleftrightarrow> n = resource_name r \<and> r \<in> set (index_list index) \<and> query_Matches q (facts_Workload (res_Facts r))" for n r
    proof -
      have "found_match index q n = Some r \<longleftrightarrow> shard_get index n = Some r \<and> query_Matches q (facts_Workload (res_Facts r))"
        by (auto simp: found_match_def split: option.splits)
      then show ?thesis by (simp add: shard_get_list [OF sh])
    qed
    have "map resource_name (List.map_filter (found_match index q) ns) = filter (\<lambda>n. found_match index q n \<noteq> None) ns" for ns
    proof (induction ns)
      case (Cons n ns)
      have "resource_name r = n" if "found_match index q n = Some r" for r using found [of n r] that by simp
      with Cons show ?case by (cases "found_match index q n") (simp_all add: map_filter_simps)
    qed (simp add: map_filter_simps)
    then have "map resource_name out = filter (\<lambda>n. found_match index q n \<noteq> None) names" by (simp only: out_def)
    then have "sd (map resource_name out)" using sd_filter [of "\<lambda>x. x" names] sdn by simp
    moreover have "set out = set (filter (\<lambda>r. query_Matches q (facts_Workload (res_Facts r))) (index_list index))"
      using mem by (auto simp: out_def set_map_filter_iff found)
    ultimately have "out = filter (\<lambda>r. query_Matches q (facts_Workload (res_Facts r))) (index_list index)"
      using index_list_spec(1) [OF sh] by (intro eq_by_name) (auto intro: sd_filter)
    with True c ok(2) Some show ?thesis by (simp add: ListWorkloads_def workloadQueryCandidates_def out_def)
  qed
qed

lemma HasWorkload_iff: "HasWorkload s t q \<longleftrightarrow> ListWorkloads s t q \<noteq> []"
  by (auto simp: HasWorkload_def ListWorkloads_def List.map_filter_def list_ex_iff filter_empty_conv split: option.split)

lemma direct_records: "snd (foldl (record_membership False t n add) st es) = snd st"
  by (induction es arbitrary: st) (auto simp: record_membership_def Let_def split: prod.splits)

lemma direct_diff: "snd (updateResourceLookupDiff False t old new (index, pending)) = pending"
  by (simp add: updateResourceLookupDiff_def Let_def direct_records)

subsection \<open>An example snapshot\<close>

definition example_env :: resource_env where
  "example_env = \<lparr>en_marshal = (\<lambda>v. Some (any_Value v)), en_digest = (\<lambda>b. b)\<rparr>"

definition example_resource :: "string \<Rightarrow> Resource" where
  "example_resource hash =
     \<lparr>res_Key = \<lparr>key_TypeURL = AddressType, key_Name = ''a''\<rparr>, res_XDSName = ''x'',
      res_Value = Some \<lparr>any_TypeUrl = AddressType, any_Value = []\<rparr>, res_Aliases = [''b''], res_Hash = hash,
      res_Facts = \<lparr>facts_References = None, facts_SourceIdentity = [], facts_Workload = Some
        \<lparr>wf_Namespace = ''n'', wf_WorkloadUID = ''u'', wf_Source = zero_source, wf_NodeName = ''m'', wf_Principal = [],
         wf_ServiceKeys = [''s''], wf_GatewayReferences = [], wf_AuthorizationRefs = [], wf_TrafficPolicyRefs = []\<rparr>,
       facts_Sandbox = None, facts_Service = None, facts_Authorization = None, facts_GatewayOwner = ''g'',
       facts_AgentioEgress = False\<rparr>\<rparr>"

lemma example_valid: "validateResource (example_resource h) = None"
  by code_simp

lemma example_key [simp]: "res_Key (example_resource h) = \<lparr>key_TypeURL = AddressType, key_Name = ''a''\<rparr>"
  by (simp add: example_resource_def)

lemma example_prehashed: "h \<noteq> [] \<Longrightarrow> prehashed env (example_resource h) = Inr (example_resource h)"
  by (simp add: prehashed_def example_valid) (simp add: example_resource_def)

lemma shard_get_unindexed [simp]:
  "shard_get empty_index n = None" "shard_get (finalize_index index) = shard_get index"
  "shard_get (indexResourceLookups index r) = shard_get index"
  by (simp_all add: shard_get_def empty_index_def finalize_index_def indexResourceLookups_def fun_eq_iff)

lemma example_set:
  "\<exists>s. NewResourceSet example_env [example_resource ''h''] = Inr s \<and>
    set_Get s = [\<lparr>key_TypeURL = AddressType, key_Name = ''a''\<rparr> \<mapsto> example_resource ''h'']"
  by (auto simp: NewResourceSet_def example_prehashed type_index_def Let_def set_Get_def fun_eq_iff)

lemma example_published:
  "\<exists>s. published example_env s \<and>
    set_Get s = [\<lparr>key_TypeURL = AddressType, key_Name = ''a''\<rparr> \<mapsto> example_resource ''h''] \<and>
    set_List s AddressType = [example_resource ''h'']"
proof -
  obtain s where s: "NewResourceSet example_env [example_resource ''h''] = Inr s"
    "set_Get s = [\<lparr>key_TypeURL = AddressType, key_Name = ''a''\<rparr> \<mapsto> example_resource ''h'']"
    using example_set by blast
  have p: "published example_env s" using s(1) by (rule published.new)
  note l = published_list [OF published_ok [OF p], of AddressType]
  have "sd (map resource_name [example_resource ''h''])" by (simp add: sd_def)
  moreover have "set (set_List s AddressType) = set [example_resource ''h'']"
    unfolding l [THEN conjunct2] s(2) by (auto split: if_splits)
  ultimately have "set_List s AddressType = [example_resource ''h'']" using l by (intro eq_by_name) simp_all
  with p s(2) show ?thesis by blast
qed

lemma apply_example:
  assumes "set_Get s = [\<lparr>key_TypeURL = AddressType, key_Name = ''a''\<rparr> \<mapsto> example_resource ''h'']"
  shows "\<exists>s'. set_Apply example_env s
    [\<lparr>ch_Key = \<lparr>key_TypeURL = AddressType, key_Name = ''a''\<rparr>, ch_Old = None, ch_New = None\<rparr>,
     \<lparr>ch_Key = \<lparr>key_TypeURL = AddressType, key_Name = ''a''\<rparr>, ch_Old = None, ch_New = Some (example_resource ''i'')\<rparr>] = Inr (s', True)"
proof -
  have b: "\<not> blank AddressType" "\<not> blank ''a''" by code_simp+
  have g: "shard_get (type_index (rs_resources s) AddressType) ''a'' = Some (example_resource ''h'')"
    using assms [THEN fun_cong, of "\<lparr>key_TypeURL = AddressType, key_Name = ''a''\<rparr>"]
    by (simp add: set_Get_def type_index_def split: option.splits)
  have e: "as_effective (commit_change x c cur st) \<noteq> []" for x c cur st
    by (simp add: commit_change_def Let_def split: prod.splits option.splits)
  show ?thesis
    by (auto simp: set_Apply_def apply_change_def Let_def b g e normalizeChangedResource_def example_prehashed example_valid)
qed

section \<open>Properties\<close>

text \<open>
  C0: indexed reads are scans.  In every snapshot that \<open>NewResourceSet\<close> builds and any number of
  batches change, looking up a name returns exactly the resources of the type with that wire name,
  alias or key, and the listings by owner, attester, Service and authorization scope return
  exactly the resources with that fact, each in the order of the full list.
\<close>

theorem indexed_reads_are_scans:
  assumes "published env s"
  shows "set_Lookup s t name =
      filter (\<lambda>r. name \<noteq> [] \<and> (name = res_XDSName r \<or> name \<in> set (res_Aliases r) \<or> name = key_Name (res_Key r))) (set_List s t) \<and>
    ListResourcesOwnedByGateway s t g = filter (\<lambda>r. g \<noteq> [] \<and> facts_GatewayOwner (res_Facts r) = g) (set_List s t) \<and>
    ListSandboxesByAttester s u = filter (\<lambda>r. u \<noteq> [] \<and> facts_Sandbox (res_Facts r) = Some u) (set_List s SandboxType) \<and>
    ListServiceMembers s t k = filter (\<lambda>r. k \<noteq> [] \<and> (facts_Service (res_Facts r) = Some k \<or>
      (\<exists>w. facts_Workload (res_Facts r) = Some w \<and> k \<in> set (wf_ServiceKeys w)))) (set_List s t) \<and>
    ListGlobalAuthorizations s = filter (\<lambda>r. \<exists>a. facts_Authorization (res_Facts r) = Some a \<and>
      af_Scope a = AuthorizationScopeGlobal) (set_List s WorkloadAuthorizationType) \<and>
    ListNamespaceAuthorizations s n = filter (\<lambda>r. n \<noteq> [] \<and> (\<exists>a. facts_Authorization (res_Facts r) = Some a \<and>
      af_Scope a = AuthorizationScopeNamespace \<and> af_Namespace a = n)) (set_List s WorkloadAuthorizationType)"
proof -
  have ok: "set_ok s" using assms by (rule published_ok)
  show ?thesis
    unfolding set_Lookup_scan [OF ok] ListResourcesOwnedByGateway_def ListSandboxesByAttester_def ListServiceMembers_def
      ListGlobalAuthorizations_def ListNamespaceAuthorizations_def listByFact_scan [OF ok]
      owner_key attester_key service_key global_key namespace_key
    by (intro conjI filter_cong refl) auto
qed

theorem indexed_reads_are_scans_witness:
  "\<exists>s. published example_env s \<and>
    set_Lookup s AddressType ''b'' = [example_resource ''h''] \<and> set_Lookup s AddressType ''c'' = [] \<and>
    ListResourcesOwnedByGateway s AddressType ''g'' = [example_resource ''h''] \<and>
    ListServiceMembers s AddressType ''s'' = [example_resource ''h'']"
proof -
  obtain s where s: "published example_env s" "set_List s AddressType = [example_resource ''h'']"
    using example_published by blast
  show ?thesis
    by (rule exI [of _ s])
      (simp add: s indexed_reads_are_scans [OF s(1), of AddressType "''b''" "''g''" _ "''s''"]
        indexed_reads_are_scans [OF s(1), of AddressType "''c''"], simp add: example_resource_def)
qed

text \<open>
  C0: a query over Workload facts, which reads the shortest of the postings its fields name and
  stops at the first with at most one name, returns exactly the Workloads that match every field; a
  query with a blank, partial or invalid field, or with no field, returns none.  \<open>HasWorkload\<close>
  agrees with it.
\<close>

theorem workload_queries_are_scans:
  assumes "published env s"
  shows "ListWorkloads s t q =
      (if query_valid q \<and> query_postings q \<noteq> []
       then filter (\<lambda>r. query_Matches q (facts_Workload (res_Facts r))) (set_List s t) else []) \<and>
    (HasWorkload s t q \<longleftrightarrow> ListWorkloads s t q \<noteq> [])"
  using ListWorkloads_scan [OF published_ok [OF assms]] HasWorkload_iff by blast

theorem workload_queries_are_scans_witness:
  "\<exists>s. published example_env s \<and>
    ListWorkloads s AddressType \<lparr>wq_AuthorizationRefsOnly = False, wq_TrafficPolicyRefsOnly = False, wq_WorkloadUID = ''u'',
      wq_Source = zero_source, wq_NodeName = ''m'', wq_Principal = None, wq_Namespace = [], wq_ServiceKey = ''s'',
      wq_GatewayReference = [], wq_AuthorizationReference = [], wq_TrafficPolicyReference = []\<rparr> = [example_resource ''h''] \<and>
    \<not> HasWorkload s AddressType \<lparr>wq_AuthorizationRefsOnly = True, wq_TrafficPolicyRefsOnly = False, wq_WorkloadUID = ''u'',
      wq_Source = zero_source, wq_NodeName = [], wq_Principal = None, wq_Namespace = [], wq_ServiceKey = [],
      wq_GatewayReference = [], wq_AuthorizationReference = [], wq_TrafficPolicyReference = []\<rparr>"
proof -
  obtain s where s: "published example_env s" "set_List s AddressType = [example_resource ''h'']"
    using example_published by blast
  note scan = workload_queries_are_scans [OF s(1), of AddressType, unfolded s(2)]
  show ?thesis
    by (rule exI [of _ s], intro conjI, rule s(1)) (simp only: scan, code_simp)+
qed

text \<open>
  C0: \<open>Apply\<close> implements the changes.  It refines the map of resources: what \<open>Get\<close> returns
  afterwards is the result of the changes one after another on that map, and the list of a type
  is exactly the resources of that type in it, in the order of their names and without duplicates.
\<close>

theorem Apply_refines_the_map:
  assumes "published env s" and "honest_changes env (set_Get s) changes"
    and "set_Apply env s changes = Inr (s', changed)"
  shows "set_Get s' = foldl (reference_change env) (set_Get s) changes \<and>
    set (set_List s' t) = {r. key_TypeURL (res_Key r) = t \<and> set_Get s' (res_Key r) = Some r} \<and>
    sorted (map (\<lambda>r. key_Name (res_Key r)) (set_List s' t)) \<and> distinct (map (\<lambda>r. key_Name (res_Key r)) (set_List s' t))"
  using set_Apply_ok [OF published_ok [OF assms(1)] assms(3,2)] published_list [of s' t] by (simp add: sd_def)

theorem Apply_refines_the_map_witness:
  "\<exists>s s'. published example_env s \<and>
    set_Apply example_env s
      [\<lparr>ch_Key = \<lparr>key_TypeURL = AddressType, key_Name = ''a''\<rparr>, ch_Old = None, ch_New = None\<rparr>,
       \<lparr>ch_Key = \<lparr>key_TypeURL = AddressType, key_Name = ''a''\<rparr>, ch_Old = None, ch_New = Some (example_resource ''i'')\<rparr>] = Inr (s', True) \<and>
    set_Get s' = [\<lparr>key_TypeURL = AddressType, key_Name = ''a''\<rparr> \<mapsto> example_resource ''i'']"
proof -
  define k where "k = \<lparr>key_TypeURL = AddressType, key_Name = ''a''\<rparr>"
  define cs where "cs = [\<lparr>ch_Key = k, ch_Old = None, ch_New = None\<rparr>,
    \<lparr>ch_Key = k, ch_Old = None, ch_New = Some (example_resource ''i'')\<rparr>]"
  obtain s where s: "published example_env s" "set_Get s = [k \<mapsto> example_resource ''h'']"
    using example_published unfolding k_def by blast
  have n: "normalizeChangedResource example_env k (example_resource ''i'') = Inr (example_resource ''i'')"
    by (simp add: normalizeChangedResource_def example_prehashed k_def)
  have h: "honest_changes example_env (set_Get s) cs" by (simp add: cs_def s(2))
  obtain s' where a: "set_Apply example_env s cs = Inr (s', True)"
    using apply_example [OF s(2) [unfolded k_def]] unfolding cs_def k_def by blast
  have "set_Get s' = [k \<mapsto> example_resource ''i'']"
    using Apply_refines_the_map [OF s(1) h a, of AddressType] by (auto simp: cs_def s(2) reference_change_def n)
  with s(1) a show ?thesis unfolding cs_def k_def by blast
qed

text \<open>
  C0: \<open>Apply\<close> trusts the old resource of a change whose key the snapshot does not have.  Such a
  change publishes the new resource, but the facts and names it shares with the old one are never
  indexed: \<open>Get\<close> finds the resource and the listing of its gateway does not.
\<close>

theorem stale_old_resource_hides_the_new_one:
  assumes "res_Key new = key" and "res_Key old = key" and "validateResource new = None" and "res_Hash new \<noteq> []"
    and "facts_GatewayOwner (res_Facts new) = g" and "facts_GatewayOwner (res_Facts old) = g" and "g \<noteq> []"
  shows "\<exists>s. set_Apply env \<lparr>rs_resources = [], rs_version = v, rs_length = 0\<rparr>
      [\<lparr>ch_Key = key, ch_Old = Some old, ch_New = Some new\<rparr>] = Inr (s, True) \<and>
    set_Get s key = Some new \<and> ListResourcesOwnedByGateway s (key_TypeURL key) g = []"
proof -
  define t where "t = key_TypeURL key"
  define n where "n = key_Name key"
  have key: "key = \<lparr>key_TypeURL = t, key_Name = n\<rparr>" by (simp add: t_def n_def)
  have valid: "\<not> blank t" "\<not> blank n" using assms(1,3) by (auto simp: validateResource_def t_def n_def split: if_splits)
  obtain i1 p1 where d: "updateResourceLookupDiff False t (Some old) (Some new) (empty_index, []) = (i1, p1)" by fastforce
  have empty: "tracks False t empty_index [] (has_entry empty_index)" using index_ok_empty by (simp add: index_ok_def)
  have none: "\<not> has_entry empty_index e m" for e m by (simp add: has_entry_def shard_get_def empty_index_def)
  note tracked = diff_tracks [OF empty d, of n]
  define e where "e = \<lparr>le_kind = 1, le_key = resourceFactIndexKey resourceFactGatewayOwner g\<rparr>"
  have both: "e \<in> set (resourceLookupEntries (Some new))" "e \<in> set (resourceLookupEntries (Some old))"
    using assms(5-7) by (simp_all add: mem_entries e_def owner_key)
  have p1: "p1 = []" using direct_diff [of t "Some old" "Some new" empty_index "[]"] d by simp
  have "tracks False t i1 p1 (\<lambda>e m. if m = n then
      (if e \<in> set (resourceLookupEntries (Some new)) \<and> e \<notin> set (resourceLookupEntries (Some old)) then True
       else if e \<in> set (resourceLookupEntries (Some old)) \<and> e \<notin> set (resourceLookupEntries (Some new)) then False
       else has_entry empty_index e m) else has_entry empty_index e m)"
    by (rule tracked(1)) (use assms(1,2) in \<open>simp_all add: n_def\<close>)
  note at = this [unfolded tracks_def, THEN spec [of _ e]]
  have "le_kind e \<le> 1" by (simp add: e_def)
  then have "\<forall>m. m \<notin> set (posting i1 e)"
    using at by (simp add: both none p1 cong: if_cong)
  then have posting: "posting i1 e = []" by (cases "posting i1 e") auto
  have len: "ti_length i1 = 0" using tracked(2) assms(1,2) by (simp add: n_def empty_index_def)
  define i2 where "i2 = (shard_put i1 n new)\<lparr>ti_length := ti_length (shard_put i1 n new) + 1\<rparr>"
  have i2: "ti_length i2 = 1" "lookupNames (ti_facts i2) (le_key e) = []" "shard_get i2 n = Some new"
    using len posting by (simp_all add: i2_def shard_put_def posting_def lookup_of_def e_def) (simp add: shard_get_def update_conv')
  define s where "s = \<lparr>rs_resources = [(t, i2)], rs_version = incrementalVersion env v
      [\<lparr>ch_Key = key, ch_Old = Some old, ch_New = Some new\<rparr>], rs_length = 1\<rparr>"
  have "set_Apply env \<lparr>rs_resources = [], rs_version = v, rs_length = 0\<rparr>
      [\<lparr>ch_Key = key, ch_Old = Some old, ch_New = Some new\<rparr>] = Inr (s, True)"
    using valid assms(1,3,4) d i2(1)
    by (simp add: set_Apply_def apply_change_def commit_change_def normalizeChangedResource_def prehashed_def type_index_def
        updates_apply_def s_def p1 Let_def t_def [symmetric] n_def [symmetric] i2_def [symmetric])
  moreover have "set_Get s key = Some new" using i2(3) by (simp add: set_Get_def s_def key)
  moreover have "ListResourcesOwnedByGateway s t g = []"
    using i2(2) assms(7) by (simp add: ListResourcesOwnedByGateway_def listByFact_def s_def e_def resourcesForNames_def)
  ultimately show ?thesis unfolding t_def by blast
qed

theorem stale_old_resource_hides_the_new_one_witness:
  "\<exists>s. set_Apply example_env \<lparr>rs_resources = [], rs_version = ''v1'', rs_length = 0\<rparr>
      [\<lparr>ch_Key = \<lparr>key_TypeURL = AddressType, key_Name = ''a''\<rparr>, ch_Old = Some (example_resource ''h''),
        ch_New = Some (example_resource ''i'')\<rparr>] = Inr (s, True) \<and>
    set_Get s \<lparr>key_TypeURL = AddressType, key_Name = ''a''\<rparr> = Some (example_resource ''i'') \<and>
    ListResourcesOwnedByGateway s AddressType ''g'' = []"
  using stale_old_resource_hides_the_new_one [of "example_resource ''i''" _ "example_resource ''h''" "''g''" example_env
    "''v1''", OF example_key example_key example_valid] by (simp add: example_resource_def)

end
