(* ===== verification/Spec2Isabelle.thy ===== *)
theory Spec2Isabelle
  imports Attributes Egress_Authz Extproc_Process Mcp_Acl Push_Scheduler Snapshot_Index
begin

text \<open>
  \<^bold>\<open>A verification library for Agentio.\<close>

  Agentio enforces what agents in a cluster may reach.  Two programs of the repository are
  modelled.  The Egress Policy Enforcer (\<open>extensions/epe\<close>) is an external processor beside a
  proxy: for every HTTP stream it receives the headers, asks an authorizer where the request may go,
  runs the filters of the matching rules over the request and response, and answers with mutations,
  with a reply of its own or with nothing.  The control plane (\<open>pkg\<close>) publishes resources to the proxies
  and the enforcer over incremental xDS streams.

  \<^bold>\<open>Conventions.\<close>  A Go struct is a record, a tagged union a datatype, a nil-able pointer an
  option, a string or byte slice a \<^typ>\<open>string\<close> of octets, an \<open>int\<close> an unbounded integer unless its width
  matters (ports, address words and masks are words).  An error is a value of an error type.  A
  function that mutates its receiver returns the new one.  A critical section of a mutex is one
  operation.  Third-party code is an argument of the definitions that use it (the DNS answer, the
  random draw, the decompressors, the filters' own code); the laws assumed of it are hypotheses of the theorems that
  need them, with witnesses that instantiate them.  Contexts, timers, spans, durations and log lines are left
  out; metrics are the labels they are recorded under.

  \<^bold>\<open>The enforcer.\<close>
  \<^item> \<open>Go_Prelude\<close>: the parts of the Go library the sources use on strings and numbers, shared lemmas and
    the lemma collections.
  \<^item> \<open>Netip\<close>, \<open>Netip_Parse\<close>: addresses, prefixes and their parser (\<open>net/netip\<close>).
  \<^item> \<open>Authz_Config\<close>: validation, compilation and evaluation of a destination policy
    (\<open>filters/egressauthz/config.go\<close>, \<open>policy.go\<close>, \<open>policy/trafficpolicy/convert.go\<close>).  Compilation refines
    the published rules read in order; a denial overlay always wins; exactly the valid inputs compile.
  \<^item> \<open>Egress_Authz\<close>: the authorizers and their aggregation (\<open>authorizer.go\<close>, \<open>resolve.go\<close>, \<open>responses.go\<close>,
    \<open>cmd/epe/authorization.go\<close>).  The address a request is pinned to was allowed by the policy, a denied
    fixed target has no fallback, every request is decided, the audit names the deciding rule, and the
    choice among allowed addresses is uniform.
  \<^item> \<open>Ttl_Cache\<close>, \<open>Dns_Client\<close>: \<open>pkg/cache\<close> and \<open>pkg/dns\<close>.  Answers served from the cache are live, an answer
    to a query that was overtaken by an update is not stored, and addresses handed out are usable.
  \<^item> \<open>Request_Context\<close>, \<open>Filter_Contract\<close>, \<open>Filter_Registry\<close>: the request, the caller, mutations, actions, units
    and the registry of filters (\<open>httpreq\<close>, \<open>subject\<close>, \<open>inputs\<close>, \<open>engine/filter\<close>).
  \<^item> \<open>Mutation_Fold\<close>: \<open>engine/fold.go\<close>, the fold of a phase's mutations.
  \<^item> \<open>Engine\<close>, \<open>Engine_Response\<close>: \<open>engine/eval.go\<close>, \<open>invoke.go\<close>, \<open>resolve.go\<close>, \<open>metrics.go\<close>; \<open>Engine_Invariants\<close>, \<open>Engine_Order\<close> and
    \<open>Engine_Safety\<close> prove that blocking discards mutations, that evaluation only extends the record, that pausing
    for a response body computes what one uninterrupted walk does, and that the incrementally kept view of the
    request is the recomputed one.
  \<^item> \<open>Extproc_Wire\<close>: \<open>extproc/translate.go\<close>, \<open>route.go\<close>, \<open>outcome.go\<close>, \<open>responses.go\<close>.  Applied in the proxy's order, the wire
    mutations have the effect of the filters' mutations one after another.
  \<^item> \<open>Attributes\<close>: \<open>extproc/attributes\<close> and \<open>labels\<close>.  The request that is authorized is the request that is
    sent after the mutations.
  \<^item> \<open>Extproc_Server\<close>, \<open>Extproc_Process\<close>: \<open>extproc/server.go\<close>, \<open>authorization.go\<close>, \<open>request.go\<close>, \<open>body.go\<close>, \<open>responsebody.go\<close>.
    A forwarded request was authorized and goes to an address the policy allows, tunnels are never
    buffered, the stream's loggers fire exactly once with the outcome that was sent, and the loop returns when the
    stream ends.
  \<^item> \<open>Go_Json\<close>, \<open>Go_Json_Parse\<close>: \<open>encoding/json\<close>.  The parser takes fuel; the length of the text is enough, because
    every recursive call consumes an octet, and the round trip is proved with that fuel.
  \<^item> \<open>Mcp_Acl\<close>: \<open>filters/mcpacl\<close>.  A governed tool call passes only if the policy allows the tool its body names.

  \<^bold>\<open>The control plane.\<close>
  \<^item> \<open>Xds_Update\<close>: resources (\<open>pkg/model/resource.go\<close>) and invalidation notices (\<open>pkg/xds/store/update.go\<close>).  A merged
    notice covers both of its parts.
  \<^item> \<open>Push_Scheduler\<close>: \<open>pkg/xds/scheduler.go\<close>, every interleaving of its critical sections.  No notice is lost and
    the number of pushes under way is bounded.
  \<^bold>\<open>Interfaces.\<close>  Where one component relies on a contract of another, the contract is a locale and the
  component's definitions are interpreted in it: \<open>notice_merge\<close> is what the scheduler needs of merging, for
  example, and the scheduler's invariants are proved inside it.

  \<^bold>\<open>Not modelled.\<close>  The filters that sign requests, exchange tokens or call services (\<open>tokentransform\<close>, \<open>oauth2\<close>,
  \<open>httpcallout\<close>) are cryptography and network I/O.  Rule matching and templates are evaluated by a CEL library.  The
  compiler and the networking packages of the control plane translate Kubernetes objects into generated protobuf types
  of third-party packages.  The collection framework (\<open>pkg/krt\<close>), the Kubernetes clients, gateway deployment, injection,
  certificates, process assembly, command lines, benchmarks, tools and tests are not modelled either.
\<close>

end
